(* ===== verification/Prelude.thy ===== *)
theory Prelude
  imports Main "HOL-Library.Word" "HOL-Library.Sublist"
begin

text \<open>
  Shared vocabulary of the development: the machine integer types of the Rust sources (64-bit
  target, release profile, so additions and multiplications wrap), the \<open>Result\<close> type as a
  sum, byte strings, decimal and hexadecimal printing as \<open>format!\<close> does it, substring
  search, and the generic lemmas about words, finite sums over maps and strings that the
  component theories share.
\<close>

unbundle bit_operations_syntax

section \<open>Machine integers\<close>

type_synonym u8 = "8 word"
type_synonym u32 = "32 word"
type_synonym u64 = "64 word"
type_synonym usize = "64 word"
type_synonym i32 = "32 word"
type_synonym i64 = "64 word"

named_theorems word_facts \<open>facts about wrapping arithmetic used by the components\<close>
named_theorems frame_simps \<open>fields that an operation leaves unchanged\<close>

lemma unat_add_small [word_facts]:
  "unat (a::'a::len word) + unat b < 2 ^ LENGTH('a) \<Longrightarrow> unat (a + b) = unat a + unat b"
  by (simp add: unat_add_lem)

lemma ucast_up_down: "ucast (ucast (w :: u32) :: u64) = w"
  by transfer simp

lemma unat_sub_small [word_facts]:
  "unat b \<le> unat a \<Longrightarrow> unat ((a::'a::len word) - b) = unat a - unat b"
  by (simp add: unat_sub word_le_nat_alt)

lemma u64_bound [simp]: "unat (a::64 word) < 18446744073709551616"
  using unsigned_less [of a, where 'a = nat] by simp

lemma and_not_mask_eq: "(w::'a::len word) AND NOT (mask n) = w - take_bit n w"
proof -
  have "w AND NOT (mask n) = push_bit n (drop_bit n w)"
    by (rule bit_eqI) (auto simp: bit_simps)
  with bits_ident [of n w] show ?thesis by (metis add_diff_cancel_right')
qed

lemma unat_and_not_mask: "unat ((w::'a::len word) AND NOT (mask n)) = unat w - unat w mod 2 ^ n"
proof -
  have t: "unat (take_bit n w) = unat w mod 2 ^ n"
    by (metis unsigned_take_bit_eq take_bit_eq_mod)
  then have "unat (take_bit n w) \<le> unat w" by simp
  with t show ?thesis by (simp add: and_not_mask_eq unat_sub_small)
qed

section \<open>Errors\<close>

text \<open>
  A Rust \<open>Result<T, E>\<close> is \<open>'e + 'a\<close>, with \<open>Inl\<close> for \<open>Err\<close> and
  \<open>Inr\<close> for \<open>Ok\<close>. A method that mutates its receiver returns the result and the
  new state.
\<close>

abbreviation is_ok :: "'e + 'a \<Rightarrow> bool" where
  "is_ok r \<equiv> \<not> isl r"

section \<open>Text\<close>

text \<open>
  A Rust \<open>String\<close> is a sequence of UTF-8 bytes; it is modelled as a \<^typ>\<open>string\<close>,
  whose characters are bytes. Line breaks, tabs and double quotes have names, so that templates
  can be written line by line.
\<close>

abbreviation nl :: string where "nl \<equiv> [CHR 0x0A]"
abbreviation tab :: string where "tab \<equiv> [CHR 0x09]"
abbreviation dquote :: string where "dquote \<equiv> [CHR 0x22]"

text \<open>The lines of a template, each ended by a line break.\<close>

definition text_lines :: "string list \<Rightarrow> string" where
  "text_lines ls = concat (map (\<lambda>l. l @ nl) ls)"

definition bytes_of :: "string \<Rightarrow> u8 list" where
  "bytes_of s = map of_char s"

definition string_of_bytes :: "u8 list \<Rightarrow> string" where
  "string_of_bytes bs = map (\<lambda>b. char_of (unat b)) bs"

lemma length_bytes_of [simp]: "length (bytes_of s) = length s"
  by (simp add: bytes_of_def)

lemma bytes_of_append [simp]: "bytes_of (s @ t) = bytes_of s @ bytes_of t"
  by (simp add: bytes_of_def)

lemma text_lines_Cons [simp]: "text_lines (l # ls) = l @ nl @ text_lines ls"
  by (simp add: text_lines_def)

lemma text_lines_Nil [simp]: "text_lines [] = []"
  by (simp add: text_lines_def)

text \<open>\<open>{:<n}\<close> pads with spaces on the right.\<close>

definition pad_right :: "nat \<Rightarrow> string \<Rightarrow> string" where
  "pad_right n s = s @ replicate (n - length s) CHR '' ''"

subsection \<open>Printing integers\<close>

definition digit_char :: "nat \<Rightarrow> char" where
  "digit_char d = (if d < 10 then char_of (48 + d) else char_of (87 + d))"

text \<open>Positional notation in base \<open>b\<close>, most significant digit first, no leading zeros.\<close>

fun digits_in :: "nat \<Rightarrow> nat \<Rightarrow> string" where
  "digits_in b n =
     (if n < b \<or> b < 2 then [digit_char n] else digits_in b (n div b) @ [digit_char (n mod b)])"

declare digits_in.simps [simp del]

text \<open>\<open>{}\<close> of an unsigned value, \<open>{:x}\<close> of an unsigned value, \<open>{}\<close> of a signed one.\<close>

definition dec :: "nat \<Rightarrow> string" where
  "dec n = digits_in 10 n"

definition hex :: "nat \<Rightarrow> string" where
  "hex n = digits_in 16 n"

definition dec_int :: "int \<Rightarrow> string" where
  "dec_int i = (if i < 0 then ''-'' @ dec (nat (- i)) else dec (nat i))"

text \<open>Reading positional notation back, to show that printing loses nothing.\<close>

definition digit_val :: "char \<Rightarrow> nat" where
  "digit_val c = (if of_char c < (58::nat) then of_char c - 48 else of_char c - 87)"

definition undigits :: "nat \<Rightarrow> string \<Rightarrow> nat" where
  "undigits b s = foldl (\<lambda>acc c. acc * b + digit_val c) 0 s"

lemma digit_val_digit_char [simp]: "d < 36 \<Longrightarrow> digit_val (digit_char d) = d"
  by (simp add: digit_val_def digit_char_def)

lemma undigits_digits_in: "2 \<le> b \<Longrightarrow> b \<le> 36 \<Longrightarrow> undigits b (digits_in b n) = n"
proof (induction b n rule: digits_in.induct)
  case (1 b n)
  show ?case
  proof (cases "n < b")
    case True
    with "1.prems" show ?thesis
      by (simp add: digits_in.simps [of b n] undigits_def)
  next
    case False
    with "1.IH" "1.prems" have IH: "undigits b (digits_in b (n div b)) = n div b"
      by simp
    have "n mod b < 36"
      using "1.prems" by (meson less_le_trans mod_less_divisor not_less zero_less_numeral
          gr_zeroI less_numeral_extra(3) order_less_le_trans)
    with False "1.prems" IH show ?thesis
      by (simp add: digits_in.simps [of b n] undigits_def)
  qed
qed

lemma digits_in_inject: "2 \<le> b \<Longrightarrow> b \<le> 36 \<Longrightarrow> digits_in b m = digits_in b n \<longleftrightarrow> m = n"
  by (metis undigits_digits_in)

lemma dec_inject [simp]: "dec m = dec n \<longleftrightarrow> m = n"
  by (simp add: dec_def digits_in_inject)

lemma hex_inject [simp]: "hex m = hex n \<longleftrightarrow> m = n"
  by (simp add: hex_def digits_in_inject)

text \<open>Decimal notation consists of the ASCII digits.\<close>

lemma of_char_digit_char: "d < 10 \<Longrightarrow> of_char (digit_char d) = 48 + d"
  by (simp add: digit_char_def)

lemma set_digits_in:
  "2 \<le> b \<Longrightarrow> b \<le> 10 \<Longrightarrow> c \<in> set (digits_in b n) \<Longrightarrow> of_char c \<in> {48..57::nat}"
proof (induction b n rule: digits_in.induct)
  case (1 b n)
  show ?case
  proof (cases "n < b")
    case True
    with "1.prems" show ?thesis by (simp add: digits_in.simps [of b n] of_char_digit_char)
  next
    case False
    have "n mod b < 10"
      using "1.prems" by (meson less_le_trans mod_less_divisor zero_less_numeral)
    with False "1.prems" "1.IH" show ?thesis
      by (auto simp: digits_in.simps [of b n] of_char_digit_char)
  qed
qed

lemma set_dec: "c \<in> set (dec n) \<Longrightarrow> of_char c \<in> {48..57::nat}"
  unfolding dec_def by (rule set_digits_in [of 10]) auto

lemma digits_in_nonempty [simp]: "digits_in b n \<noteq> []"
  by (subst digits_in.simps) simp

lemma dec_nonempty [simp]: "dec n \<noteq> []"
  by (simp add: dec_def)

lemma dec_int_inject [simp]: "dec_int i = dec_int j \<longleftrightarrow> i = j"
proof
  have minus: "''-'' @ dec n \<noteq> dec k" for n k
  proof
    assume "''-'' @ dec n = dec k"
    then have "CHR ''-'' \<in> set (dec k)" by (metis append_Cons list.set_intros(1))
    then show False using set_dec [of "CHR ''-''" k] by simp
  qed
  show "dec_int i = dec_int j \<Longrightarrow> i = j"
    using minus minus [symmetric] by (auto simp: dec_int_def split: if_splits)
qed simp

subsection \<open>Substring search\<close>

text \<open>\<open>str::contains\<close>: the pattern occurs at some position.\<close>

fun contains_str :: "string \<Rightarrow> string \<Rightarrow> bool" where
  "contains_str [] p = (p = [])"
| "contains_str (c # s) p = (prefix p (c # s) \<or> contains_str s p)"

lemma contains_str_iff: "contains_str s p \<longleftrightarrow> sublist p s"
  by (induction s) (auto simp: sublist_Cons_right)

lemma contains_strI [intro]: "contains_str (xs @ p @ ys) p"
  by (auto simp: contains_str_iff)

subsection \<open>Splitting at a separator\<close>

text \<open>\<open>str::split\<close> at a character.\<close>

fun split_on :: "char \<Rightarrow> string \<Rightarrow> string list" where
  "split_on c [] = [[]]"
| "split_on c (a # s) =
     (if a = c then [] # split_on c s
      else (case split_on c s of [] \<Rightarrow> [[a]] | l # ls \<Rightarrow> (a # l) # ls))"

lemma split_on_append [simp]: "c \<notin> set s \<Longrightarrow> split_on c (s @ c # t) = s # split_on c t"
  by (induction s) auto

lemma split_on_none [simp]: "c \<notin> set s \<Longrightarrow> split_on c s = [s]"
  by (induction s) auto

lemma split_on_nonempty [simp]: "split_on c s \<noteq> []"
  by (induction s) (auto split: list.split)

section \<open>Sums over finite maps\<close>

text \<open>The sum of a quantity over the values of a map.\<close>

definition sum_of_map :: "('v \<Rightarrow> nat) \<Rightarrow> ('k \<rightharpoonup> 'v) \<Rightarrow> nat" where
  "sum_of_map f m = (\<Sum>k\<in>dom m. f (the (m k)))"

lemma sum_of_map_empty [simp]: "sum_of_map f Map.empty = 0"
  by (simp add: sum_of_map_def)

lemma sum_of_map_remove:
  assumes "finite (dom m)" and "m k = Some v"
  shows "sum_of_map f m = f v + sum_of_map f (m(k := None))"
proof -
  have "sum_of_map f m = f (the (m k)) + (\<Sum>j\<in>dom m - {k}. f (the (m j)))"
    unfolding sum_of_map_def using assms by (intro sum.remove) auto
  also have "(\<Sum>j\<in>dom m - {k}. f (the (m j))) = sum_of_map f (m(k := None))"
    unfolding sum_of_map_def by (intro sum.cong) auto
  finally show ?thesis using assms by simp
qed

lemma sum_of_map_insert:
  assumes "finite (dom m)"
  shows "sum_of_map f (m(k \<mapsto> v)) = f v + sum_of_map f (m(k := None))"
proof -
  have "sum_of_map f (m(k \<mapsto> v)) = f v + sum_of_map f ((m(k \<mapsto> v))(k := None))"
    using assms by (intro sum_of_map_remove) auto
  then show ?thesis by (simp add: fun_upd_upd)
qed

lemma sum_of_map_insert_new:
  "finite (dom m) \<Longrightarrow> m k = None \<Longrightarrow> sum_of_map f (m(k \<mapsto> v)) = f v + sum_of_map f m"
  by (simp add: sum_of_map_insert fun_upd_idem)

lemma sum_of_map_mono:
  "finite (dom m) \<Longrightarrow> (\<And>k v. m k = Some v \<Longrightarrow> f v \<le> g v) \<Longrightarrow> sum_of_map f m \<le> sum_of_map g m"
  unfolding sum_of_map_def by (intro sum_mono) auto

end
