(* ===== verification/Allocator.thy ===== *)
theory Allocator
  imports Prelude
begin

text \<open>
  The DUVAS allocator of \<open>omni-core/src/memory/allocator.rs\<close>: its state (the map of live blocks
  under the mutex, the two byte counters, the next address), the operations \<open>new\<close>, \<open>alloc\<close>,
  \<open>free\<close>, \<open>migrate\<close>, \<open>get_metrics\<close> and \<open>get_domain\<close>, the invariant that every operation
  keeps, the abstract ledger they refine, and the interface \<open>residency\<close> that the pager uses.
  The mutex makes each operation one atomic step, so an operation is a function on the state.
\<close>

section \<open>Data\<close>

datatype memory_domain = Host | LocalDevice | RemotePeer | Swap

record memory_block =
  virtual_addr :: u64
  size_bytes :: usize
  domain :: memory_domain
  is_static :: bool

record allocator_state =
  allocations :: "u64 \<rightharpoonup> memory_block"
  allocated_virtual_bytes :: usize
  allocated_device_bytes :: usize
  next_addr :: u64

record duvas_allocator =
  state :: allocator_state
  device_capacity_bytes :: usize

text \<open>The \<open>bail!\<close> sites of the file.\<close>

datatype alloc_error = InvalidFree u64 | CannotMigrate u64

section \<open>Operations\<close>

definition duvas_new :: "usize \<Rightarrow> duvas_allocator" where
  "duvas_new capacity =
     \<lparr>state = \<lparr>allocations = Map.empty, allocated_virtual_bytes = 0,
               allocated_device_bytes = 0, next_addr = 0x1000000000\<rparr>,
      device_capacity_bytes = capacity\<rparr>"

definition align_page :: "usize \<Rightarrow> usize" where
  "align_page n = (n + 4095) AND NOT 4095"

definition alloc :: "usize \<Rightarrow> bool \<Rightarrow> duvas_allocator \<Rightarrow> (alloc_error + u64) \<times> duvas_allocator" where
  "alloc nbytes static a =
     (let st = state a;
          aligned_size = align_page nbytes;
          addr = next_addr st;
          st = st\<lparr>next_addr := next_addr st + aligned_size\<rparr>;
          (dm, st) =
            (if allocated_device_bytes st + aligned_size \<le> device_capacity_bytes a
             then (LocalDevice,
                   st\<lparr>allocated_device_bytes := allocated_device_bytes st + aligned_size\<rparr>)
             else (Host, st));
          block = \<lparr>virtual_addr = addr, size_bytes = aligned_size,
                   domain = dm, is_static = static\<rparr>;
          st = st\<lparr>allocations := (allocations st)(addr \<mapsto> block)\<rparr>;
          st = st\<lparr>allocated_virtual_bytes := allocated_virtual_bytes st + aligned_size\<rparr>
      in (Inr addr, a\<lparr>state := st\<rparr>))"

definition free :: "u64 \<Rightarrow> duvas_allocator \<Rightarrow> (alloc_error + unit) \<times> duvas_allocator" where
  "free addr a =
     (let st = state a in
      case allocations st addr of
        Some block \<Rightarrow>
          (let st = st\<lparr>allocations := (allocations st)(addr := None)\<rparr>;
               st = st\<lparr>allocated_virtual_bytes := allocated_virtual_bytes st - size_bytes block\<rparr>;
               st = (if domain block = LocalDevice
                     then st\<lparr>allocated_device_bytes := allocated_device_bytes st - size_bytes block\<rparr>
                     else st)
           in (Inr (), a\<lparr>state := st\<rparr>))
      | None \<Rightarrow> (Inl (InvalidFree addr), a))"

definition migrate ::
  "u64 \<Rightarrow> memory_domain \<Rightarrow> duvas_allocator \<Rightarrow> (alloc_error + unit) \<times> duvas_allocator" where
  "migrate addr target a =
     (let st = state a in
      case allocations st addr of
        None \<Rightarrow> (Inl (CannotMigrate addr), a)
      | Some block \<Rightarrow>
          (let prev = domain block; sz = size_bytes block in
           if prev = target then (Inr (), a)
           else
             (let st = (if prev = LocalDevice
                        then st\<lparr>allocated_device_bytes := allocated_device_bytes st - sz\<rparr>
                        else st);
                  st = (if target = LocalDevice
                        then st\<lparr>allocated_device_bytes := allocated_device_bytes st + sz\<rparr>
                        else st);
                  st = (case allocations st addr of
                          Some b \<Rightarrow>
                            st\<lparr>allocations := (allocations st)(addr \<mapsto> b\<lparr>domain := target\<rparr>)\<rparr>
                        | None \<Rightarrow> st)
              in (Inr (), a\<lparr>state := st\<rparr>))))"

definition get_metrics :: "duvas_allocator \<Rightarrow> usize \<times> usize \<times> usize" where
  "get_metrics a =
     (allocated_device_bytes (state a), device_capacity_bytes a, allocated_virtual_bytes (state a))"

definition get_domain :: "duvas_allocator \<Rightarrow> u64 \<Rightarrow> memory_domain option" where
  "get_domain a addr = map_option domain (allocations (state a) addr)"

section \<open>Page rounding\<close>

lemma mask_12: "(4095::usize) = mask 12"
  by (simp add: mask_eq_exp_minus_1)

lemma unat_align_page_mod:
  "unat (align_page n) = unat (n + 4095) div 4096 * 4096"
proof -
  have "unat (align_page n) = unat (n + 4095) - unat (n + 4095) mod 2 ^ 12"
    unfolding align_page_def mask_12 by (rule unat_and_not_mask)
  then show ?thesis by (simp add: minus_mod_eq_div_mult)
qed

lemma align_page_dvd [simp, intro]: "4096 dvd unat (align_page n)"
  by (simp add: unat_align_page_mod)

lemma unat_align_page:
  "unat n + 4095 < 2 ^ 64 \<Longrightarrow> unat (align_page n) = (unat n + 4095) div 4096 * 4096"
  by (simp add: unat_align_page_mod unat_add_small)

lemma align_page_ge: "unat n + 4095 < 2 ^ 64 \<Longrightarrow> unat n \<le> unat (align_page n)"
  by (simp add: unat_align_page)

lemma align_page_less: "unat n + 4095 < 2 ^ 64 \<Longrightarrow> unat (align_page n) < unat n + 4096"
  by (simp add: unat_align_page)

section \<open>The invariant\<close>

text \<open>
  What every operation keeps: each live block is stored under its own address, is page aligned
  and lies between the base of the address space and the next address; live blocks do not
  overlap; and the two counters are the sums over the live blocks. The sums stay below the next
  address, so that no subtraction of the code underflows.
\<close>

definition block_ok :: "u64 \<Rightarrow> u64 \<Rightarrow> memory_block \<Rightarrow> bool" where
  "block_ok nxt k b \<longleftrightarrow>
     virtual_addr b = k \<and> 4096 dvd unat k \<and> 4096 dvd unat (size_bytes b) \<and>
     0x1000000000 \<le> unat k \<and> unat k + unat (size_bytes b) \<le> unat nxt"

definition blocks_wf :: "u64 \<Rightarrow> (u64 \<rightharpoonup> memory_block) \<Rightarrow> bool" where
  "blocks_wf nxt m \<longleftrightarrow>
     finite (dom m) \<and>
     (\<forall>k b. m k = Some b \<longrightarrow> block_ok nxt k b) \<and>
     (\<forall>j k b. m j = Some b \<longrightarrow> k \<in> dom m \<longrightarrow> unat j < unat k \<longrightarrow>
        unat j + unat (size_bytes b) \<le> unat k)"

definition block_bytes :: "memory_block \<Rightarrow> nat" where
  "block_bytes b = unat (size_bytes b)"

definition device_bytes :: "memory_block \<Rightarrow> nat" where
  "device_bytes b = (if domain b = LocalDevice then unat (size_bytes b) else 0)"

definition alloc_inv :: "duvas_allocator \<Rightarrow> bool" where
  "alloc_inv a \<longleftrightarrow>
     (let st = state a; m = allocations st in
        blocks_wf (next_addr st) m \<and>
        4096 dvd unat (next_addr st) \<and> 0x1000000000 \<le> unat (next_addr st) \<and>
        unat (allocated_virtual_bytes st) = sum_of_map block_bytes m \<and>
        unat (allocated_device_bytes st) = sum_of_map device_bytes m \<and>
        0x1000000000 + sum_of_map block_bytes m \<le> unat (next_addr st))"

text \<open>An allocation fits when neither the rounding nor the address counter wraps.\<close>

definition fits :: "usize \<Rightarrow> duvas_allocator \<Rightarrow> bool" where
  "fits n a \<longleftrightarrow> unat n + 4095 < 2 ^ 64 \<and> unat (next_addr (state a)) + unat (align_page n) < 2 ^ 64"

lemma device_bytes_le: "device_bytes b \<le> block_bytes b"
  by (simp add: device_bytes_def block_bytes_def)

lemma blocks_wfD:
  assumes "blocks_wf nxt m"
  shows blocks_wf_finite: "finite (dom m)"
    and blocks_wf_ok: "m k = Some b \<Longrightarrow> block_ok nxt k b"
    and blocks_wf_disj:
      "m j = Some b \<Longrightarrow> m k = Some c \<Longrightarrow> unat j < unat k \<Longrightarrow> unat j + unat (size_bytes b) \<le> unat k"
  using assms unfolding blocks_wf_def by blast+

lemma blocks_wf_empty [simp]: "blocks_wf nxt Map.empty"
  by (simp add: blocks_wf_def)

lemma blocks_wf_remove: "blocks_wf nxt m \<Longrightarrow> blocks_wf nxt (m(k := None))"
  by (auto simp: blocks_wf_def)

lemma blocks_wf_update:
  assumes "blocks_wf nxt m" and "m k = Some b"
    and "virtual_addr c = virtual_addr b" and "size_bytes c = size_bytes b"
  shows "blocks_wf nxt (m(k \<mapsto> c))"
proof -
  have dom: "dom (m(k \<mapsto> c)) = dom m" using assms(2) by auto
  have ok: "block_ok nxt j d" if "(m(k \<mapsto> c)) j = Some d" for j d
    using that assms(2-) blocks_wf_ok [OF assms(1)] by (auto simp: block_ok_def split: if_splits)
  have "unat j + unat (size_bytes d) \<le> unat i"
    if h: "(m(k \<mapsto> c)) j = Some d" "i \<in> dom m" "unat j < unat i" for i j d
  proof -
    obtain e where "m j = Some e" and "size_bytes d = size_bytes e"
      using h(1) assms(2,4) by (auto split: if_splits)
    with h(2,3) show ?thesis
      using blocks_wf_disj [OF assms(1)] by fastforce
  qed
  with ok show ?thesis
    unfolding blocks_wf_def dom using blocks_wf_finite [OF assms(1)] by blast
qed

lemma blocks_wf_extend:
  assumes wf: "blocks_wf nxt m" and "4096 dvd unat nxt" and "0x1000000000 \<le> unat nxt"
    and "virtual_addr b = nxt" and "4096 dvd unat (size_bytes b)"
    and top: "unat nxt + unat (size_bytes b) = unat nxt'"
  shows "blocks_wf nxt' (m(nxt \<mapsto> b))"
proof -
  have old: "block_ok nxt' k c" if "m k = Some c" for k c
    using blocks_wf_ok [OF wf that] top by (auto simp: block_ok_def)
  have new: "block_ok nxt' nxt b"
    using assms by (simp add: block_ok_def)
  have below: "unat k + unat (size_bytes c) \<le> unat nxt" if "m k = Some c" for k c
    using blocks_wf_ok [OF wf that] by (auto simp: block_ok_def)
  have top_key: "\<not> unat nxt < unat k" if "m k = Some c" for k c
    using below [OF that] by simp
  show ?thesis
    unfolding blocks_wf_def
    using wf old new below top_key blocks_wf_disj [OF wf]
    by (auto simp: blocks_wf_def split: if_splits)
qed

lemma alloc_inv_new [simp, intro]: "alloc_inv (duvas_new c)"
  by (simp add: alloc_inv_def duvas_new_def)

section \<open>What each operation does to the state\<close>

definition placement :: "usize \<Rightarrow> duvas_allocator \<Rightarrow> memory_domain" where
  "placement n a =
     (if allocated_device_bytes (state a) + align_page n \<le> device_capacity_bytes a
      then LocalDevice else Host)"

lemma alloc_eq:
  "alloc n f a =
     (Inr (next_addr (state a)),
      a\<lparr>state :=
         \<lparr>allocations = (allocations (state a))(next_addr (state a) \<mapsto>
            \<lparr>virtual_addr = next_addr (state a), size_bytes = align_page n,
             domain = placement n a, is_static = f\<rparr>),
          allocated_virtual_bytes = allocated_virtual_bytes (state a) + align_page n,
          allocated_device_bytes = allocated_device_bytes (state a) +
            (if placement n a = LocalDevice then align_page n else 0),
          next_addr = next_addr (state a) + align_page n\<rparr>\<rparr>)"
  by (simp add: alloc_def placement_def Let_def)

lemma free_Some:
  "allocations (state a) k = Some b \<Longrightarrow>
   free k a =
     (Inr (),
      a\<lparr>state :=
         \<lparr>allocations = (allocations (state a))(k := None),
          allocated_virtual_bytes = allocated_virtual_bytes (state a) - size_bytes b,
          allocated_device_bytes = allocated_device_bytes (state a) -
            (if domain b = LocalDevice then size_bytes b else 0),
          next_addr = next_addr (state a)\<rparr>\<rparr>)"
  by (simp add: free_def Let_def)

lemma free_None: "allocations (state a) k = None \<Longrightarrow> free k a = (Inl (InvalidFree k), a)"
  by (simp add: free_def Let_def)

lemma migrate_Some:
  "allocations (state a) k = Some b \<Longrightarrow>
   migrate k d a =
     (Inr (),
      a\<lparr>state :=
         \<lparr>allocations = (allocations (state a))(k \<mapsto> b\<lparr>domain := d\<rparr>),
          allocated_virtual_bytes = allocated_virtual_bytes (state a),
          allocated_device_bytes = allocated_device_bytes (state a) -
            (if domain b = LocalDevice then size_bytes b else 0) +
            (if d = LocalDevice then size_bytes b else 0),
          next_addr = next_addr (state a)\<rparr>\<rparr>)"
  by (auto simp: migrate_def Let_def fun_upd_idem)

lemma migrate_None: "allocations (state a) k = None \<Longrightarrow> migrate k d a = (Inl (CannotMigrate k), a)"
  by (simp add: migrate_def)

lemmas op_effects = alloc_eq free_Some free_None migrate_Some migrate_None

lemma capacity_frame [frame_simps]:
  "device_capacity_bytes (snd (alloc n f a)) = device_capacity_bytes a"
  "device_capacity_bytes (snd (free k a)) = device_capacity_bytes a"
  "device_capacity_bytes (snd (migrate k d a)) = device_capacity_bytes a"
  by (simp_all add: alloc_eq free_def migrate_def Let_def split: option.split)

section \<open>Preservation of the invariant\<close>

lemma device_sum_le: "finite (dom m) \<Longrightarrow> sum_of_map device_bytes m \<le> sum_of_map block_bytes m"
  by (rule sum_of_map_mono) (simp_all add: device_bytes_le)

text \<open>
  A block stored at the next address is empty (it would otherwise reach past it), so storing a
  new block there loses no bytes.
\<close>

lemma sum_of_map_at_top:
  assumes wf: "blocks_wf nxt m" and f: "\<And>b. f b \<le> block_bytes b"
  shows "sum_of_map f (m(nxt := None)) = sum_of_map f m"
proof (cases "m nxt")
  case None
  then show ?thesis by (simp add: fun_upd_idem)
next
  case (Some b)
  have "f b = 0"
    using blocks_wf_ok [OF wf Some] f [of b] by (auto simp: block_ok_def block_bytes_def)
  then show ?thesis
    using sum_of_map_remove [of m nxt b f] blocks_wf_finite [OF wf] Some by simp
qed

lemma alloc_invD:
  assumes "alloc_inv a"
  shows alloc_inv_wf: "blocks_wf (next_addr (state a)) (allocations (state a))"
    and alloc_inv_virtual:
      "unat (allocated_virtual_bytes (state a)) = sum_of_map block_bytes (allocations (state a))"
    and alloc_inv_device:
      "unat (allocated_device_bytes (state a)) = sum_of_map device_bytes (allocations (state a))"
    and alloc_inv_room:
      "0x1000000000 + sum_of_map block_bytes (allocations (state a)) \<le> unat (next_addr (state a))"
    and alloc_inv_next:
      "4096 dvd unat (next_addr (state a))" "0x1000000000 \<le> unat (next_addr (state a))"
  using assms by (auto simp: alloc_inv_def Let_def)

lemma alloc_inv_alloc:
  assumes inv: "alloc_inv a" and fits: "fits n a"
  shows "alloc_inv (snd (alloc n f a))"
proof -
  let ?st = "state a" and ?n = "align_page n"
  let ?m = "allocations ?st"
  note wf = alloc_inv_wf [OF inv] and room = alloc_inv_room [OF inv]
  note fin = blocks_wf_finite [OF wf]
  have top: "unat (next_addr ?st + ?n) = unat (next_addr ?st) + unat ?n"
    using fits by (simp add: fits_def unat_add_small)
  have virt: "unat (allocated_virtual_bytes ?st + ?n) = sum_of_map block_bytes ?m + unat ?n"
    using fits room alloc_inv_virtual [OF inv] by (subst unat_add_small) (auto simp: fits_def)
  have dev: "unat (allocated_device_bytes ?st + ?n) = sum_of_map device_bytes ?m + unat ?n"
    using fits room alloc_inv_device [OF inv] device_sum_le [OF fin]
    by (subst unat_add_small) (auto simp: fits_def)
  have s: "sum_of_map g (?m(next_addr ?st \<mapsto> b)) = g b + sum_of_map g ?m"
    if "\<And>b. g b \<le> block_bytes b" for g b
    using sum_of_map_insert [OF fin] sum_of_map_at_top [OF wf that] by simp
  show ?thesis
    using top virt dev room alloc_inv_next [OF inv] alloc_inv_device [OF inv]
    by (auto simp: alloc_eq alloc_inv_def Let_def s device_bytes_le
        block_bytes_def device_bytes_def intro!: blocks_wf_extend [OF wf])
qed

lemma block_bytes_le_sum:
  assumes "finite (dom m)" and "m k = Some b"
  shows "f b \<le> sum_of_map f m"
  using sum_of_map_remove [OF assms] by simp

lemma alloc_inv_free: "alloc_inv a \<Longrightarrow> alloc_inv (snd (free k a))"
proof (cases "allocations (state a) k")
  case None
  then show "alloc_inv a \<Longrightarrow> ?thesis" by (simp add: free_None)
next
  case (Some b)
  assume inv: "alloc_inv a"
  note wf = alloc_inv_wf [OF inv] and room = alloc_inv_room [OF inv]
  note fin = blocks_wf_finite [OF wf]
  note split = sum_of_map_remove [OF fin Some, of block_bytes] sum_of_map_remove [OF fin Some, of device_bytes]
  have "unat (allocated_virtual_bytes (state a) - size_bytes b)
      = sum_of_map block_bytes ((allocations (state a))(k := None))"
    using split alloc_inv_virtual [OF inv]
    by (subst unat_sub_small) (auto simp: block_bytes_def)
  moreover have "unat (allocated_device_bytes (state a) - (if domain b = LocalDevice then size_bytes b else 0))
      = sum_of_map device_bytes ((allocations (state a))(k := None))"
    using split alloc_inv_device [OF inv]
    by (subst unat_sub_small) (auto simp: device_bytes_def)
  ultimately show ?thesis
    using split room alloc_inv_next [OF inv]
    by (simp add: free_Some [OF Some] alloc_inv_def Let_def blocks_wf_remove [OF wf])
qed

lemma alloc_inv_migrate: "alloc_inv a \<Longrightarrow> alloc_inv (snd (migrate k d a))"
proof (cases "allocations (state a) k")
  case None
  then show "alloc_inv a \<Longrightarrow> ?thesis" by (simp add: migrate_None)
next
  case (Some b)
  assume inv: "alloc_inv a"
  let ?m = "allocations (state a)" and ?c = "b\<lparr>domain := d\<rparr>"
  let ?out = "if domain b = LocalDevice then size_bytes b else 0"
  let ?in = "if d = LocalDevice then size_bytes b else 0"
  note wf = alloc_inv_wf [OF inv] and room = alloc_inv_room [OF inv]
  note fin = blocks_wf_finite [OF wf]
  note split = sum_of_map_remove [OF fin Some, of block_bytes] sum_of_map_remove [OF fin Some, of device_bytes]
    sum_of_map_insert [OF fin, of block_bytes k ?c] sum_of_map_insert [OF fin, of device_bytes k ?c]
  have virt: "sum_of_map block_bytes (?m(k \<mapsto> ?c)) = sum_of_map block_bytes ?m"
    using split by (simp add: block_bytes_def)
  have out: "unat (allocated_device_bytes (state a) - ?out) = sum_of_map device_bytes (?m(k := None))"
    using split alloc_inv_device [OF inv] by (subst unat_sub_small) (auto simp: device_bytes_def)
  have "device_bytes ?c + sum_of_map device_bytes (?m(k := None)) \<le> sum_of_map block_bytes ?m"
    using device_sum_le [of "?m(k \<mapsto> ?c)"] fin split virt by simp
  then have "unat (allocated_device_bytes (state a) - ?out + ?in) = sum_of_map device_bytes (?m(k \<mapsto> ?c))"
    using split out le_less_trans [OF room u64_bound]
    by (subst unat_add_small) (auto simp: device_bytes_def)
  then show ?thesis
    using room virt alloc_inv_virtual [OF inv] alloc_inv_next [OF inv]
      blocks_wf_update [OF wf Some, of ?c]
    by (simp add: migrate_Some [OF Some] alloc_inv_def Let_def)
qed

section \<open>Reachable states\<close>

text \<open>
  Any client may call the operations in any order; the mutex serialises them. Requests for which
  the 64-bit address counter would wrap are excluded by \<^const>\<open>fits\<close>.
\<close>

inductive duvas_step :: "duvas_allocator \<Rightarrow> duvas_allocator \<Rightarrow> bool" where
  step_alloc: "fits n a \<Longrightarrow> duvas_step a (snd (alloc n f a))"
| step_free: "duvas_step a (snd (free k a))"
| step_migrate: "duvas_step a (snd (migrate k d a))"

inductive duvas_reach :: "usize \<Rightarrow> duvas_allocator \<Rightarrow> bool" for c where
  reach_new: "duvas_reach c (duvas_new c)"
| reach_step: "duvas_reach c a \<Longrightarrow> duvas_step a b \<Longrightarrow> duvas_reach c b"

lemmas duvas_reach_intros = reach_new reach_step step_alloc step_free step_migrate

lemma duvas_step_inv: "duvas_step a b \<Longrightarrow> alloc_inv a \<Longrightarrow> alloc_inv b"
  by (induction rule: duvas_step.induct)
    (auto intro: alloc_inv_alloc alloc_inv_free alloc_inv_migrate)

lemma duvas_step_capacity: "duvas_step a b \<Longrightarrow> device_capacity_bytes b = device_capacity_bytes a"
  by (induction rule: duvas_step.induct) (simp_all add: frame_simps)

lemma reach_inv: "duvas_reach c a \<Longrightarrow> alloc_inv a"
  by (induction rule: duvas_reach.induct) (auto intro: duvas_step_inv)

section \<open>The abstract ledger\<close>

text \<open>
  What the allocator promises, over natural numbers and without counters: a finite set of live
  regions with their sizes and residence, a frontier from which the next address is taken, and
  the device capacity.
\<close>

record ledger =
  entries :: "nat \<rightharpoonup> nat \<times> memory_domain \<times> bool"
  frontier :: nat
  capacity :: nat

definition total_bytes :: "ledger \<Rightarrow> nat" where
  "total_bytes L = sum_of_map (\<lambda>(n, d, s). n) (entries L)"

definition resident_bytes :: "ledger \<Rightarrow> nat" where
  "resident_bytes L = sum_of_map (\<lambda>(n, d, s). if d = LocalDevice then n else 0) (entries L)"

definition ledger_alloc :: "nat \<Rightarrow> bool \<Rightarrow> ledger \<Rightarrow> ledger" where
  "ledger_alloc n s L =
     (let sz = (n + 4095) div 4096 * 4096;
          d = (if resident_bytes L + sz \<le> capacity L then LocalDevice else Host)
      in L\<lparr>entries := (entries L)(frontier L \<mapsto> (sz, d, s)), frontier := frontier L + sz\<rparr>)"

definition ledger_free :: "nat \<Rightarrow> ledger \<Rightarrow> ledger option" where
  "ledger_free k L =
     (if k \<in> dom (entries L) then Some (L\<lparr>entries := (entries L)(k := None)\<rparr>) else None)"

definition ledger_migrate :: "nat \<Rightarrow> memory_domain \<Rightarrow> ledger \<Rightarrow> ledger option" where
  "ledger_migrate k d L =
     (case entries L k of
        Some (n, _, s) \<Rightarrow> Some (L\<lparr>entries := (entries L)(k \<mapsto> (n, d, s))\<rparr>)
      | None \<Rightarrow> None)"

definition entry_of :: "memory_block \<Rightarrow> nat \<times> memory_domain \<times> bool" where
  "entry_of b = (unat (size_bytes b), domain b, is_static b)"

definition entries_of :: "(u64 \<rightharpoonup> memory_block) \<Rightarrow> nat \<rightharpoonup> nat \<times> memory_domain \<times> bool" where
  "entries_of m k = (if k < 2 ^ 64 then map_option entry_of (m (word_of_nat k)) else None)"

definition ledger_of :: "duvas_allocator \<Rightarrow> ledger" where
  "ledger_of a = \<lparr>entries = entries_of (allocations (state a)),
                   frontier = unat (next_addr (state a)),
                   capacity = unat (device_capacity_bytes a)\<rparr>"

lemma entries_of_unat [simp]: "entries_of m (unat k) = map_option entry_of (m k)"
  by (simp add: entries_of_def)

lemma unat_word_of_nat_u64: "k < 2 ^ 64 \<Longrightarrow> unat (word_of_nat k :: u64) = k"
  by (simp add: unat_of_nat)

lemma entries_of_upd: "entries_of (m(k \<mapsto> b)) = (entries_of m)(unat k \<mapsto> entry_of b)"
  by (rule ext) (auto simp: entries_of_def unat_word_of_nat_u64)

lemma entries_of_del: "entries_of (m(k := None)) = (entries_of m)(unat k := None)"
  by (rule ext) (auto simp: entries_of_def unat_word_of_nat_u64)

lemma dom_entries_of: "dom (entries_of m) = unat ` dom m"
proof (intro set_eqI iffI)
  fix k assume "k \<in> dom (entries_of m)"
  then have "k < 2 ^ 64" and "word_of_nat k \<in> dom m"
    by (auto simp: entries_of_def split: if_splits)
  then show "k \<in> unat ` dom m"
    by (metis image_eqI unat_word_of_nat_u64)
next
  fix k assume "k \<in> unat ` dom m"
  then show "k \<in> dom (entries_of m)" by auto
qed

lemma sum_of_entries_of: "sum_of_map f (entries_of m) = sum_of_map (f \<circ> entry_of) m"
  unfolding sum_of_map_def dom_entries_of
  by (subst sum.reindex) (auto simp: inj_on_def intro!: sum.cong dest: word_unat_eq_iff [THEN iffD2])

lemma resident_ledger_of: "alloc_inv a \<Longrightarrow> resident_bytes (ledger_of a) = unat (allocated_device_bytes (state a))"
  by (simp add: resident_bytes_def ledger_of_def sum_of_entries_of alloc_inv_device
      comp_def entry_of_def device_bytes_def [abs_def])

lemma total_ledger_of: "alloc_inv a \<Longrightarrow> total_bytes (ledger_of a) = unat (allocated_virtual_bytes (state a))"
  by (simp add: total_bytes_def ledger_of_def sum_of_entries_of alloc_inv_virtual
      comp_def entry_of_def block_bytes_def [abs_def])

text \<open>Under the invariant the placement test of the code does not wrap.\<close>

lemma placement_nat:
  assumes "alloc_inv a" and "fits n a"
  shows "placement n a = LocalDevice \<longleftrightarrow>
    unat (allocated_device_bytes (state a)) + unat (align_page n) \<le> unat (device_capacity_bytes a)"
proof -
  have "unat (allocated_device_bytes (state a)) + unat (align_page n) < 2 ^ 64"
    using assms alloc_inv_device [OF assms(1)] alloc_inv_room [OF assms(1)]
      device_sum_le [OF blocks_wf_finite [OF alloc_inv_wf [OF assms(1)]]]
    by (simp add: fits_def)
  then show ?thesis by (simp add: placement_def word_le_nat_alt unat_add_small)
qed

lemma placement_cases: "placement n a = LocalDevice \<or> placement n a = Host"
  by (simp add: placement_def)

lemma abs_alloc:
  assumes "alloc_inv a" and "fits n a"
  shows "ledger_of (snd (alloc n f a)) = ledger_alloc (unat n) f (ledger_of a)"
proof -
  have "unat (next_addr (state a) + align_page n) = unat (next_addr (state a)) + unat (align_page n)"
    using assms by (simp add: fits_def unat_add_small)
  moreover have "placement n a = (if resident_bytes (ledger_of a) + unat (align_page n)
      \<le> unat (device_capacity_bytes a) then LocalDevice else Host)"
    using placement_nat [OF assms] placement_cases [of n a] resident_ledger_of [OF assms(1)] by auto
  ultimately show ?thesis
    using assms unat_align_page [of n]
    by (simp add: ledger_alloc_def Let_def alloc_eq ledger_of_def entries_of_upd entry_of_def fits_def)
qed

lemma abs_free:
  "(case free k a of (Inr u, a') \<Rightarrow> Some (ledger_of a') | (Inl e, a') \<Rightarrow> None)
     = ledger_free (unat k) (ledger_of a)"
proof (cases "allocations (state a) k")
  case None
  then show ?thesis by (auto simp: free_None ledger_free_def ledger_of_def)
next
  case (Some b)
  then show ?thesis
    by (auto simp: free_Some ledger_free_def ledger_of_def entries_of_del)
qed

lemma abs_migrate:
  "(case migrate k d a of (Inr u, a') \<Rightarrow> Some (ledger_of a') | (Inl e, a') \<Rightarrow> None)
     = ledger_migrate (unat k) d (ledger_of a)"
proof (cases "allocations (state a) k")
  case None
  then show ?thesis by (simp add: migrate_None ledger_migrate_def ledger_of_def)
next
  case (Some b)
  then show ?thesis
    by (simp add: migrate_Some ledger_migrate_def ledger_of_def entries_of_upd entry_of_def)
qed

section \<open>The interface the pager uses\<close>

text \<open>
  The pager calls \<open>get_domain\<close> and \<open>migrate\<close> only. What it relies on: a migration of a live
  address succeeds and changes the residence of that address and of no other; a migration of
  another address fails and changes nothing; the provider's invariant is kept.
\<close>

locale residency =
  fixes dom_of :: "'s \<Rightarrow> u64 \<Rightarrow> memory_domain option"
    and move :: "u64 \<Rightarrow> memory_domain \<Rightarrow> 's \<Rightarrow> ('e + unit) \<times> 's"
    and inv :: "'s \<Rightarrow> bool"
  assumes move_live: "dom_of s k \<noteq> None \<Longrightarrow> fst (move k d s) = Inr ()"
    and move_dead: "dom_of s k = None \<Longrightarrow> isl (fst (move k d s)) \<and> snd (move k d s) = s"
    and dom_of_move:
      "dom_of (snd (move k d s)) j = (if j = k \<and> dom_of s k \<noteq> None then Some d else dom_of s j)"
    and inv_move: "inv s \<Longrightarrow> inv (snd (move k d s))"

lemma get_domain_migrate:
  "get_domain (snd (migrate k d a)) j =
     (if j = k \<and> get_domain a k \<noteq> None then Some d else get_domain a j)"
  by (cases "allocations (state a) k") (auto simp: migrate_Some migrate_None get_domain_def)

interpretation duvas: residency get_domain migrate alloc_inv
proof
  show "fst (migrate k d s) = Inr ()" if "get_domain s k \<noteq> None" for s k d
    using that by (auto simp: get_domain_def migrate_Some)
  show "isl (fst (migrate k d s)) \<and> snd (migrate k d s) = s" if "get_domain s k = None" for s k d
    using that by (auto simp: get_domain_def migrate_None)
  show "get_domain (snd (migrate k d s)) j =
      (if j = k \<and> get_domain s k \<noteq> None then Some d else get_domain s j)" for s k d j
    by (rule get_domain_migrate)
  show "alloc_inv (snd (migrate k d s))" if "alloc_inv s" for s k d
    using that by (rule alloc_inv_migrate)
qed

section \<open>Properties\<close>

text \<open>C1: In every state that clients can reach with allocations that fit, frees and migrations in
  any order, the invariant holds: the two byte counters are exactly the sums over the live blocks
  and every live block is page aligned and lies inside the issued address range.\<close>

theorem allocator_invariant: "duvas_reach c a \<Longrightarrow> alloc_inv a"
  by (rule reach_inv)

definition demo_alloc :: duvas_allocator where
  "demo_alloc = snd (alloc 61440 False (snd (alloc 61440 False (duvas_new 102400))))"

lemma fits_new: "unat n + 4095 < 2 ^ 63 \<Longrightarrow> fits n (duvas_new c)"
  using align_page_less [of n] by (simp add: fits_def duvas_new_def)

lemma demo_alloc_reach: "duvas_reach 102400 demo_alloc"
proof -
  let ?a = "snd (alloc 61440 False (duvas_new 102400))"
  have "duvas_reach 102400 ?a"
    by (rule reach_step [OF reach_new step_alloc [OF fits_new]]) simp
  moreover have "fits 61440 ?a"
    by (simp add: fits_def alloc_eq duvas_new_def align_page_def placement_def)
  ultimately show ?thesis
    unfolding demo_alloc_def by (rule reach_step [OF _ step_alloc])
qed

theorem allocator_invariant_witness: "alloc_inv demo_alloc"
  by (rule allocator_invariant [OF demo_alloc_reach])

text \<open>C32: In every state that clients can reach with allocations that fit into the address space, frees and
  migrations, two live blocks never overlap. Larger allocations can make them overlap
  (\<open>huge_alloc_overwrites\<close>).\<close>

theorem live_blocks_disjoint:
  assumes "duvas_reach c a"
    and "allocations (state a) j = Some b" and "allocations (state a) k = Some d" and "j \<noteq> k"
  shows "{unat j ..< unat j + unat (size_bytes b)} \<inter> {unat k ..< unat k + unat (size_bytes d)} = {}"
proof -
  note wf = alloc_inv_wf [OF reach_inv [OF assms(1)]]
  from assms(4) consider "unat j < unat k" | "unat k < unat j"
    by (meson linorder_neqE_nat word_unat_eq_iff)
  then show ?thesis
  proof cases
    case 1
    then show ?thesis using blocks_wf_disj [OF wf assms(2,3)] by auto
  next
    case 2
    then show ?thesis using blocks_wf_disj [OF wf assms(3,2)] by auto
  qed
qed

lemma demo_alloc_blocks:
  "allocations (state demo_alloc) 0x1000000000 =
     Some \<lparr>virtual_addr = 0x1000000000, size_bytes = 61440, domain = LocalDevice, is_static = False\<rparr>"
  "allocations (state demo_alloc) 0x100000F000 =
     Some \<lparr>virtual_addr = 0x100000F000, size_bytes = 61440, domain = Host, is_static = False\<rparr>"
  by (simp_all add: demo_alloc_def alloc_eq duvas_new_def align_page_def placement_def)

theorem live_blocks_disjoint_witness:
  "{unat (0x1000000000::u64) ..< unat (0x1000000000::u64) + 61440} \<inter>
   {unat (0x100000F000::u64) ..< unat (0x100000F000::u64) + 61440} = {}"
  using live_blocks_disjoint [OF demo_alloc_reach demo_alloc_blocks] by simp

text \<open>C2: The allocator refines the ledger over natural numbers: an allocation, a free and a
  migration are the ledger operations on the abstract state (an error of the code is a refused
  ledger operation), and the metrics it reports are the ledger's sums.\<close>

theorem allocator_refines_ledger:
  assumes "alloc_inv a" and "fits n a"
  shows "ledger_of (snd (alloc n f a)) = ledger_alloc (unat n) f (ledger_of a) \<and>
         (case free k a of (Inr u, a') \<Rightarrow> Some (ledger_of a') | (Inl e, a') \<Rightarrow> None)
           = ledger_free (unat k) (ledger_of a) \<and>
         (case migrate k d a of (Inr u, a') \<Rightarrow> Some (ledger_of a') | (Inl e, a') \<Rightarrow> None)
           = ledger_migrate (unat k) d (ledger_of a) \<and>
         map_prod unat (map_prod unat unat) (get_metrics a)
           = (resident_bytes (ledger_of a), capacity (ledger_of a), total_bytes (ledger_of a))"
  using assms
  by (simp add: abs_alloc abs_free abs_migrate get_metrics_def resident_ledger_of
      total_ledger_of) (simp add: ledger_of_def)

theorem allocator_refines_ledger_witness:
  "ledger_of (snd (alloc 100 True (duvas_new 8192)))
     = ledger_alloc 100 True (ledger_of (duvas_new 8192))"
  using allocator_refines_ledger [OF alloc_inv_new fits_new, of 100 True 8192] by simp

text \<open>C31: An allocation that fits into the address space, so that neither the rounding of its size nor the address
  counter wraps around, does not overcommit the device: it places the block on the device exactly when the
  block still fits in the capacity, and keeps the resident bytes within the capacity. Without that condition
  it can (\<open>huge_alloc_overcommits\<close>).\<close>

theorem alloc_respects_capacity:
  assumes "alloc_inv a" and "fits n a"
    and "unat (allocated_device_bytes (state a)) \<le> unat (device_capacity_bytes a)"
  shows "unat (allocated_device_bytes (state (snd (alloc n f a)))) \<le> unat (device_capacity_bytes a)
    \<and> get_domain (snd (alloc n f a)) (next_addr (state a)) =
        Some (if unat (allocated_device_bytes (state a)) + unat (align_page n)
                \<le> unat (device_capacity_bytes a) then LocalDevice else Host)"
proof -
  have "unat (allocated_device_bytes (state (snd (alloc n f a)))) =
      unat (allocated_device_bytes (state a)) +
      (if placement n a = LocalDevice then unat (align_page n) else 0)"
    using resident_ledger_of [OF alloc_inv_alloc [OF assms(1,2)], of f] assms(1)
      alloc_inv_device [OF alloc_inv_alloc [OF assms(1,2)], of f]
      placement_nat [OF assms(1,2)]
    by (auto simp: alloc_eq unat_add_small
        order_le_less_trans [OF _ u64_bound [of "device_capacity_bytes a"]])
  then show ?thesis
    using assms(3) placement_nat [OF assms(1,2)] placement_cases [of n a]
    by (auto simp: alloc_eq get_domain_def)
qed

theorem alloc_respects_capacity_witness:
  "unat (allocated_device_bytes (state (snd (alloc 5000 False (duvas_new 8192))))) \<le> 8192"
  using alloc_respects_capacity [OF alloc_inv_new fits_new, of 5000 8192 False]
  by (simp add: duvas_new_def)

text \<open>Freeing the address that an allocation returned gives back the block map and both byte
  counters as they were; only the address counter has advanced. The address must not already be
  taken, which an earlier empty allocation can cause.\<close>

theorem alloc_free_roundtrip:
  assumes "allocations (state a) (next_addr (state a)) = None"
  shows "free (next_addr (state a)) (snd (alloc n f a)) =
    (Inr (), a\<lparr>state := (state a)\<lparr>next_addr := next_addr (state a) + align_page n\<rparr>\<rparr>)"
  using assms by (simp add: alloc_eq free_Some fun_upd_idem)

theorem alloc_free_roundtrip_witness:
  "free 0x1000000000 (snd (alloc 5000 False (duvas_new 8192))) =
    (Inr (), (duvas_new 8192)\<lparr>state := (state (duvas_new 8192))\<lparr>next_addr := 0x1000002000\<rparr>\<rparr>)"
  using alloc_free_roundtrip [of "duvas_new 8192" 5000 False]
  by (simp add: duvas_new_def align_page_def)

text \<open>Errors of the allocator: freeing or migrating an address is an error exactly when no live
  block starts there, the error names the address, and a failed call changes nothing.\<close>

theorem allocator_errors:
  "(isl (fst (free k a)) \<longleftrightarrow> get_domain a k = None) \<and>
   (isl (fst (migrate k d a)) \<longleftrightarrow> get_domain a k = None) \<and>
   (get_domain a k = None \<longrightarrow>
      free k a = (Inl (InvalidFree k), a) \<and> migrate k d a = (Inl (CannotMigrate k), a)) \<and>
   (get_domain a k \<noteq> None \<longrightarrow>
      get_domain (snd (free k a)) k = None \<and> get_domain (snd (migrate k d a)) k = Some d)"
  by (cases "allocations (state a) k")
    (simp_all add: get_domain_def free_Some free_None migrate_Some migrate_None)

theorem allocator_errors_witness:
  "free 5 (duvas_new 0) = (Inl (InvalidFree 5), duvas_new 0)"
  using allocator_errors [of 5 "duvas_new 0" Swap] by (simp add: get_domain_def duvas_new_def)

text \<open>A request of zero bytes reserves no address space: the next allocation returns the same
  address and overwrites the block of the first one, so two callers hold one address.\<close>

theorem zero_byte_alloc_aliases:
  "fst (alloc n g (snd (alloc 0 f a))) = fst (alloc 0 f a) \<and>
   allocations (state (snd (alloc n g (snd (alloc 0 f a))))) (next_addr (state a)) =
     Some \<lparr>virtual_addr = next_addr (state a), size_bytes = align_page n,
           domain = placement n (snd (alloc 0 f a)), is_static = g\<rparr>"
  by (simp add: alloc_eq align_page_def)

text \<open>Migration to the device checks no capacity: a reachable state has more resident bytes
  than the device holds.\<close>

theorem migrate_overcommits:
  "duvas_reach 102400 (snd (migrate 0x100000F000 LocalDevice demo_alloc)) \<and>
   unat (allocated_device_bytes (state (snd (migrate 0x100000F000 LocalDevice demo_alloc)))) = 122880"
proof
  show "duvas_reach 102400 (snd (migrate 0x100000F000 LocalDevice demo_alloc))"
    by (rule reach_step [OF demo_alloc_reach step_migrate])
  show "unat (allocated_device_bytes
      (state (snd (migrate 0x100000F000 LocalDevice demo_alloc)))) = 122880"
    by (simp add: demo_alloc_def alloc_eq duvas_new_def align_page_def placement_def migrate_Some)
qed

text \<open>Sizes are not checked: the largest ones round up to nothing, and after two blocks of \<open>2^63\<close> bytes the
  next block gets the address of the first one and takes its place in the table.\<close>

lemma huge_alloc_wraps:
  "fst (alloc (2 ^ 64 - 1) f a) = Inr (next_addr (state a)) \<and>
   next_addr (state (snd (alloc (2 ^ 64 - 1) f a))) = next_addr (state a)"
proof -
  have "align_page (2 ^ 64 - 1) = 0" by code_simp
  then show ?thesis by (simp add: alloc_eq)
qed

text \<open>The test of the capacity adds before it compares: on a device of two pages, both of them resident, a block of
  all of the address space but one page is placed there too, since the sum wraps around to one page.\<close>

lemma huge_alloc_overcommits:
  "let a = snd (alloc 8192 False (duvas_new 8192)) in
     alloc_inv a \<and> \<not> fits (2 ^ 64 - 4096) a \<and>
     get_domain (snd (alloc (2 ^ 64 - 4096) False a)) (next_addr (state a)) = Some LocalDevice \<and>
     map_option (unat \<circ> size_bytes) (allocations (state (snd (alloc (2 ^ 64 - 4096) False a))) (next_addr (state a))) =
       Some (2 ^ 64 - 4096)"
proof -
  have "alloc_inv (snd (alloc 8192 False (duvas_new 8192)))"
    by (rule reach_inv [OF reach_step [OF reach_new step_alloc [OF fits_new]]]) simp
  moreover have "align_page (2 ^ 64 - 4096) = - 4096" "align_page 8192 = 8192" by code_simp+
  ultimately show ?thesis
    by (simp add: Let_def alloc_eq placement_def get_domain_def duvas_new_def fits_def)
qed

lemma huge_alloc_overwrites:
  assumes "a1 = snd (alloc (2 ^ 63) f a)" and "a2 = snd (alloc (2 ^ 63) f a1)"
  shows "fst (alloc n f a2) = fst (alloc (2 ^ 63) f a) \<and>
    map_option size_bytes (allocations (state (snd (alloc n f a2))) (next_addr (state a))) = Some (align_page n)"
proof -
  have p: "align_page (2 ^ 63) = 2 ^ 63" by code_simp
  have "next_addr (state a2) = next_addr (state a) + align_page (2 ^ 63) + align_page (2 ^ 63)"
    by (simp add: assms alloc_eq)
  also have "\<dots> = next_addr (state a)" unfolding p by (simp add: add.assoc)
  finally show ?thesis by (simp add: alloc_eq)
qed

end
