(* ===== verification/Domain_Bytes.thy ===== *)
theory Domain_Bytes
  imports Allocator
begin

text \<open>
  Where the bytes of the allocator are. The allocator of \<open>omni-core/src/memory/allocator.rs\<close> counts
  the bytes of one domain only, those on the device; here the live bytes are split over all four
  domains, and the operations are described by what they move between them. The domains are an
  instance of the enumeration class, so that sums over all of them are computed.
\<close>

instantiation memory_domain :: enum
begin

definition enum_memory_domain :: "memory_domain list" where
  "enum_memory_domain = [Host, LocalDevice, RemotePeer, Swap]"

definition enum_all_memory_domain :: "(memory_domain \<Rightarrow> bool) \<Rightarrow> bool" where
  "enum_all_memory_domain P \<longleftrightarrow> P Host \<and> P LocalDevice \<and> P RemotePeer \<and> P Swap"

definition enum_ex_memory_domain :: "(memory_domain \<Rightarrow> bool) \<Rightarrow> bool" where
  "enum_ex_memory_domain P \<longleftrightarrow> P Host \<or> P LocalDevice \<or> P RemotePeer \<or> P Swap"

lemma memory_domain_in_enum: "d \<in> set [Host, LocalDevice, RemotePeer, Swap]"
  by (cases d) simp_all

instance
proof
  show "(UNIV :: memory_domain set) = set enum_class.enum"
    using memory_domain_in_enum by (auto simp: enum_memory_domain_def)
  show "distinct (enum_class.enum :: memory_domain list)" by (simp add: enum_memory_domain_def)
  fix P :: "memory_domain \<Rightarrow> bool"
  show "enum_class.enum_all P \<longleftrightarrow> Ball UNIV P" "enum_class.enum_ex P \<longleftrightarrow> Bex UNIV P"
    unfolding enum_all_memory_domain_def enum_ex_memory_domain_def by (metis UNIV_I memory_domain.exhaust)+
qed

end

lemma sum_over_domains: "(\<Sum>d \<in> UNIV. f d) = f Host + f LocalDevice + f RemotePeer + f Swap"
  by (simp add: UNIV_enum enum_memory_domain_def add.assoc)

section \<open>Bytes of a domain\<close>

definition bytes_in :: "memory_domain \<Rightarrow> memory_block \<Rightarrow> nat" where
  "bytes_in d b = (if domain b = d then unat (size_bytes b) else 0)"

definition domain_bytes :: "memory_domain \<Rightarrow> duvas_allocator \<Rightarrow> nat" where
  "domain_bytes d a = sum_of_map (bytes_in d) (allocations (state a))"

lemma bytes_in_device: "bytes_in LocalDevice = device_bytes"
  by (rule ext) (simp add: bytes_in_def device_bytes_def)

lemma domain_bytes_device:
  "alloc_inv a \<Longrightarrow> domain_bytes LocalDevice a = unat (allocated_device_bytes (state a))"
  by (simp add: domain_bytes_def bytes_in_device alloc_inv_device)

lemma domain_bytes_total:
  assumes "alloc_inv a"
  shows "(\<Sum>d \<in> UNIV. domain_bytes d a) = unat (allocated_virtual_bytes (state a))"
proof -
  have "(\<Sum>d \<in> UNIV. bytes_in d b) = block_bytes b" for b
    unfolding sum_over_domains by (cases "domain b") (simp_all add: bytes_in_def block_bytes_def)
  then have "(\<Sum>d \<in> UNIV. domain_bytes d a) = sum_of_map block_bytes (allocations (state a))"
    unfolding domain_bytes_def sum_of_map_def by (subst sum.swap) simp
  then show ?thesis using alloc_inv_virtual [OF assms] by simp
qed

lemma domain_bytes_split:
  assumes "alloc_inv a" and "allocations (state a) k = Some b"
  shows "domain_bytes d a = bytes_in d b + sum_of_map (bytes_in d) ((allocations (state a))(k := None))"
  unfolding domain_bytes_def
  using sum_of_map_remove [OF blocks_wf_finite [OF alloc_inv_wf [OF assms(1)]] assms(2)] .

lemma migrate_bytes:
  assumes inv: "alloc_inv a" and b: "allocations (state a) k = Some b"
  shows "domain_bytes d (snd (migrate k target a)) + bytes_in d b =
    domain_bytes d a + bytes_in d (b\<lparr>domain := target\<rparr>)"
proof -
  have "domain_bytes d (snd (migrate k target a)) =
      bytes_in d (b\<lparr>domain := target\<rparr>) + sum_of_map (bytes_in d) ((allocations (state a))(k := None))"
    using sum_of_map_insert [OF blocks_wf_finite [OF alloc_inv_wf [OF inv]]]
    by (simp add: domain_bytes_def migrate_Some [of a k b target] b)
  with domain_bytes_split [OF inv b, of d] show ?thesis by simp
qed

lemma free_bytes:
  assumes inv: "alloc_inv a" and b: "allocations (state a) k = Some b"
  shows "domain_bytes d (snd (free k a)) + bytes_in d b = domain_bytes d a"
  using domain_bytes_split [OF inv b, of d] b by (simp add: domain_bytes_def free_Some)

section \<open>Property\<close>

text \<open>C3: Migration moves exactly the bytes of its block: the domain it leaves loses them, the domain it
  enters gains them, no other domain changes, and no byte is lost or counted twice, since the four
  domains always add up to the live bytes and the device counter is the share of the device.\<close>

theorem migration_moves_bytes:
  assumes "alloc_inv a" and "allocations (state a) k = Some b" and "target \<noteq> domain b"
  shows "fst (migrate k target a) = Inr () \<and>
    domain_bytes (domain b) (snd (migrate k target a)) + unat (size_bytes b) = domain_bytes (domain b) a \<and>
    domain_bytes target (snd (migrate k target a)) = domain_bytes target a + unat (size_bytes b) \<and>
    (\<forall>d. d \<noteq> domain b \<longrightarrow> d \<noteq> target \<longrightarrow>
       domain_bytes d (snd (migrate k target a)) = domain_bytes d a) \<and>
    (\<Sum>d \<in> UNIV. domain_bytes d a) = unat (allocated_virtual_bytes (state a)) \<and>
    domain_bytes LocalDevice a = unat (allocated_device_bytes (state a))"
proof -
  have "fst (migrate k target a) = Inr ()" by (simp add: migrate_Some [OF assms(2)])
  moreover have "domain_bytes d (snd (migrate k target a)) = domain_bytes d a"
    if "d \<noteq> domain b" "d \<noteq> target" for d
    using migrate_bytes [OF assms(1,2), of d target] that by (simp add: bytes_in_def)
  ultimately show ?thesis
    using migrate_bytes [OF assms(1,2), of "domain b" target] migrate_bytes [OF assms(1,2), of target target]
      domain_bytes_total [OF assms(1)] domain_bytes_device [OF assms(1)] assms(3)
    by (simp add: bytes_in_def)
qed

theorem migration_moves_bytes_witness:
  "domain_bytes Swap (snd (migrate 0x1000000000 Swap (snd (alloc 5000 False (duvas_new 8192))))) = 8192"
proof -
  let ?a = "snd (alloc 5000 False (duvas_new 8192))"
  have inv: "alloc_inv ?a" by (rule alloc_inv_alloc [OF alloc_inv_new fits_new]) simp
  obtain b where b: "allocations (state ?a) 0x1000000000 = Some b" "domain b = LocalDevice" "size_bytes b = 8192"
    by (simp add: alloc_eq duvas_new_def placement_def align_page_def)
  have "domain_bytes Swap ?a = 0"
    by (simp add: domain_bytes_def alloc_eq duvas_new_def placement_def align_page_def bytes_in_def
        sum_of_map_insert_new)
  with migration_moves_bytes [OF inv b(1), of Swap] b(2,3) show ?thesis by simp
qed

end
