(* ===== verification/Ieee_Float.thy ===== *)
theory Ieee_Float
  imports Prelude
begin

text \<open>
  The floating point arithmetic of Rust: \<open>f32\<close> and \<open>f64\<close> are the IEEE 754 formats binary32 and
  binary64 with rounding to nearest, ties to even. A value is a NaN, an infinity, or a sign, a
  mantissa and an exponent standing for \<open>\<plusminus> m * 2 ^ e\<close>. The operations are computed on integers
  and rounded once, so they evaluate in the simplifier. (NaN payloads are not distinguished; no
  source reads them.) Comparisons are Rust's: every comparison with a NaN is false.
\<close>

section \<open>Formats and rounding\<close>

datatype float = NaN | Infinity bool | Finite bool nat int

type_synonym f32 = float
type_synonym f64 = float

record format =
  precision :: nat
  min_exp :: int
  max_exp :: int

definition binary32 :: format where
  "binary32 = \<lparr>precision = 24, min_exp = - 149, max_exp = 104\<rparr>"

definition binary64 :: format where
  "binary64 = \<lparr>precision = 53, min_exp = - 1074, max_exp = 971\<rparr>"

text \<open>The number of binary digits of a mantissa.\<close>

fun bit_width :: "nat \<Rightarrow> nat" where
  "bit_width n = (if n = 0 then 0 else Suc (bit_width (n div 2)))"

declare bit_width.simps [simp del]

named_theorems float_eval \<open>evaluation of floating point operations on explicit values\<close>

lemma bit_width_0 [float_eval]: "bit_width 0 = 0"
  by (simp add: bit_width.simps)

lemma bit_width_1 [float_eval]: "bit_width (Suc 0) = 1"
  by (simp add: bit_width.simps [of "Suc 0"] bit_width.simps [of 0])

lemma bit_width_numeral [float_eval]:
  "bit_width (numeral num.One) = 1"
  "bit_width (numeral (num.Bit0 k)) = Suc (bit_width (numeral k))"
  "bit_width (numeral (num.Bit1 k)) = Suc (bit_width (numeral k))"
proof -
  show "bit_width (numeral num.One) = 1" by (simp add: bit_width_1 [simplified])
qed (subst bit_width.simps, simp)+

text \<open>Drop the \<open>d\<close> low digits of a mantissa, to nearest, ties to even.\<close>

definition round_off :: "nat \<Rightarrow> nat \<Rightarrow> nat" where
  "round_off d m =
     (if d = 0 then m
      else let q = m div 2 ^ d; r = m mod 2 ^ d; half = 2 ^ (d - 1)
           in if half < r \<or> (r = half \<and> odd q) then q + 1 else q)"

text \<open>The value of a format nearest to \<open>\<plusminus> m * 2 ^ e\<close>.\<close>

definition round_to :: "format \<Rightarrow> bool \<Rightarrow> nat \<Rightarrow> int \<Rightarrow> float" where
  "round_to F s m e =
     (if m = 0 then Finite s 0 0
      else let t = max (e + int (bit_width m) - int (precision F)) (min_exp F);
               m1 = (if t \<le> e then m * 2 ^ nat (e - t) else round_off (nat (t - e)) m);
               (m2, t2) = (if m1 = 2 ^ precision F then (m1 div 2, t + 1) else (m1, t))
           in if max_exp F < t2 then Infinity s
              else if m2 = 0 then Finite s 0 0 else Finite s m2 t2)"

section \<open>Arithmetic\<close>

fun fneg :: "float \<Rightarrow> float" where
  "fneg NaN = NaN"
| "fneg (Infinity s) = Infinity (\<not> s)"
| "fneg (Finite s m e) = Finite (\<not> s) m e"

fun fabs :: "float \<Rightarrow> float" where
  "fabs NaN = NaN"
| "fabs (Infinity s) = Infinity False"
| "fabs (Finite s m e) = Finite False m e"

text \<open>The signed mantissa of a finite value at an exponent not above its own.\<close>

definition scaled :: "bool \<Rightarrow> nat \<Rightarrow> int \<Rightarrow> int \<Rightarrow> int" where
  "scaled s m e t = (if s then - 1 else 1) * int m * 2 ^ nat (e - t)"

fun fadd :: "format \<Rightarrow> float \<Rightarrow> float \<Rightarrow> float" where
  "fadd F NaN y = NaN"
| "fadd F x NaN = NaN"
| "fadd F (Infinity s) (Infinity t) = (if s = t then Infinity s else NaN)"
| "fadd F (Infinity s) (Finite t m e) = Infinity s"
| "fadd F (Finite s m e) (Infinity t) = Infinity t"
| "fadd F (Finite s1 m1 e1) (Finite s2 m2 e2) =
     (let t = min e1 e2; i = scaled s1 m1 e1 t + scaled s2 m2 e2 t
      in if i = 0 then Finite (s1 \<and> s2) 0 0 else round_to F (i < 0) (nat \<bar>i\<bar>) t)"

definition fsub :: "format \<Rightarrow> float \<Rightarrow> float \<Rightarrow> float" where
  "fsub F x y = fadd F x (fneg y)"

fun fmul :: "format \<Rightarrow> float \<Rightarrow> float \<Rightarrow> float" where
  "fmul F NaN y = NaN"
| "fmul F x NaN = NaN"
| "fmul F (Infinity s) (Infinity t) = Infinity (s \<noteq> t)"
| "fmul F (Infinity s) (Finite t m e) = (if m = 0 then NaN else Infinity (s \<noteq> t))"
| "fmul F (Finite s m e) (Infinity t) = (if m = 0 then NaN else Infinity (s \<noteq> t))"
| "fmul F (Finite s1 m1 e1) (Finite s2 m2 e2) = round_to F (s1 \<noteq> s2) (m1 * m2) (e1 + e2)"

text \<open>
  A quotient of mantissas is computed with more digits than the format keeps, and a nonzero
  remainder is recorded in one more digit, so that the final rounding is that of the exact
  quotient.
\<close>

definition round_ratio :: "format \<Rightarrow> bool \<Rightarrow> nat \<Rightarrow> nat \<Rightarrow> int \<Rightarrow> float" where
  "round_ratio F s n d e =
     (let k = precision F + 2 + bit_width d; q = n * 2 ^ k div d; r = n * 2 ^ k mod d
      in round_to F s (2 * q + (if r = 0 then 0 else 1)) (e - int k - 1))"

fun fdiv :: "format \<Rightarrow> float \<Rightarrow> float \<Rightarrow> float" where
  "fdiv F NaN y = NaN"
| "fdiv F x NaN = NaN"
| "fdiv F (Infinity s) (Infinity t) = NaN"
| "fdiv F (Infinity s) (Finite t m e) = Infinity (s \<noteq> t)"
| "fdiv F (Finite s m e) (Infinity t) = Finite (s \<noteq> t) 0 0"
| "fdiv F (Finite s1 m1 e1) (Finite s2 m2 e2) =
     (if m2 = 0 then (if m1 = 0 then NaN else Infinity (s1 \<noteq> s2))
      else round_ratio F (s1 \<noteq> s2) m1 m2 (e1 - e2))"

section \<open>Comparison\<close>

fun flt :: "float \<Rightarrow> float \<Rightarrow> bool" where
  "flt NaN y = False"
| "flt x NaN = False"
| "flt (Infinity s) (Infinity t) = (s \<and> \<not> t)"
| "flt (Infinity s) (Finite t m e) = s"
| "flt (Finite s m e) (Infinity t) = (\<not> t)"
| "flt (Finite s1 m1 e1) (Finite s2 m2 e2) =
     (let t = min e1 e2 in scaled s1 m1 e1 t < scaled s2 m2 e2 t)"

fun feq :: "float \<Rightarrow> float \<Rightarrow> bool" where
  "feq (Infinity s) (Infinity t) = (s = t)"
| "feq (Finite s1 m1 e1) (Finite s2 m2 e2) =
     (let t = min e1 e2 in scaled s1 m1 e1 t = scaled s2 m2 e2 t)"
| "feq x y = False"

definition fle :: "float \<Rightarrow> float \<Rightarrow> bool" where
  "fle x y = (flt x y \<or> feq x y)"

section \<open>Conversions and literals\<close>

text \<open>\<open>n as f32\<close>, \<open>n as f64\<close> for an unsigned integer, and \<open>x as f32\<close> for an \<open>f64\<close>.\<close>

definition of_unsigned :: "format \<Rightarrow> nat \<Rightarrow> float" where
  "of_unsigned F n = round_to F False n 0"

fun narrow :: "format \<Rightarrow> float \<Rightarrow> float" where
  "narrow F NaN = NaN"
| "narrow F (Infinity s) = Infinity s"
| "narrow F (Finite s m e) = round_to F s m e"

text \<open>A decimal literal \<open>n / d\<close>, correctly rounded.\<close>

definition literal :: "format \<Rightarrow> nat \<Rightarrow> nat \<Rightarrow> float" where
  "literal F n d = round_ratio F False n d 0"

lemmas [float_eval] =
  literal_def round_ratio_def binary32_def binary64_def round_to_def round_off_def scaled_def
  of_unsigned_def fsub_def fle_def Let_def

definition is_nan :: "float \<Rightarrow> bool" where
  "is_nan x = (x = NaN)"

section \<open>Laws\<close>

lemma fadd_commute: "fadd F x y = fadd F y x"
  by (cases x; cases y) (auto simp: min.commute add.commute Let_def conj_commute)

lemma fmul_commute: "fmul F x y = fmul F y x"
proof -
  have "(s = (\<not> t)) = (t = (\<not> s))" for s t by blast
  then show ?thesis by (cases x; cases y) (simp_all add: mult.commute add.commute)
qed

lemma fadd_NaN [simp]: "fadd F x NaN = NaN"
  by (cases x) auto

lemma fmul_NaN [simp]: "fmul F x NaN = NaN"
  by (cases x) auto

text \<open>Scaling to a smaller exponent multiplies by a positive power of two, so comparisons do not
  depend on the common exponent.\<close>

lemma scaled_shift:
  assumes "u \<le> t" and "t \<le> e"
  shows "scaled s m e u = scaled s m e t * 2 ^ nat (t - u)"
proof -
  have "nat (e - u) = nat (e - t) + nat (t - u)" using assms by simp
  then show ?thesis by (simp add: scaled_def power_add)
qed

lemma scaled_less:
  assumes "u \<le> e1" and "u \<le> e2"
  shows "flt (Finite s1 m1 e1) (Finite s2 m2 e2) \<longleftrightarrow> scaled s1 m1 e1 u < scaled s2 m2 e2 u"
  using assms scaled_shift [of u "min e1 e2" e1 s1 m1] scaled_shift [of u "min e1 e2" e2 s2 m2]
  by (simp add: Let_def)

lemma flt_irrefl [simp]: "\<not> flt x x"
  by (cases x) (auto simp: Let_def)

lemma flt_trans: "flt x y \<Longrightarrow> flt y z \<Longrightarrow> flt x z"
proof (cases x; cases y; cases z)
  fix s1 m1 e1 s2 m2 e2 s3 m3 e3
  assume eq: "x = Finite s1 m1 e1" "y = Finite s2 m2 e2" "z = Finite s3 m3 e3"
    and lt: "flt x y" "flt y z"
  define u where "u = min e1 (min e2 e3)"
  have "u \<le> e1" "u \<le> e2" "u \<le> e3" by (simp_all add: u_def)
  with lt show "flt x z" unfolding eq by (simp add: scaled_less del: flt.simps)
qed auto

lemma flt_asym: "flt x y \<Longrightarrow> \<not> flt y x"
  using flt_trans flt_irrefl by blast

lemma not_flt_trans:
  assumes "y \<noteq> NaN" and "\<not> flt x y" and "\<not> flt y z"
  shows "\<not> flt x z"
  using assms
proof (cases x; cases y; cases z)
  fix s1 m1 e1 s2 m2 e2 s3 m3 e3
  assume eq: "x = Finite s1 m1 e1" "y = Finite s2 m2 e2" "z = Finite s3 m3 e3"
    and lt: "\<not> flt x y" "\<not> flt y z"
  define u where "u = min e1 (min e2 e3)"
  have "u \<le> e1" "u \<le> e2" "u \<le> e3" by (simp_all add: u_def)
  with lt show "\<not> flt x z" unfolding eq by (simp add: scaled_less del: flt.simps)
qed auto

text \<open>A value that fits the format is not changed by rounding.\<close>

lemma bit_width_le: "n < 2 ^ k \<Longrightarrow> bit_width n \<le> k"
proof (induction n arbitrary: k rule: bit_width.induct)
  case (1 n)
  show ?case
  proof (cases "n = 0")
    case False
    with "1.prems" obtain j where j: "k = Suc j" by (cases k) auto
    with "1.prems" have "n div 2 < 2 ^ j" by auto
    with "1.IH" [OF False this] show ?thesis by (simp add: bit_width.simps [of n] j False)
  qed (simp add: bit_width_0)
qed

lemma bit_width_ge: "n < 2 ^ bit_width n"
proof (induction n rule: bit_width.induct)
  case (1 n)
  then show ?case
    by (cases "n = 0") (auto simp: bit_width.simps [of n])
qed

text \<open>An integer below \<open>2 ^ precision\<close> converts without loss.\<close>

lemma of_unsigned_exact:
  assumes "0 < n" and "n < 2 ^ precision F" and "min_exp F \<le> - int (precision F)"
    and "0 \<le> max_exp F"
  shows "\<exists>m k. of_unsigned F n = Finite False m (- int k) \<and> m = n * 2 ^ k"
proof -
  have w: "bit_width n \<le> precision F" by (rule bit_width_le) fact
  let ?t = "int (bit_width n) - int (precision F)"
  have t: "max ?t (min_exp F) = ?t" using assms(3) by simp
  have k: "nat (- ?t) = precision F - bit_width n" by simp
  have less: "n * 2 ^ (precision F - bit_width n) < 2 ^ precision F"
  proof -
    have "n * 2 ^ (precision F - bit_width n) < 2 ^ bit_width n * 2 ^ (precision F - bit_width n)"
      by (rule mult_strict_right_mono) (auto intro: bit_width_ge)
    then show ?thesis using w by (simp flip: power_add)
  qed
  have "of_unsigned F n =
      Finite False (n * 2 ^ (precision F - bit_width n)) (- int (precision F - bit_width n))"
    using w less assms(1,4) t by (simp add: of_unsigned_def round_to_def Let_def k [simplified])
  then show ?thesis by blast
qed

subsection \<open>Signs\<close>

text \<open>Neither a NaN nor negative.\<close>

fun nonneg :: "float \<Rightarrow> bool" where
  "nonneg NaN = False"
| "nonneg (Infinity s) = (\<not> s)"
| "nonneg (Finite s m e) = (\<not> s)"

lemma nonneg_round_to [simp]: "nonneg (round_to F s m e) \<longleftrightarrow> \<not> s"
  by (simp add: round_to_def Let_def split: prod.split)

lemma nonneg_round_ratio [simp]: "nonneg (round_ratio F s n d e) \<longleftrightarrow> \<not> s"
  by (simp add: round_ratio_def Let_def)

lemma nonneg_fadd: "nonneg x \<Longrightarrow> nonneg y \<Longrightarrow> nonneg (fadd F x y)"
  by (cases x; cases y) (auto simp: Let_def scaled_def not_less)

lemma nonneg_fmul_finite: "nonneg x \<Longrightarrow> 0 < m \<Longrightarrow> nonneg (fmul F (Finite False m e) x)"
  by (cases x) auto

lemma nonneg_fdiv_finite: "nonneg y \<Longrightarrow> 0 < m \<Longrightarrow> nonneg (fdiv F (Finite False m e) y)"
  by (cases y) auto

lemma scaled_sign: "0 \<le> scaled False m e t" "scaled True m e t \<le> 0"
  by (simp_all add: scaled_def)

lemma flt_pos: "flt (Finite False m e) y \<Longrightarrow> nonneg y"
proof (induction y)
  case (Finite s n d)
  then have "scaled False m e (min e d) < scaled s n d (min e d)" by (simp add: Let_def)
  with scaled_sign [of m e "min e d"] scaled_sign(2) [of n d "min e d"] show ?case
    by (cases s) auto
qed auto

lemma nonneg_fmul: "nonneg x \<Longrightarrow> nonneg y \<Longrightarrow> fmul F x y \<noteq> NaN \<Longrightarrow> nonneg (fmul F x y)"
  by (cases x; cases y) (auto split: if_splits)

end
