(* ===== verification/Ieee_Rounding.thy ===== *)
theory Ieee_Rounding
  imports Complex_Main Ieee_Float
begin

text \<open>
  The arithmetic of \<open>Ieee_Float\<close> against exact arithmetic on rationals: every operation on
  nonnegative operands returns the exact result rounded once, to the nearest value of the format
  and on a tie to the even one, and rounding is monotone. So an order between exact values is
  never turned around by rounding, which is what the heuristics of the program rely on.
\<close>

section \<open>The nearest integer, ties to even\<close>

definition nearest_even :: "rat \<Rightarrow> int" where
  "nearest_even y =
     (let q = \<lfloor>y\<rfloor>; r = y - of_int q in if 1 / 2 < r \<or> (r = 1 / 2 \<and> odd q) then q + 1 else q)"

lemma nearest_even_of_int [simp]: "nearest_even (of_int k) = k"
  by (simp add: nearest_even_def)

lemma nearest_even_floor: "\<lfloor>y\<rfloor> \<le> nearest_even y" "nearest_even y \<le> \<lfloor>y\<rfloor> + 1"
  by (simp_all add: nearest_even_def Let_def)

lemma nearest_even_error: "\<bar>of_int (nearest_even y) - y\<bar> \<le> 1 / 2"
proof -
  have "of_int \<lfloor>y\<rfloor> \<le> y" "y < of_int \<lfloor>y\<rfloor> + 1" by linarith+
  then show ?thesis
    unfolding nearest_even_def Let_def by (cases "1 / 2 < y - of_int \<lfloor>y\<rfloor> \<or> y - of_int \<lfloor>y\<rfloor> = 1 / 2 \<and> odd \<lfloor>y\<rfloor>")
      (simp_all only: if_True if_False of_int_add of_int_1, linarith+)
qed

lemma nearest_even_mono:
  assumes "x \<le> y"
  shows "nearest_even x \<le> nearest_even y"
proof (cases "\<lfloor>x\<rfloor> = \<lfloor>y\<rfloor>")
  case True
  with assms show ?thesis by (auto simp: nearest_even_def Let_def)
next
  case False
  with floor_mono [OF assms] have "\<lfloor>x\<rfloor> + 1 \<le> \<lfloor>y\<rfloor>" by linarith
  with nearest_even_floor(2) [of x] nearest_even_floor(1) [of y] show ?thesis by linarith
qed

lemma nearest_even_le: "y \<le> of_int k \<Longrightarrow> nearest_even y \<le> k"
  using nearest_even_mono [of y "of_int k"] by simp

lemma nearest_even_ge: "of_int k \<le> y \<Longrightarrow> k \<le> nearest_even y"
  using nearest_even_mono [of "of_int k" y] by simp

lemma of_nat_div_mod: "(of_nat q :: rat) = of_nat (q div 2 ^ j) * 2 ^ j + of_nat (q mod 2 ^ j)"
proof -
  have "(of_nat q :: rat) = of_nat (q div 2 ^ j * 2 ^ j + q mod 2 ^ j)" by (simp only: div_mult_mod_eq)
  then show ?thesis by (simp only: of_nat_add of_nat_mult of_nat_power of_nat_numeral)
qed

lemma of_nat_less_fraction:
  assumes "0 \<le> w" "w < (1 :: rat)"
  shows "of_nat h < of_nat m + w \<longleftrightarrow> h < m \<or> h = m \<and> 0 < w"
proof (cases h m rule: linorder_cases)
  case greater
  then have "(of_nat (m + 1) :: rat) \<le> of_nat h" unfolding of_nat_le_iff by simp
  with greater assms show ?thesis by simp
next
  case less
  then have "(of_nat h :: rat) < of_nat m" unfolding of_nat_less_iff .
  with less assms show ?thesis by simp
qed simp

lemma of_nat_eq_fraction:
  assumes "0 \<le> w" "w < (1 :: rat)"
  shows "of_nat m + w = of_nat h \<longleftrightarrow> h = m \<and> w = 0"
proof
  assume eq: "of_nat m + w = of_nat h"
  have "\<not> (of_nat h < of_nat m + w)" unfolding eq by simp
  moreover have "of_nat h < of_nat (m + 1) + (0 :: rat)" unfolding eq [symmetric] using assms by simp
  ultimately have "\<not> h < m" "h < m + 1" "h = m \<longrightarrow> \<not> 0 < w"
    unfolding of_nat_less_fraction [OF assms] by (simp_all only: add_0_right of_nat_less_iff) auto
  with assms show "h = m \<and> w = 0" by auto
qed simp

text \<open>A number between two neighbours of a grid of halves is rounded like any other.\<close>

lemma nearest_even_between:
  fixes q j :: nat and u v :: rat
  assumes "0 < j" and "0 \<le> u" "u < 1" and "0 \<le> v" "v < 1" and "u = 0 \<longleftrightarrow> v = 0"
  shows "nearest_even ((of_nat q + u) / 2 ^ j) = nearest_even ((of_nat q + v) / 2 ^ j)"
proof -
  let ?f = "q div 2 ^ j" and ?m = "q mod 2 ^ j" and ?h = "2 ^ (j - 1) :: nat"
  have two: "(2 :: rat) ^ j = 2 * of_nat ?h" using assms(1) by (cases j) simp_all
  have "nearest_even ((of_nat q + w) / 2 ^ j) =
      (if ?h < ?m \<or> (?h = ?m \<and> (0 < w \<or> odd ?f)) then int ?f + 1 else int ?f)"
    if w: "0 \<le> w" "w < 1" for w :: rat
  proof -
    have y: "(of_nat q + w) / 2 ^ j = of_nat ?f + (of_nat ?m + w) / 2 ^ j"
      by (subst of_nat_div_mod [of q j]) (simp add: add_divide_distrib)
    have m: "of_nat ?m + 1 \<le> (2 ^ j :: rat)"
    proof -
      have "?m + 1 \<le> 2 ^ j" by (simp add: Suc_leI)
      then have "(of_nat (?m + 1) :: rat) \<le> of_nat (2 ^ j)" by (simp only: of_nat_le_iff)
      then show ?thesis by simp
    qed
    have pos: "(0 :: rat) < 2 ^ j" by simp
    have "0 \<le> (of_nat ?m + w) / 2 ^ j" "(of_nat ?m + w) / 2 ^ j < 1"
      using m w pos by (simp_all only: zero_le_divide_iff divide_less_eq_1_pos) linarith+
    then have fl: "\<lfloor>(of_nat q + w) / 2 ^ j\<rfloor> = int ?f"
      unfolding y by (intro floor_unique) simp_all
    have h: "(of_nat ?h :: rat) = 2 ^ j / 2" unfolding two by simp
    have gt: "1 / 2 < (of_nat ?m + w) / 2 ^ j \<longleftrightarrow> of_nat ?h < of_nat ?m + w"
      and eq: "(of_nat ?m + w) / 2 ^ j = 1 / 2 \<longleftrightarrow> of_nat ?m + w = of_nat ?h"
      unfolding h using pos by (auto simp: field_simps)
    have fr: "(of_nat q + w) / 2 ^ j - of_int (int ?f) = (of_nat ?m + w) / 2 ^ j"
      unfolding y by simp
    show ?thesis
      unfolding nearest_even_def Let_def fl fr gt eq of_nat_less_fraction [OF w] of_nat_eq_fraction [OF w]
      using w by auto
  qed
  note cell = this
  have "0 < u \<longleftrightarrow> 0 < v" using assms(2,4,6) by (auto simp: less_le)
  then show ?thesis unfolding cell [OF assms(2,3)] cell [OF assms(4,5)] by (simp only:)
qed

lemma round_off_nearest: "int (round_off d m) = nearest_even (of_nat m / 2 ^ d)"
proof (cases "d = 0")
  case True
  then show ?thesis using nearest_even_of_int [of "int m"] by (simp add: round_off_def)
next
  case False
  let ?h = "2 ^ (d - 1) :: nat"
  have two: "(2 :: rat) ^ d = 2 * of_nat ?h" using False by (cases d) simp_all
  have fl: "\<lfloor>(of_nat m :: rat) / 2 ^ d\<rfloor> = int (m div 2 ^ d)"
    using floor_divide_of_nat_eq [of m "2 ^ d", where 'a = rat] by simp
  have r: "(of_nat m :: rat) / 2 ^ d - of_int (int (m div 2 ^ d)) = of_nat (m mod 2 ^ d) / (2 * of_nat ?h)"
    unfolding two [symmetric] by (subst of_nat_div_mod [of m d]) (simp add: add_divide_distrib)
  have h: "0 < (of_nat ?h :: rat)" by simp
  have "1 / 2 < (of_nat k :: rat) / (2 * of_nat ?h) \<longleftrightarrow> ?h < k"
    "(of_nat k :: rat) / (2 * of_nat ?h) = 1 / 2 \<longleftrightarrow> k = ?h" for k
  proof -
    have "1 / 2 < (of_nat k :: rat) / (2 * of_nat ?h) \<longleftrightarrow> of_nat ?h < (of_nat k :: rat)"
      "(of_nat k :: rat) / (2 * of_nat ?h) = 1 / 2 \<longleftrightarrow> of_nat k = (of_nat ?h :: rat)"
      using h by (auto simp only: pos_less_divide_eq nonzero_divide_eq_eq)
    then show "1 / 2 < (of_nat k :: rat) / (2 * of_nat ?h) \<longleftrightarrow> ?h < k"
      "(of_nat k :: rat) / (2 * of_nat ?h) = 1 / 2 \<longleftrightarrow> k = ?h"
      by (simp_all only: of_nat_less_iff of_nat_eq_iff)
  qed
  then show ?thesis
    using False unfolding nearest_even_def Let_def fl r by (simp add: round_off_def Let_def)
qed

section \<open>Rounding to a precision\<close>

text \<open>\<open>r\<close> is \<open>x\<close> rounded to the precision of the format, in the binade of \<open>x\<close> or at the smallest
  exponent; there is no upper bound on the exponent here.\<close>

definition rounds :: "format \<Rightarrow> rat \<Rightarrow> rat \<Rightarrow> bool" where
  "rounds F x r \<longleftrightarrow>
     (\<exists>t \<ge> min_exp F. x < 2 powi (t + int (precision F)) \<and>
        (t = min_exp F \<or> 2 powi (t + int (precision F) - 1) \<le> x) \<and>
        r = of_int (nearest_even (x / 2 powi t)) * 2 powi t)"

lemma powi_mono: "a \<le> b \<Longrightarrow> 2 powi a \<le> (2 powi b :: rat)"
  by (rule power_int_increasing) simp_all

lemma powi_less: "2 powi a < (2 powi b :: rat) \<Longrightarrow> a < b"
  using powi_mono [of b a] by (meson leD not_le_imp_less)

lemma powi_split: "(2 :: rat) powi (t + k) / 2 powi t = 2 powi k"
  by (simp add: power_int_add)

lemma powi_int: "(2 :: rat) powi int k = of_int (2 ^ k)"
  by simp

lemma scale_mono: "a \<le> b \<Longrightarrow> of_int a * 2 powi t \<le> of_int b * (2 powi t :: rat)"
  by (rule mult_right_mono) simp_all

lemma rounds_mono:
  assumes x: "rounds F x r" and y: "rounds F y s" and le: "x \<le> y" and prec: "0 < precision F"
  shows "r \<le> s"
proof -
  let ?p = "int (precision F)"
  obtain t where t: "min_exp F \<le> t" "x < 2 powi (t + ?p)" "t = min_exp F \<or> 2 powi (t + ?p - 1) \<le> x"
    "r = of_int (nearest_even (x / 2 powi t)) * 2 powi t" using x by (auto simp: rounds_def)
  obtain u where u: "min_exp F \<le> u" "y < 2 powi (u + ?p)" "u = min_exp F \<or> 2 powi (u + ?p - 1) \<le> y"
    "s = of_int (nearest_even (y / 2 powi u)) * 2 powi u" using y by (auto simp: rounds_def)
  consider "u < t" | "t = u" | "t < u" by linarith
  then show ?thesis
  proof cases
    case 1
    then have "2 powi (t + ?p - 1) \<le> x" using t(3) u(1) by auto
    then have "(2 :: rat) powi (t + ?p - 1) < 2 powi (u + ?p)" using le u(2) by linarith
    with 1 powi_less show ?thesis by fastforce
  next
    case 2
    have "nearest_even (x / 2 powi t) \<le> nearest_even (y / 2 powi t)"
      by (rule nearest_even_mono) (simp add: divide_right_mono le)
    then show ?thesis unfolding t(4) u(4) 2 by (simp add: mult_right_mono)
  next
    case 3
    then have uy: "2 powi (u + ?p - 1) \<le> y" using u(3) t(1) by auto
    have "x / 2 powi t \<le> 2 powi ?p"
      using t(2) powi_split [of t ?p] divide_right_mono [of x "2 powi (t + ?p)" "2 powi t"] by simp
    then have "nearest_even (x / 2 powi t) \<le> 2 ^ precision F"
      unfolding powi_int by (rule nearest_even_le)
    then have "r \<le> of_int (2 ^ precision F) * 2 powi t"
      unfolding t(4) by (rule scale_mono)
    also have "\<dots> = 2 powi (t + ?p)" by (simp add: power_int_add)
    also have "\<dots> \<le> 2 powi (u + (?p - 1))" using 3 by (intro powi_mono) simp
    also have "\<dots> = of_int (2 ^ (precision F - 1)) * 2 powi u"
      using prec powi_int [of "precision F - 1"] by (simp add: power_int_add of_nat_diff)
    also have "\<dots> \<le> s"
    proof -
      have "2 powi (u + (?p - 1)) / 2 powi u \<le> y / 2 powi u"
        using uy by (intro divide_right_mono) (simp_all add: add_diff_eq)
      then have "of_int (2 ^ (precision F - 1)) \<le> y / 2 powi u"
        unfolding powi_split using prec powi_int [of "precision F - 1"] by (simp add: of_nat_diff)
      then have "2 ^ (precision F - 1) \<le> nearest_even (y / 2 powi u)" by (rule nearest_even_ge)
      then show ?thesis unfolding u(4) by (rule scale_mono)
    qed
    finally show ?thesis .
  qed
qed

lemma rounds_unique: "rounds F x r \<Longrightarrow> rounds F x s \<Longrightarrow> 0 < precision F \<Longrightarrow> r = s"
  using rounds_mono [of F x r x s] rounds_mono [of F x s x r] by simp

text \<open>Half a unit in the last place bounds the error.\<close>

lemma rounds_error:
  assumes "rounds F x r" and "2 powi (min_exp F + int (precision F)) \<le> x"
  shows "\<bar>r - x\<bar> \<le> x / 2 ^ precision F"
proof -
  let ?p = "int (precision F)"
  obtain t where t: "min_exp F \<le> t" "x < 2 powi (t + ?p)" "t = min_exp F \<or> 2 powi (t + ?p - 1) \<le> x"
    "r = of_int (nearest_even (x / 2 powi t)) * 2 powi t" using assms(1) by (auto simp: rounds_def)
  have lower: "2 powi (t + ?p - 1) \<le> x"
    using t(3) assms(2) powi_mono [of "t + ?p - 1" "t + ?p"] by auto
  have "r - x = (of_int (nearest_even (x / 2 powi t)) - x / 2 powi t) * 2 powi t"
    unfolding t(4) by (simp add: left_diff_distrib)
  then have "\<bar>r - x\<bar> = \<bar>of_int (nearest_even (x / 2 powi t)) - x / 2 powi t\<bar> * 2 powi t"
    by (simp add: abs_mult)
  also have "\<dots> \<le> 1 / 2 * 2 powi t"
    by (rule mult_right_mono [OF nearest_even_error]) simp
  also have "\<dots> = 2 powi (t + ?p - 1) / 2 ^ precision F"
    by (simp add: power_int_add power_int_diff)
  also have "\<dots> \<le> x / 2 ^ precision F" using lower by (rule divide_right_mono) simp
  finally show ?thesis .
qed

section \<open>Values\<close>

fun fval :: "float \<Rightarrow> rat" where
  "fval (Finite s m e) = (if s then - 1 else 1) * of_nat m * 2 powi e"
| "fval x = 0"

lemma powi_shift: "t \<le> e \<Longrightarrow> (2 :: rat) powi e = 2 ^ nat (e - t) * 2 powi t"
  by (simp flip: power_int_add power_int_of_nat)

lemma scaled_fval: "t \<le> e \<Longrightarrow> of_int (scaled s m e t) * 2 powi t = fval (Finite s m e)"
  by (simp add: scaled_def powi_shift [of t e])

lemma scale_less_iff: "of_int a * 2 powi t < of_int b * (2 powi t :: rat) \<longleftrightarrow> a < b"
  by simp

lemma fle_finite: "fle (Finite s m e) (Finite s' m' e') \<longleftrightarrow> fval (Finite s m e) \<le> fval (Finite s' m' e')"
proof -
  let ?t = "min e e'"
  have "fle (Finite s m e) (Finite s' m' e') \<longleftrightarrow> \<not> scaled s' m' e' ?t < scaled s m e ?t"
    by (auto simp: fle_def Let_def)
  also have "\<dots> \<longleftrightarrow> \<not> fval (Finite s' m' e') < fval (Finite s m e)"
    unfolding scaled_fval [of ?t e' s' m', symmetric, OF min.cobounded2]
      scaled_fval [of ?t e s m, symmetric, OF min.cobounded1] scale_less_iff ..
  finally show ?thesis by (simp only: not_less)
qed

text \<open>The float \<open>a\<close> is the nonnegative number \<open>x\<close> rounded to the format: an infinity when the
  rounded number exceeds the largest exponent.\<close>

definition rounded :: "format \<Rightarrow> rat \<Rightarrow> float \<Rightarrow> bool" where
  "rounded F x a \<longleftrightarrow>
     (\<exists>r. rounds F x r \<and>
        (if 2 powi (max_exp F + int (precision F)) \<le> r then a = Infinity False
         else \<exists>m e. a = Finite False m e \<and> fval a = r))"

lemma rounded_mono:
  assumes "rounded F x a" and "rounded F y b" and "x \<le> y" and "0 < precision F"
  shows "fle a b"
proof -
  let ?M = "2 powi (max_exp F + int (precision F)) :: rat"
  obtain r where r: "rounds F x r"
    "if ?M \<le> r then a = Infinity False else \<exists>m e. a = Finite False m e \<and> fval a = r"
    using assms(1) by (auto simp: rounded_def)
  obtain s where s: "rounds F y s"
    "if ?M \<le> s then b = Infinity False else \<exists>m e. b = Finite False m e \<and> fval b = s"
    using assms(2) by (auto simp: rounded_def)
  have le: "r \<le> s" using rounds_mono [OF r(1) s(1) assms(3,4)] .
  show ?thesis
  proof (cases "?M \<le> s")
    case True
    with s r show ?thesis by (auto simp: fle_def split: if_splits)
  next
    case False
    with le have "\<not> ?M \<le> r" by linarith
    with False le r(2) s(2) show ?thesis
      by (auto simp: fle_finite simp del: fval.simps(1))
  qed
qed

lemma rounded_nonneg: "rounded F x a \<Longrightarrow> nonneg a"
  by (auto simp: rounded_def split: if_splits)

lemma bit_width_lower: "0 < n \<Longrightarrow> 2 ^ (bit_width n - 1) \<le> n"
proof (induction n rule: bit_width.induct)
  case (1 n)
  show ?case
  proof (cases "n div 2 = 0")
    case True
    with "1.prems" show ?thesis by (simp add: bit_width.simps [of n] bit_width_0)
  next
    case False
    then have "2 ^ (bit_width (n div 2) - 1) \<le> n div 2" using "1.IH" "1.prems" by simp
    moreover have "0 < bit_width (n div 2)" using False by (simp add: bit_width.simps [of "n div 2"])
    then have "2 ^ bit_width (n div 2) = 2 * (2 :: nat) ^ (bit_width (n div 2) - 1)"
      by (cases "bit_width (n div 2)") simp_all
    ultimately show ?thesis using "1.prems" by (simp add: bit_width.simps [of n])
  qed
qed

text \<open>The mantissa that \<open>round_to\<close> computes is the exact value rounded in its binade.\<close>

definition target_exp :: "format \<Rightarrow> nat \<Rightarrow> int \<Rightarrow> int" where
  "target_exp F m e = max (e + int (bit_width m) - int (precision F)) (min_exp F)"

definition mantissa_at :: "nat \<Rightarrow> int \<Rightarrow> int \<Rightarrow> nat" where
  "mantissa_at m e t = (if t \<le> e then m * 2 ^ nat (e - t) else round_off (nat (t - e)) m)"

lemma mantissa_at_nearest: "int (mantissa_at m e t) = nearest_even (of_nat m * 2 powi e / 2 powi t)"
proof (cases "t \<le> e")
  case True
  then have "of_nat m * 2 powi e / 2 powi t = (of_int (int (m * 2 ^ nat (e - t))) :: rat)"
    by (simp add: powi_shift [OF True])
  with True show ?thesis by (simp only: nearest_even_of_int mantissa_at_def if_True)
next
  case False
  then have "of_nat m * 2 powi e / 2 powi t = (of_nat m / 2 ^ nat (t - e) :: rat)"
    by (simp add: powi_shift [of e t])
  with False show ?thesis by (simp add: mantissa_at_def round_off_nearest)
qed

lemma rounds_mantissa_at:
  assumes "0 < m" and t_def: "t = target_exp F m e"
  shows "rounds F (of_nat m * 2 powi e) (of_nat (mantissa_at m e t) * 2 powi t)"
    and "of_nat m * 2 powi e < (2 powi (t + int (precision F)) :: rat)"
    and "t = min_exp F \<or> 2 powi (t + int (precision F) - 1) \<le> (of_nat m * 2 powi e :: rat)"
proof -
  let ?w = "bit_width m"
  have w: "0 < ?w" using assms(1) by (simp add: bit_width.simps [of m])
  have "(of_nat m :: rat) < of_nat (2 ^ ?w)" unfolding of_nat_less_iff by (rule bit_width_ge)
  then have "of_nat m * 2 powi e < 2 powi int ?w * (2 powi e :: rat)"
    by (intro mult_strict_right_mono) simp_all
  also have "\<dots> = 2 powi (int ?w + e)" by (simp add: power_int_add)
  also have "\<dots> \<le> 2 powi (t + int (precision F))"
    unfolding t_def target_exp_def by (rule powi_mono) simp
  finally show less: "of_nat m * 2 powi e < (2 powi (t + int (precision F)) :: rat)" .
  have "(of_nat (2 ^ (?w - 1)) :: rat) \<le> of_nat m"
    unfolding of_nat_le_iff using assms(1) by (rule bit_width_lower)
  then have "2 powi int (?w - 1) * 2 powi e \<le> (of_nat m * 2 powi e :: rat)"
    by (intro mult_right_mono) simp_all
  also have "2 powi int (?w - 1) * 2 powi e = (2 powi (int (?w - 1) + e) :: rat)"
    by (simp add: power_int_add)
  finally show lower: "t = min_exp F \<or> 2 powi (t + int (precision F) - 1) \<le> (of_nat m * 2 powi e :: rat)"
    using w by (auto simp: t_def target_exp_def max_def of_nat_diff algebra_simps)
  have "of_nat (mantissa_at m e t) = (of_int (nearest_even (of_nat m * 2 powi e / 2 powi t)) :: rat)"
    unfolding mantissa_at_nearest [symmetric] by simp
  then show "rounds F (of_nat m * 2 powi e) (of_nat (mantissa_at m e t) * 2 powi t)"
    unfolding rounds_def using less lower by (intro exI [of _ t]) (simp add: t_def target_exp_def)
qed

definition proper :: "format \<Rightarrow> bool" where
  "proper F \<longleftrightarrow> 0 < precision F \<and> min_exp F \<le> max_exp F"

lemma proper_formats [simp]: "proper binary32" "proper binary64"
  by (simp_all add: proper_def binary32_def binary64_def)

lemma proper_precision [simp]: "proper F \<Longrightarrow> 0 < precision F"
  by (simp add: proper_def)

lemma rounds_zero: "rounds F 0 0"
  by (auto simp: rounds_def intro!: exI [of _ "min_exp F"])
    (use nearest_even_of_int [of 0] in simp)

lemma round_to_eq:
  "0 < m \<Longrightarrow> round_to F s m e =
     (let t = target_exp F m e; m1 = mantissa_at m e t;
          (m2, t2) = (if m1 = 2 ^ precision F then (m1 div 2, t + 1) else (m1, t))
      in if max_exp F < t2 then Infinity s else if m2 = 0 then Finite s 0 0 else Finite s m2 t2)"
  by (simp add: round_to_def target_exp_def mantissa_at_def Let_def)

theorem rounded_round_to:
  assumes "proper F"
  shows "rounded F (of_nat m * 2 powi e) (round_to F False m e)"
proof (cases "m = 0")
  case True
  then show ?thesis using rounds_zero [of F]
    by (auto simp: rounded_def round_to_def not_le intro!: exI [of _ 0])
next
  case False
  let ?p = "int (precision F)"
  define t m1 r where "t = target_exp F m e" and "m1 = mantissa_at m e t"
    and "r = of_nat m1 * (2 powi t :: rat)"
  have r: "rounds F (of_nat m * 2 powi e) r" "of_nat m * 2 powi e < (2 powi (t + ?p) :: rat)"
    "t = min_exp F \<or> 2 powi (t + ?p - 1) \<le> (of_nat m * 2 powi e :: rat)"
    unfolding r_def m1_def using rounds_mantissa_at [of m t F e] False t_def by blast+
  have m1: "int m1 = nearest_even (of_nat m * 2 powi e / 2 powi t)"
    unfolding m1_def by (rule mantissa_at_nearest)
  have "of_nat m * 2 powi e / 2 powi t \<le> (2 powi (t + ?p) / 2 powi t :: rat)"
    using r(2) by (intro divide_right_mono) simp_all
  then have "int m1 \<le> 2 ^ precision F"
    unfolding m1 powi_split powi_int by (rule nearest_even_le)
  then have "int m1 \<le> int (2 ^ precision F)" by simp
  then have bound: "m1 \<le> 2 ^ precision F" by (simp only: of_nat_le_iff)
  have big: "2 powi (t + ?p - 1) \<le> r" if "t \<noteq> min_exp F"
  proof -
    have "2 powi (t + (?p - 1)) / 2 powi t \<le> (of_nat m * 2 powi e / 2 powi t :: rat)"
      using r(3) that by (intro divide_right_mono) (simp_all add: add_diff_eq)
    then have "of_int (2 ^ (precision F - 1)) \<le> (of_nat m * 2 powi e / 2 powi t :: rat)"
      unfolding powi_split using assms powi_int [of "precision F - 1"] by (simp add: of_nat_diff Suc_leI)
    then have "2 ^ (precision F - 1) \<le> int m1" unfolding m1 by (rule nearest_even_ge)
    then have "of_int (2 ^ (precision F - 1)) * 2 powi t \<le> of_int (int m1) * (2 powi t :: rat)"
      by (rule scale_mono)
    then have "2 powi int (precision F - 1) * 2 powi t \<le> r"
      by (simp only: r_def powi_int of_int_of_nat_eq)
    then have "2 powi (int (precision F - 1) + t) \<le> r" by (subst power_int_add) simp_all
    moreover have "int (precision F - 1) + t = t + ?p - 1" using assms by (simp add: of_nat_diff Suc_leI)
    ultimately show ?thesis by (simp only:)
  qed
  have result: "if 2 powi (max_exp F + ?p) \<le> r then round_to F False m e = Infinity False
    else \<exists>m' e'. round_to F False m e = Finite False m' e' \<and> fval (round_to F False m e) = r"
  proof (cases "m1 = 2 ^ precision F")
    case True
    then have rv: "r = 2 powi (t + ?p)" by (simp add: r_def power_int_add)
    have half: "2 ^ precision F div 2 = (2 :: nat) ^ (precision F - 1)"
      using assms by (cases "precision F") (simp_all add: proper_def)
    then have rt: "round_to F False m e =
        (if max_exp F < t + 1 then Infinity False else Finite False (2 ^ (precision F - 1)) (t + 1))"
      using False True by (simp add: round_to_eq Let_def flip: t_def m1_def)
    show ?thesis
    proof (cases "max_exp F < t + 1")
      case True
      then show ?thesis using rt rv powi_mono [of "max_exp F + ?p" "t + ?p"] by simp
    next
      case small: False
      then have "\<not> 2 powi (max_exp F + ?p) \<le> r"
        unfolding rv using powi_less by (simp add: power_int_strict_increasing not_le)
      moreover have "2 powi (t + ?p) = 2 ^ (precision F - 1) * (2 powi (t + 1) :: rat)"
      proof -
        have "(2 :: rat) powi (int (precision F - 1) + (t + 1)) = 2 powi (t + ?p)"
          using assms by (simp add: of_nat_diff Suc_leI algebra_simps)
        then show ?thesis by (simp add: power_int_add)
      qed
      ultimately show ?thesis using rt small rv by simp
    qed
  next
    case less: False
    then have m1p: "m1 < 2 ^ precision F" using bound by simp
    have rt: "round_to F False m e =
        (if max_exp F < t then Infinity False else if m1 = 0 then Finite False 0 0 else Finite False m1 t)"
      using False less by (simp add: round_to_eq Let_def flip: t_def m1_def)
    show ?thesis
    proof (cases "max_exp F < t")
      case True
      then have "2 powi (t + ?p - 1) \<le> r" using big assms by (simp add: proper_def)
      with True show ?thesis
        using rt powi_mono [of "max_exp F + ?p" "t + ?p - 1"] by simp
    next
      case small: False
      have "r < of_nat (2 ^ precision F) * 2 powi t"
        unfolding r_def using m1p by (intro mult_strict_right_mono) (simp_all only: of_nat_less_iff, simp)
      also have "\<dots> = 2 powi (t + ?p)" by (simp add: power_int_add)
      also have "\<dots> \<le> 2 powi (max_exp F + ?p)" using small by (intro powi_mono) simp
      finally have "\<not> 2 powi (max_exp F + ?p) \<le> r" by simp
      then show ?thesis using rt small by (simp add: r_def)
    qed
  qed
  show ?thesis unfolding rounded_def by (intro exI [of _ r] conjI r(1) result)
qed

section \<open>Operations\<close>

lemma rounded_zero: "rounded F 0 (Finite False 0 e)"
  using rounds_zero [of F] by (auto simp: rounded_def not_le intro!: exI [of _ 0])

lemma rounded_fadd:
  assumes "proper F"
  shows "rounded F (fval (Finite False m e) + fval (Finite False n d)) (fadd F (Finite False m e) (Finite False n d))"
proof -
  let ?t = "min e d"
  let ?i = "scaled False m e ?t + scaled False n d ?t"
  have i: "0 \<le> ?i" using scaled_sign(1) by (simp add: add_nonneg_nonneg)
  have sum: "fval (Finite False m e) + fval (Finite False n d) = of_nat (nat ?i) * 2 powi ?t"
    unfolding scaled_fval [of ?t e, symmetric, OF min.cobounded1] scaled_fval [of ?t d, symmetric, OF min.cobounded2]
    using i by (simp add: distrib_right)
  show ?thesis
  proof (cases "?i = 0")
    case True
    then show ?thesis unfolding sum using rounded_zero by (simp add: Let_def)
  next
    case False
    then have "fadd F (Finite False m e) (Finite False n d) = round_to F False (nat ?i) ?t"
      using i by (simp add: Let_def)
    then show ?thesis unfolding sum using rounded_round_to [OF assms] by simp
  qed
qed

lemma rounded_fmul:
  assumes "proper F"
  shows "rounded F (fval (Finite False m e) * fval (Finite False n d)) (fmul F (Finite False m e) (Finite False n d))"
proof -
  have "fval (Finite False m e) * fval (Finite False n d) = of_nat (m * n) * 2 powi (e + d)"
    by (simp add: power_int_add)
  then show ?thesis using rounded_round_to [OF assms, of "m * n" "e + d"] by (simp del: of_nat_mult)
qed

lemma rounded_of_unsigned: "proper F \<Longrightarrow> rounded F (of_nat n) (of_unsigned F n)"
  using rounded_round_to [of F n 0] by (simp add: of_unsigned_def)

text \<open>Two numbers strictly between the same neighbours of a grid, or both on it, are rounded alike when
  the grid is finer than the rounding by a factor of at least two.\<close>

lemma rounds_between:
  fixes q :: nat and u v :: rat
  assumes r: "rounds F ((of_nat q + u) * 2 powi g) r" and fine: "2 ^ (precision F + 1) \<le> q"
    and u: "0 \<le> u" "u < 1" and v: "0 \<le> v" "v < 1" "u = 0 \<longleftrightarrow> v = 0"
  shows "rounds F ((of_nat q + v) * 2 powi g) r"
proof -
  let ?p = "int (precision F)"
  let ?x = "\<lambda>w. (of_nat q + w) * 2 powi g :: rat"
  obtain t where t: "min_exp F \<le> t" "?x u < 2 powi (t + ?p)" "t = min_exp F \<or> 2 powi (t + ?p - 1) \<le> ?x u"
    "r = of_int (nearest_even (?x u / 2 powi t)) * 2 powi t" using r by (auto simp: rounds_def)
  have "(of_nat (2 ^ (precision F + 1)) :: rat) \<le> of_nat q" unfolding of_nat_le_iff by (rule fine)
  then have "2 powi (?p + 1) \<le> of_nat q + u" using u(1) by (simp add: power_int_add)
  then have "2 powi (?p + 1) * 2 powi g \<le> ?x u" by (rule mult_right_mono) simp
  from order_le_less_trans [OF this t(2)] have "(2 :: rat) powi (?p + 1 + g) < 2 powi (t + ?p)"
    by (subst power_int_add) simp_all
  then have g: "g + 1 < t" using powi_less by fastforce
  define j where "j = nat (t - g)"
  have j: "0 < j" "t = g + int j" using g by (simp_all add: j_def)
  have grid: "?x w / 2 powi t = (of_nat q + w) / 2 ^ j" for w
    unfolding j(2) by (simp add: power_int_add)
  have same: "nearest_even (?x v / 2 powi t) = nearest_even (?x u / 2 powi t)"
    unfolding grid using nearest_even_between [OF j(1) v(1,2) u] v(3) by blast
  have cell: "2 powi (g + int k) \<le> ?x w \<longleftrightarrow> 2 ^ k \<le> q" if w: "0 \<le> w" "w < 1" for w k
  proof -
    have "2 powi (g + int k) \<le> ?x w \<longleftrightarrow> (2 :: rat) ^ k \<le> of_nat q + w"
      by (simp add: power_int_add mult.commute [of _ "2 powi g"])
    also have "\<dots> \<longleftrightarrow> \<not> (of_nat q + w < of_nat (2 ^ k))" by (simp add: not_less)
    also have "\<dots> \<longleftrightarrow> \<not> q < 2 ^ k"
    proof
      assume "\<not> (of_nat q + w < of_nat (2 ^ k))"
      moreover have "of_nat q + w < of_nat (q + 1)" using w by simp
      ultimately show "\<not> q < 2 ^ k"
        using of_nat_le_iff [of "q + 1" "2 ^ k", where 'a = rat] by linarith
    next
      assume "\<not> q < 2 ^ k"
      then show "\<not> (of_nat q + w < of_nat (2 ^ k))"
        using w of_nat_le_iff [of "2 ^ k" q, where 'a = rat] by linarith
    qed
    finally show ?thesis by (simp only: not_less)
  qed
  have "t + ?p = g + int (j + precision F)" using j by simp
  then have up: "?x v < 2 powi (t + ?p)"
    using t(2) cell [OF u] cell [OF v(1,2)] by (simp only: not_le [symmetric] simp_thms)
  have low: "t = min_exp F \<or> 2 powi (t + ?p - 1) \<le> ?x v"
  proof (cases "t = min_exp F")
    case False
    have "t + ?p - 1 = g + int (j + precision F - 1)" using j by simp
    with t(3) False cell [OF u] cell [OF v(1,2)] show ?thesis by simp
  qed simp
  show ?thesis unfolding rounds_def using t(1,4) up low same by (intro exI [of _ t]) simp
qed

lemma rounded_between:
  fixes q :: nat
  assumes "rounded F ((of_nat q + u) * 2 powi g) a" and "2 ^ (precision F + 1) \<le> q"
    and "0 \<le> u" "u < 1" and "0 \<le> v" "v < 1" "u = 0 \<longleftrightarrow> v = 0"
  shows "rounded F ((of_nat q + v) * 2 powi g) a"
  using assms(1) rounds_between [OF _ assms(2-)] unfolding rounded_def by blast

lemma rounded_round_ratio:
  assumes F: "proper F" and d: "0 < d"
  shows "rounded F (of_nat n / of_nat d * 2 powi e) (round_ratio F False n d e)"
proof (cases "n = 0")
  case True
  then show ?thesis using rounded_zero by (simp add: round_ratio_def round_to_def Let_def)
next
  case False
  define k q r where "k = precision F + 2 + bit_width d" and "q = n * 2 ^ k div d" and "r = n * 2 ^ k mod d"
  define g u :: "int" and s v :: rat where "g = e - int k" and "u = (if r = 0 then 0 else 1)"
    and "s = of_int u / 2" and "v = of_nat r / of_nat d"
  have d_le: "d \<le> 2 ^ bit_width d" using bit_width_ge [of d] by simp
  have "2 ^ (precision F + 1) * d \<le> 2 ^ (precision F + 1) * 2 ^ bit_width d"
    using d_le by (rule mult_le_mono2)
  also have "\<dots> \<le> 2 ^ k" by (simp add: k_def power_add)
  also have "\<dots> \<le> n * 2 ^ k" using False by simp
  finally have fine: "2 ^ (precision F + 1) \<le> q" unfolding q_def using d by (simp only: less_eq_div_iff_mult_less_eq)
  have "n * 2 ^ k = q * d + r" by (simp only: q_def r_def div_mult_mod_eq)
  then have "(of_nat (n * 2 ^ k) :: rat) = of_nat (q * d + r)" by (simp only:)
  then have "of_nat n / of_nat d * 2 ^ k = (of_nat q + v :: rat)"
    using d by (simp add: v_def field_simps)
  moreover have "(2 :: rat) powi e = 2 ^ k * 2 powi g"
    unfolding g_def by (simp add: power_int_diff)
  ultimately have x: "of_nat n / of_nat d * 2 powi e = ((of_nat q + v) * 2 powi g :: rat)"
    by (simp only: mult.assoc [symmetric])
  have "(2 :: rat) powi (e - int k - 1) = 2 powi g / 2" unfolding g_def by (simp add: power_int_diff)
  then have y: "of_nat (2 * q + (if r = 0 then 0 else 1)) * 2 powi (e - int k - 1) = ((of_nat q + s) * 2 powi g :: rat)"
    by (simp add: s_def u_def field_simps)
  have "r < d" unfolding r_def using d by simp
  then have v: "0 \<le> v" "v < 1" and s: "0 \<le> s" "s < 1" "s = 0 \<longleftrightarrow> v = 0"
    using d by (simp_all add: v_def s_def u_def)
  have "rounded F ((of_nat q + s) * 2 powi g) (round_ratio F False n d e)"
    unfolding round_ratio_def Let_def y [symmetric] k_def [symmetric] q_def [symmetric] r_def [symmetric]
    by (rule rounded_round_to [OF F])
  from rounded_between [OF this fine s(1,2) v s(3)] show ?thesis unfolding x .
qed

lemma rounded_literal: "proper F \<Longrightarrow> 0 < d \<Longrightarrow> rounded F (of_nat n / of_nat d) (literal F n d)"
  using rounded_round_ratio [of F d n 0] by (simp add: literal_def)

lemma rounded_fdiv:
  assumes F: "proper F" and "0 < fval (Finite False n d)"
  shows "rounded F (fval (Finite False m e) / fval (Finite False n d)) (fdiv F (Finite False m e) (Finite False n d))"
proof -
  have n: "0 < n" using assms(2) by (cases n) simp_all
  have "fval (Finite False m e) / fval (Finite False n d) = of_nat m / of_nat n * 2 powi (e - d)"
    by (simp add: power_int_diff)
  moreover have "fdiv F (Finite False m e) (Finite False n d) = round_ratio F False m n (e - d)"
    using n by simp
  ultimately show ?thesis using rounded_round_ratio [OF F n] by (simp only:)
qed

text \<open>A float of the format is the rounding of its own value, so a smaller number does not overflow.\<close>

fun format_ok :: "format \<Rightarrow> float \<Rightarrow> bool" where
  "format_ok F (Finite s m e) \<longleftrightarrow> m < 2 ^ precision F \<and> min_exp F \<le> e \<and> e \<le> max_exp F"
| "format_ok F x \<longleftrightarrow> False"

lemma rounded_exact:
  assumes ok: "format_ok F (Finite False m e)"
  shows "rounded F (fval (Finite False m e)) (Finite False m e)"
proof (cases "m = 0")
  case True
  then show ?thesis using rounded_zero by simp
next
  case False
  let ?t = "target_exp F m e"
  have "bit_width m \<le> precision F" using ok by (intro bit_width_le) simp
  then have t: "?t \<le> e" using ok by (simp add: target_exp_def)
  have "of_nat (mantissa_at m e ?t) * 2 powi ?t = (of_nat m * 2 powi e :: rat)"
    using t by (simp add: mantissa_at_def powi_shift [OF t])
  then have r: "rounds F (of_nat m * 2 powi e) (of_nat m * 2 powi e)"
    using rounds_mantissa_at(1) [OF _ refl, of m F e] False by simp
  have "of_nat m * 2 powi e < of_nat (2 ^ precision F) * (2 powi e :: rat)"
    using ok by (intro mult_strict_right_mono) (simp_all only: of_nat_less_iff format_ok.simps, simp)
  also have "\<dots> = 2 powi (e + int (precision F))" by (simp add: power_int_add)
  also have "\<dots> \<le> 2 powi (max_exp F + int (precision F))" using ok by (intro powi_mono) simp
  finally have "\<not> 2 powi (max_exp F + int (precision F)) \<le> (of_nat m * 2 powi e :: rat)" by simp
  with r show ?thesis unfolding rounded_def by (intro exI [of _ "of_nat m * 2 powi e"]) simp
qed

lemma rounded_finite:
  assumes "rounded F x a" and "proper F" and "format_ok F (Finite False m e)" and "x \<le> fval (Finite False m e)"
  shows "\<exists>n d. a = Finite False n d \<and> fval a \<le> fval (Finite False m e)"
proof -
  have le: "fle a (Finite False m e)"
    using rounded_mono [OF assms(1) rounded_exact [OF assms(3)] assms(4)] assms(2) by simp
  show ?thesis
  proof (cases a)
    case (Finite s n d)
    then show ?thesis using le rounded_nonneg [OF assms(1)] by (simp add: fle_finite del: fval.simps)
  qed (use le rounded_nonneg [OF assms(1)] in \<open>simp_all add: fle_def\<close>)
qed

end
