(* ===== verification/Pager.thy ===== *)
theory Pager
  imports Allocator Ieee_Float
begin

text \<open>
  The virtual sliding pager of \<open>omni-core/src/memory/pager.rs\<close>: the commands of its channel,
  \<open>slide_window\<close> and \<open>Drop\<close> on the sending side, the loop of the background worker on the
  receiving side, with its bandwidth estimate and its messages. The worker reaches the allocator
  through \<open>get_domain\<close> and \<open>migrate\<close> only, which are the first two arguments of its operations;
  the facts about it are proved in the locale \<open>residency\<close> and hold of the DUVAS allocator by the
  interpretation there. The time that a migration takes is an input of the worker. A step
  relation interleaves the worker with clients and with other users of the allocator.
\<close>

section \<open>Commands and the sending side\<close>

datatype page_command = Prefetch u64 f64 | Evict u64 | Shutdown

text \<open>The worker is at \<open>recv\<close>, about to look a command's address up, about to migrate, or gone.\<close>

datatype worker_pc = Receiving | Checking page_command | Moving page_command | Exited

text \<open>What the worker reports: the slack (or lateness) of a prefetch, and failed migrations.\<close>

datatype pager_event =
    LatencyHidden u64 f64 f64
  | LateArrival u64 f64 f64
  | PrefetchFailed u64
  | PrefetchDone u64 f64
  | EvictFailed u64

text \<open>The allocator, the local variable \<open>estimated_bandwidth_mb_per_ms\<close> and the messages.\<close>

record 's paging =
  memory :: 's
  bandwidth :: f64
  events :: "pager_event list"

record 's pager = "'s paging" +
  channel :: "page_command list"
  worker :: worker_pc

definition start_paging :: "'s \<Rightarrow> 's paging" where
  "start_paging s = \<lparr>memory = s, bandwidth = literal binary64 15 1, events = []\<rparr>"

definition pager_new :: "'s \<Rightarrow> 's pager" where
  "pager_new s = \<lparr>memory = s, bandwidth = literal binary64 15 1, events = [],
                  channel = [], worker = Receiving\<rparr>"

text \<open>\<open>Sender::send\<close> fails, giving the message back, when the receiver is gone.\<close>

definition send :: "page_command \<Rightarrow> 's pager \<Rightarrow> (page_command + unit) \<times> 's pager" where
  "send c p = (if worker p = Exited then (Inl c, p) else (Inr (), p\<lparr>channel := channel p @ [c]\<rparr>))"

fun send_all :: "page_command list \<Rightarrow> 's pager \<Rightarrow> (page_command + unit) \<times> 's pager" where
  "send_all [] p = (Inr (), p)"
| "send_all (c # cs) p =
     (case send c p of (Inl e, p') \<Rightarrow> (Inl e, p') | (Inr _, p') \<Rightarrow> send_all cs p')"

definition slide_window ::
  "u64 list \<Rightarrow> u64 list \<Rightarrow> u64 list \<Rightarrow> f64 \<Rightarrow> 's pager \<Rightarrow> (page_command + unit) \<times> 's pager" where
  "slide_window active_layers prefetch_layers evict_layers accumulated_kernel_ms p =
     (case send_all (map Evict evict_layers) p of
        (Inl e, p') \<Rightarrow> (Inl e, p')
      | (Inr _, p') \<Rightarrow> send_all (map (\<lambda>a. Prefetch a accumulated_kernel_ms) prefetch_layers) p')"

text \<open>\<open>Drop\<close> sends the shutdown command and ignores a failure; the join waits for the worker.\<close>

definition pager_drop :: "'s pager \<Rightarrow> 's pager" where
  "pager_drop p = snd (send Shutdown p)"

section \<open>The worker\<close>

definition block_size_mb :: f64 where
  "block_size_mb =
     fdiv binary64 (fdiv binary64 (of_unsigned binary64 (64 * 1024 * 1024)) (literal binary64 1024 1))
       (literal binary64 1024 1)"

definition overhead_ms :: f64 where
  "overhead_ms = literal binary64 8 10"

text \<open>The latency check before a prefetch; it only chooses the message.\<close>

definition latency_event :: "f64 \<Rightarrow> u64 \<Rightarrow> f64 \<Rightarrow> pager_event" where
  "latency_event bw addr estimated_kernel_ms =
     (let expected_transfer_ms = fdiv binary64 block_size_mb bw;
          margin = fsub binary64 (fsub binary64 estimated_kernel_ms expected_transfer_ms) overhead_ms
      in if fle (literal binary64 0 1) margin
         then LatencyHidden addr expected_transfer_ms margin
         else LateArrival addr expected_transfer_ms (fneg margin))"

text \<open>The moving average over measured throughput; \<open>elapsed\<close> is in seconds.\<close>

definition update_bandwidth :: "f64 \<Rightarrow> f64 \<Rightarrow> f64" where
  "update_bandwidth elapsed bw =
     (let duration = fmul binary64 elapsed (literal binary64 1000 1) in
      if flt (literal binary64 1 10) duration
      then fadd binary64 (fmul binary64 (literal binary64 8 10) bw)
             (fmul binary64 (literal binary64 2 10) (fdiv binary64 block_size_mb duration))
      else bw)"

definition check_command ::
  "('s \<Rightarrow> u64 \<Rightarrow> memory_domain option) \<Rightarrow> page_command \<Rightarrow> ('s, 'm) paging_scheme \<Rightarrow> bool" where
  "check_command dom_of c p =
     (case c of
        Prefetch a k \<Rightarrow> dom_of (memory p) a \<noteq> Some LocalDevice
      | Evict a \<Rightarrow> dom_of (memory p) a = Some LocalDevice
      | Shutdown \<Rightarrow> False)"

definition move_command ::
  "(u64 \<Rightarrow> memory_domain \<Rightarrow> 's \<Rightarrow> ('e + unit) \<times> 's) \<Rightarrow> f64 \<Rightarrow> page_command \<Rightarrow>
   ('s, 'm) paging_scheme \<Rightarrow> ('s, 'm) paging_scheme" where
  "move_command move elapsed c p =
     (case c of
        Prefetch a k \<Rightarrow>
          (let p = p\<lparr>events := events p @ [latency_event (bandwidth p) a k]\<rparr> in
           case move a LocalDevice (memory p) of
             (Inl e, s) \<Rightarrow> p\<lparr>memory := s, events := events p @ [PrefetchFailed a]\<rparr>
           | (Inr _, s) \<Rightarrow>
               (let bw = update_bandwidth elapsed (bandwidth p) in
                p\<lparr>memory := s, bandwidth := bw, events := events p @ [PrefetchDone a bw]\<rparr>))
      | Evict a \<Rightarrow>
          (case move a Host (memory p) of
             (Inl e, s) \<Rightarrow> p\<lparr>memory := s, events := events p @ [EvictFailed a]\<rparr>
           | (Inr _, s) \<Rightarrow> p\<lparr>memory := s\<rparr>)
      | Shutdown \<Rightarrow> p)"

text \<open>One round of the loop body without interference.\<close>

definition handle_command ::
  "('s \<Rightarrow> u64 \<Rightarrow> memory_domain option) \<Rightarrow> (u64 \<Rightarrow> memory_domain \<Rightarrow> 's \<Rightarrow> ('e + unit) \<times> 's) \<Rightarrow>
   f64 \<Rightarrow> page_command \<Rightarrow> ('s, 'm) paging_scheme \<Rightarrow> ('s, 'm) paging_scheme" where
  "handle_command dom_of move elapsed c p =
     (if check_command dom_of c p then move_command move elapsed c p else p)"

text \<open>
  The loop on the messages that are ever sent: it ends at the first \<open>Shutdown\<close>, or when the
  messages are used up and every sender is gone. \<open>clock n\<close> is the measured time of round \<open>n\<close>.
\<close>

fun run_worker ::
  "('s \<Rightarrow> u64 \<Rightarrow> memory_domain option) \<Rightarrow> (u64 \<Rightarrow> memory_domain \<Rightarrow> 's \<Rightarrow> ('e + unit) \<times> 's) \<Rightarrow>
   (nat \<Rightarrow> f64) \<Rightarrow> nat \<Rightarrow> page_command list \<Rightarrow> ('s, 'm) paging_scheme \<Rightarrow> ('s, 'm) paging_scheme" where
  "run_worker dom_of move clock n [] p = p"
| "run_worker dom_of move clock n (Shutdown # cs) p = p"
| "run_worker dom_of move clock n (c # cs) p =
     run_worker dom_of move clock (Suc n) cs (handle_command dom_of move (clock n) c p)"

text \<open>
  The loop in the atomic steps that other threads can see: take a message (the worker blocks on
  an empty channel), look the address up, migrate.
\<close>

definition worker_step ::
  "('s \<Rightarrow> u64 \<Rightarrow> memory_domain option) \<Rightarrow> (u64 \<Rightarrow> memory_domain \<Rightarrow> 's \<Rightarrow> ('e + unit) \<times> 's) \<Rightarrow>
   f64 \<Rightarrow> 's pager \<Rightarrow> 's pager option" where
  "worker_step dom_of move elapsed p =
     (case worker p of
        Receiving \<Rightarrow>
          (case channel p of
             [] \<Rightarrow> None
           | c # cs \<Rightarrow> Some (p\<lparr>channel := cs, worker := (if c = Shutdown then Exited else Checking c)\<rparr>))
      | Checking c \<Rightarrow>
          Some (p\<lparr>worker := (if check_command dom_of c p then Moving c else Receiving)\<rparr>)
      | Moving c \<Rightarrow> Some ((move_command move elapsed c p)\<lparr>worker := Receiving\<rparr>)
      | Exited \<Rightarrow> None)"

text \<open>Worker steps with the given time readings, until it blocks or has exited.\<close>

fun worker_iter ::
  "('s \<Rightarrow> u64 \<Rightarrow> memory_domain option) \<Rightarrow> (u64 \<Rightarrow> memory_domain \<Rightarrow> 's \<Rightarrow> ('e + unit) \<times> 's) \<Rightarrow>
   f64 list \<Rightarrow> 's pager \<Rightarrow> 's pager" where
  "worker_iter dom_of move [] p = p"
| "worker_iter dom_of move (t # ts) p =
     (case worker_step dom_of move t p of None \<Rightarrow> p | Some q \<Rightarrow> worker_iter dom_of move ts q)"

text \<open>
  While a client holds the pager: sends of page commands, atomic steps of the worker and steps of
  other users of the allocator (\<open>others\<close>), in any order.
\<close>

inductive pager_step ::
  "('s \<Rightarrow> u64 \<Rightarrow> memory_domain option) \<Rightarrow> (u64 \<Rightarrow> memory_domain \<Rightarrow> 's \<Rightarrow> ('e + unit) \<times> 's) \<Rightarrow>
   ('s \<Rightarrow> 's \<Rightarrow> bool) \<Rightarrow> 's pager \<Rightarrow> 's pager \<Rightarrow> bool"
  for dom_of move others where
  step_send: "c \<noteq> Shutdown \<Longrightarrow> pager_step dom_of move others p (snd (send c p))"
| step_worker: "worker_step dom_of move t p = Some q \<Longrightarrow> pager_step dom_of move others p q"
| step_others: "others (memory p) s \<Longrightarrow> pager_step dom_of move others p (p\<lparr>memory := s\<rparr>)"

inductive pager_reach ::
  "('s \<Rightarrow> u64 \<Rightarrow> memory_domain option) \<Rightarrow> (u64 \<Rightarrow> memory_domain \<Rightarrow> 's \<Rightarrow> ('e + unit) \<times> 's) \<Rightarrow>
   ('s \<Rightarrow> 's \<Rightarrow> bool) \<Rightarrow> 's \<Rightarrow> 's pager \<Rightarrow> bool"
  for dom_of move others s where
  pager_start: "pager_reach dom_of move others s (pager_new s)"
| pager_next: "pager_reach dom_of move others s p \<Longrightarrow> pager_step dom_of move others p q \<Longrightarrow>
    pager_reach dom_of move others s q"

inductive_cases pager_stepE: "pager_step dom_of move others p q"

section \<open>What the worker does to the residence of addresses\<close>

text \<open>The specification of one command on the map from addresses to domains.\<close>

fun moved :: "page_command \<Rightarrow> (u64 \<Rightarrow> memory_domain option) \<Rightarrow> u64 \<Rightarrow> memory_domain option" where
  "moved (Prefetch a k) r = (if r a = None then r else r(a \<mapsto> LocalDevice))"
| "moved (Evict a) r = (if r a = Some LocalDevice then r(a \<mapsto> Host) else r)"
| "moved Shutdown r = r"

lemma fold_evict:
  "fold moved (map Evict ev) r a =
     (if a \<in> set ev \<and> r a = Some LocalDevice then Some Host else r a)"
  by (induction ev arbitrary: r) auto

lemma fold_prefetch:
  "fold moved (map (\<lambda>a. Prefetch a k) pre) r a =
     (if a \<in> set pre \<and> r a \<noteq> None then Some LocalDevice else r a)"
  by (induction pre arbitrary: r) auto

lemma fold_window:
  "fold moved (map Evict ev @ map (\<lambda>a. Prefetch a k) pre) r a =
     (if r a = None then None
      else if a \<in> set pre then Some LocalDevice
      else if a \<in> set ev \<and> r a = Some LocalDevice then Some Host else r a)"
  by (auto simp: fold_evict fold_prefetch)

lemma memory_move_command:
  "memory (move_command move t c p) =
     (case c of Prefetch a k \<Rightarrow> snd (move a LocalDevice (memory p))
      | Evict a \<Rightarrow> snd (move a Host (memory p)) | Shutdown \<Rightarrow> memory p)"
  by (cases c) (auto simp: move_command_def Let_def split: prod.splits sum.splits)

context residency
begin

lemma dom_of_handle:
  "dom_of (memory (handle_command dom_of move t c p)) = moved c (dom_of (memory p))"
proof (rule ext)
  fix a
  show "dom_of (memory (handle_command dom_of move t c p)) a = moved c (dom_of (memory p)) a"
    by (cases c)
      (auto simp: handle_command_def check_command_def memory_move_command dom_of_move)
qed

lemma dom_of_run:
  "dom_of (memory (run_worker dom_of move clock n cs p)) =
     fold moved (takeWhile (\<lambda>c. c \<noteq> Shutdown) cs) (dom_of (memory p))"
proof (induction cs arbitrary: n p)
  case (Cons c cs)
  then show ?case by (cases c) (simp_all add: dom_of_handle del: moved.simps)
qed simp

lemma inv_move_command: "inv (memory p) \<Longrightarrow> inv (memory (move_command move t c p))"
  by (auto simp: memory_move_command inv_move split: page_command.split)

lemma inv_run: "inv (memory p) \<Longrightarrow> inv (memory (run_worker dom_of move clock n cs p))"
proof (induction cs arbitrary: n p)
  case (Cons c cs)
  then show ?case by (cases c) (simp_all add: handle_command_def inv_move_command)
qed simp

text \<open>Interleaved with other users of the allocator that keep its invariant, the worker keeps it.\<close>

lemma inv_pager_step:
  assumes "pager_step dom_of move others p q" and "inv (memory p)"
    and "\<And>s s'. others s s' \<Longrightarrow> inv s \<Longrightarrow> inv s'"
  shows "inv (memory q)"
  using assms
  by (induction rule: pager_step.induct)
    (auto simp: send_def worker_step_def inv_move_command
      split: worker_pc.splits list.splits)

lemma inv_pager_reach:
  assumes "pager_reach dom_of move others s p" and "inv s"
    and "\<And>s s'. others s s' \<Longrightarrow> inv s \<Longrightarrow> inv s'"
  shows "inv (memory p)"
  using assms by (induction) (auto simp: pager_new_def intro: inv_pager_step)

end

section \<open>The channel\<close>

lemma frame_move_command [frame_simps]:
  "channel (move_command move t c p) = channel p"
  "worker (move_command move t c p) = worker p"
  by (auto simp: move_command_def Let_def split: page_command.splits prod.splits sum.splits)

lemma send_all_alive:
  "worker p \<noteq> Exited \<Longrightarrow> send_all cs p = (Inr (), p\<lparr>channel := channel p @ cs\<rparr>)"
  by (induction cs arbitrary: p) (simp_all add: send_def)

lemma slide_window_alive:
  "worker p \<noteq> Exited \<Longrightarrow> slide_window act pre ev k p =
     (Inr (), p\<lparr>channel := channel p @ map Evict ev @ map (\<lambda>a. Prefetch a k) pre\<rparr>)"
  by (simp add: slide_window_def send_all_alive)

text \<open>Before \<open>Drop\<close> no shutdown command is around, so the worker is alive.\<close>

definition no_shutdown :: "'s pager \<Rightarrow> bool" where
  "no_shutdown p \<longleftrightarrow>
     worker p \<noteq> Exited \<and> Shutdown \<notin> set (channel p) \<and>
     worker p \<noteq> Checking Shutdown \<and> worker p \<noteq> Moving Shutdown"

lemma no_shutdown_step: "pager_step dom_of move others p q \<Longrightarrow> no_shutdown p \<Longrightarrow> no_shutdown q"
  by (induction rule: pager_step.induct)
    (auto simp: no_shutdown_def send_def worker_step_def frame_simps
      split: worker_pc.splits list.splits if_splits)

lemma no_shutdown_reach: "pager_reach dom_of move others s p \<Longrightarrow> no_shutdown p"
proof (induction rule: pager_reach.induct)
  case pager_start
  show ?case by (simp add: no_shutdown_def pager_new_def)
next
  case pager_next
  then show ?case by (blast intro: no_shutdown_step)
qed

text \<open>The number of worker steps left before it blocks.\<close>

definition worker_work :: "'s pager \<Rightarrow> nat" where
  "worker_work p = 3 * length (channel p) +
     (case worker p of Receiving \<Rightarrow> 0 | Checking c \<Rightarrow> 2 | Moving c \<Rightarrow> 1 | Exited \<Rightarrow> 0)"

lemma worker_step_work: "worker_step dom_of move t p = Some q \<Longrightarrow> worker_work q < worker_work p"
  by (auto simp: worker_step_def worker_work_def frame_simps
      split: worker_pc.splits list.splits if_splits)

text \<open>A shutdown command in the channel stays there until the worker has exited.\<close>

definition shutting_down :: "'s pager \<Rightarrow> bool" where
  "shutting_down p \<longleftrightarrow> worker p = Exited \<or> Shutdown \<in> set (channel p)"

lemma worker_step_shutting_down:
  "worker_step dom_of move t p = Some q \<Longrightarrow> shutting_down p \<Longrightarrow> shutting_down q"
  by (auto simp: worker_step_def shutting_down_def frame_simps
      split: worker_pc.splits list.splits if_splits)

lemma worker_step_blocked:
  "worker_step dom_of move t p = None \<Longrightarrow> shutting_down p \<Longrightarrow> worker p = Exited"
  by (auto simp: worker_step_def shutting_down_def split: worker_pc.splits list.splits)

lemma worker_iter_exits:
  "shutting_down p \<Longrightarrow> worker_work p < length ts \<Longrightarrow> worker (worker_iter dom_of move ts p) = Exited"
proof (induction ts arbitrary: p)
  case (Cons t ts)
  show ?case
  proof (cases "worker_step dom_of move t p")
    case None
    with Cons.prems show ?thesis by (simp add: worker_step_blocked)
  next
    case (Some q)
    with Cons.prems worker_step_work [OF Some] worker_step_shutting_down [OF Some]
    show ?thesis by (simp add: Cons.IH)
  qed
qed simp

text \<open>Without interference, three atomic steps are one round of the loop.\<close>

lemma move_command_upd:
  "move_command move t c (p\<lparr>channel := cs, worker := w\<rparr>) =
     (move_command move t c p)\<lparr>channel := cs, worker := w\<rparr>"
  by (auto simp: move_command_def Let_def split: page_command.splits prod.splits sum.splits)

lemma check_command_upd:
  "check_command dom_of c (p\<lparr>channel := cs, worker := w\<rparr>) = check_command dom_of c p"
  by (simp add: check_command_def split: page_command.split)

lemma worker_round:
  assumes "worker p = Receiving" and "channel p = c # cs" and "c \<noteq> Shutdown"
  shows "\<exists>us. \<forall>ts. worker_iter dom_of move (us @ ts) p =
    worker_iter dom_of move ts ((handle_command dom_of move t c p)\<lparr>channel := cs, worker := Receiving\<rparr>)"
proof (cases "check_command dom_of c p")
  case True
  with assms show ?thesis
    by (intro exI [of _ "[t, t, t]"])
      (simp add: worker_step_def handle_command_def check_command_upd move_command_upd)
next
  case False
  with assms show ?thesis
    by (intro exI [of _ "[t, t]"])
      (simp add: worker_step_def handle_command_def check_command_upd)
qed

lemma run_worker_upd:
  "run_worker dom_of move clock n ds (p\<lparr>channel := cs, worker := w\<rparr>) =
     (run_worker dom_of move clock n ds p)\<lparr>channel := cs, worker := w\<rparr>"
proof (induction ds arbitrary: n p)
  case (Cons d ds)
  show ?case
    by (cases d) (simp_all add: Cons.IH handle_command_def move_command_upd check_command_upd)
qed simp

lemma worker_iter_run:
  assumes "worker p = Receiving" and "channel p = cs @ Shutdown # ds" and "Shutdown \<notin> set cs"
  shows "\<exists>us. worker_iter dom_of move us p =
    (run_worker dom_of move clock n cs p)\<lparr>channel := ds, worker := Exited\<rparr>"
  using assms
proof (induction cs arbitrary: n p)
  case Nil
  then show ?case by (intro exI [of _ "[NaN]"]) (simp add: worker_step_def)
next
  case (Cons c cs)
  let ?q = "(handle_command dom_of move (clock n) c p)\<lparr>channel := cs @ Shutdown # ds, worker := Receiving\<rparr>"
  obtain us where us: "\<And>ts. worker_iter dom_of move (us @ ts) p = worker_iter dom_of move ts ?q"
    using worker_round [of p c "cs @ Shutdown # ds" dom_of move "clock n"] Cons.prems by auto
  from Cons.IH [of ?q "Suc n"] Cons.prems obtain vs where
    "worker_iter dom_of move vs ?q =
       (run_worker dom_of move clock (Suc n) cs ?q)\<lparr>channel := ds, worker := Exited\<rparr>"
    by auto
  with us [of vs] Cons.prems show ?case
    by (intro exI [of _ "us @ vs"]) (cases c, simp_all add: run_worker_upd)
qed

section \<open>The bandwidth estimate\<close>

lemma block_size_mb_eq: "block_size_mb = Finite False (2 ^ 52) (- 46)"
  by (simp add: block_size_mb_def float_eval)

lemma nonneg_update_bandwidth:
  assumes "nonneg bw"
  shows "nonneg (update_bandwidth t bw)"
proof -
  have lits: "literal binary64 1 10 = Finite False 7205759403792794 (- 56)"
    "literal binary64 8 10 = Finite False 7205759403792794 (- 53)"
    "literal binary64 2 10 = Finite False 7205759403792794 (- 55)"
    by (simp_all add: float_eval)
  show ?thesis
  proof (cases "flt (literal binary64 1 10) (fmul binary64 t (literal binary64 1000 1))")
    case True
    then have "nonneg (fmul binary64 t (literal binary64 1000 1))"
      unfolding lits by (rule flt_pos)
    then have "nonneg (fmul binary64 (literal binary64 2 10)
        (fdiv binary64 block_size_mb (fmul binary64 t (literal binary64 1000 1))))"
      unfolding lits block_size_mb_eq by (intro nonneg_fmul_finite nonneg_fdiv_finite) simp_all
    moreover have "nonneg (fmul binary64 (literal binary64 8 10) bw)"
      unfolding lits using assms by (intro nonneg_fmul_finite) simp_all
    ultimately show ?thesis using True by (simp add: update_bandwidth_def Let_def nonneg_fadd)
  qed (simp add: update_bandwidth_def assms)
qed

lemma nonneg_move_command: "nonneg (bandwidth p) \<Longrightarrow> nonneg (bandwidth (move_command move t c p))"
  by (auto simp: move_command_def Let_def nonneg_update_bandwidth
      split: page_command.splits prod.splits sum.splits)

lemma nonneg_step:
  "pager_step dom_of move others p q \<Longrightarrow> nonneg (bandwidth p) \<Longrightarrow> nonneg (bandwidth q)"
  by (induction rule: pager_step.induct)
    (auto simp: send_def worker_step_def nonneg_move_command
      split: worker_pc.splits list.splits if_splits)

lemma nonneg_reach: "pager_reach dom_of move others s p \<Longrightarrow> nonneg (bandwidth p)"
proof (induction rule: pager_reach.induct)
  case pager_start
  show ?case by (simp add: pager_new_def float_eval)
next
  case pager_next
  then show ?case by (blast intro: nonneg_step)
qed

lemma slide_residence:
  "get_domain (memory (run_worker get_domain migrate clock n
       (channel (snd (slide_window act pre ev k (pager_new a)))) (pager_new a))) x =
     (if get_domain a x = None then None
      else if x \<in> set pre then Some LocalDevice
      else if x \<in> set ev \<and> get_domain a x = Some LocalDevice then Some Host
      else get_domain a x)"
proof -
  have "takeWhile (\<lambda>c. c \<noteq> Shutdown) (map Evict ev @ map (\<lambda>a. Prefetch a k) pre) =
      map Evict ev @ map (\<lambda>a. Prefetch a k) pre"
    by (simp add: takeWhile_eq_all_conv) auto
  moreover have "channel (snd (slide_window act pre ev k (pager_new a))) =
      map Evict ev @ map (\<lambda>a. Prefetch a k) pre"
    by (simp add: slide_window_alive pager_new_def)
  moreover have "memory (pager_new a) = a" by (simp add: pager_new_def)
  ultimately show ?thesis by (simp only: duvas.dom_of_run fold_window)
qed

section \<open>Properties\<close>

text \<open>C20: The outcome of sliding the window: once the worker has processed the commands, every live
  prefetched address is on the device, every other live address that was evicted from the device
  is on the host, and no other residence has changed. Prefetches win over evictions, the order
  of both lists is irrelevant, and so is the list of active layers.\<close>

theorem slide_window_outcome:
  "get_domain (memory (run_worker get_domain migrate clock n
       (channel (snd (slide_window act pre ev k (pager_new a)))) (pager_new a))) x =
     (if get_domain a x = None then None
      else if x \<in> set pre then Some LocalDevice
      else if x \<in> set ev \<and> get_domain a x = Some LocalDevice then Some Host
      else get_domain a x)"
  by (rule slide_residence)

text \<open>C4: With clients sending page commands, other threads allocating, freeing and migrating, and the
  worker stopped between any two of its lock acquisitions, the allocator's invariant holds in
  every reachable state.\<close>

theorem pager_keeps_allocator_invariant:
  assumes "pager_reach get_domain migrate duvas_step a p" and "alloc_inv a"
  shows "alloc_inv (memory p)"
  using assms by (rule duvas.inv_pager_reach) (rule duvas_step_inv)

lemma pager_start_duvas: "pager_reach get_domain migrate duvas_step a (pager_new a)"
  by (rule pager_start)

theorem pager_keeps_allocator_invariant_witness:
  "alloc_inv (memory (snd (send (Evict 5) (pager_new demo_alloc))))"
  by (rule pager_keeps_allocator_invariant
      [OF pager_next [OF pager_start_duvas step_send] reach_inv [OF demo_alloc_reach]]) simp

text \<open>C19: While the pager is not dropped the worker is alive in every interleaving: sliding the window
  never fails, and it appends the evictions and then the prefetches to the channel.\<close>

theorem slide_window_never_fails:
  assumes "pager_reach get_domain migrate duvas_step a p"
  shows "slide_window act pre ev k p =
     (Inr (), p\<lparr>channel := channel p @ map Evict ev @ map (\<lambda>a. Prefetch a k) pre\<rparr>)"
  using no_shutdown_reach [OF assms] by (simp add: slide_window_alive no_shutdown_def)

theorem slide_window_never_fails_witness:
  "fst (slide_window [] [5] [0x1000000000] NaN (pager_new demo_alloc)) = Inr ()"
  using slide_window_never_fails [OF pager_start_duvas] by simp

text \<open>C21: The join in \<open>Drop\<close> returns: from any reachable state, with \<open>n\<close> commands still in the
  channel, the worker has exited after at most \<open>3 * n + 6\<close> of its steps.\<close>

theorem drop_joins:
  assumes "pager_reach get_domain migrate duvas_step a p"
    and "3 * length (channel p) + 6 \<le> length ts"
  shows "worker (worker_iter get_domain migrate ts (pager_drop p)) = Exited"
proof -
  note alive = no_shutdown_reach [OF assms(1)]
  have "shutting_down (pager_drop p)"
    using alive by (simp add: pager_drop_def send_def no_shutdown_def shutting_down_def)
  moreover have "worker_work (pager_drop p) < length ts"
    using alive assms(2)
    by (simp add: pager_drop_def send_def no_shutdown_def worker_work_def split: worker_pc.split)
  ultimately show ?thesis by (rule worker_iter_exits)
qed

theorem drop_joins_witness:
  "worker (worker_iter get_domain migrate (replicate 6 NaN) (pager_drop (pager_new demo_alloc))) = Exited"
  by (rule drop_joins [OF pager_start_duvas]) (simp add: pager_new_def)

text \<open>C22: The worker's atomic steps implement its loop: left alone after \<open>Drop\<close>, the worker ends in
  the state that the loop over the pending commands computes, with an empty channel.\<close>

theorem worker_steps_refine_loop:
  assumes "pager_reach get_domain migrate duvas_step a p" and "worker p = Receiving"
  shows "\<exists>ts. worker_iter get_domain migrate ts (pager_drop p) =
    (run_worker get_domain migrate clock n (channel p) p)\<lparr>channel := [], worker := Exited\<rparr>"
proof -
  have "pager_drop p = p\<lparr>channel := channel p @ [Shutdown], worker := Receiving\<rparr>"
    using assms(2) by (simp add: pager_drop_def send_def)
  with worker_iter_run [of "pager_drop p" "channel p" "[]" get_domain migrate clock n]
    no_shutdown_reach [OF assms(1)]
  show ?thesis by (auto simp: no_shutdown_def run_worker_upd)
qed

theorem worker_steps_refine_loop_witness:
  "\<exists>ts. worker_iter get_domain migrate ts (pager_drop (pager_new demo_alloc)) =
     (pager_new demo_alloc)\<lparr>worker := Exited\<rparr>"
  using worker_steps_refine_loop [OF pager_start_duvas, of demo_alloc "\<lambda>_. NaN" 0]
  by (simp add: pager_new_def)

text \<open>In every reachable state the bandwidth estimate is neither a NaN nor negative, whatever the
  measured times were (a NaN, an infinity and zero included), so an expected transfer time is
  never a NaN.\<close>

theorem bandwidth_estimate_nonneg:
  assumes "pager_reach get_domain migrate duvas_step a p"
  shows "nonneg (bandwidth p) \<and> nonneg (fdiv binary64 block_size_mb (bandwidth p))"
  using nonneg_reach [OF assms] nonneg_fdiv_finite [of "bandwidth p" "2 ^ 52"]
  by (simp add: block_size_mb_eq)

theorem bandwidth_estimate_nonneg_witness:
  "nonneg (bandwidth (pager_new demo_alloc))"
  using bandwidth_estimate_nonneg [OF pager_start_duvas] by blast

text \<open>A layer that is being computed is not protected from eviction.\<close>

lemma active_layer_evicted:
  "get_domain demo_alloc 0x1000000000 = Some LocalDevice \<and>
   get_domain (memory (run_worker get_domain migrate clock n
     (channel (snd (slide_window [0x1000000000] [] [0x1000000000] k (pager_new demo_alloc))))
     (pager_new demo_alloc))) 0x1000000000 = Some Host"
  by (simp add: slide_residence) (simp add: get_domain_def demo_alloc_blocks)

end
