(* ===== verification/Hardware.thy ===== *)
theory Hardware
  imports Ieee_Float
begin

text \<open>
  Hardware detection of \<open>omni-core/src/hardware.rs\<close>: the backends and profiles, the four detectors
  in their priority order and the probe. What the code asks the machine and the compiler (the
  environment, the file system, the number of cores, the \<open>cfg\<close> conditions) is a record that the
  operations read.
\<close>

section \<open>Backends and profiles\<close>

datatype target_backend =
    AmdRocm (gfx_arch: string) (wavefront_size: u32) (compute_units: u32)
  | AppleMetal (chip_name: string) (unified_memory_bytes: usize) (gpu_cores: u32)
  | VulkanGeneric (vulkan_device_name: string) (max_invocations: u32)
  | CpuVectorized (core_count: u32) (simd_width: u32)
  | RemoteP2p (peer_id: string) (latency_us: u64)

fun device_name :: "target_backend \<Rightarrow> string" where
  "device_name (AmdRocm arch w c) = ''AMD Radeon GPU ('' @ arch @ '')''"
| "device_name (AppleMetal chip m c) = chip"
| "device_name (VulkanGeneric dev i) = dev"
| "device_name (CpuVectorized cores simd) =
     ''Host CPU ('' @ dec (unat cores) @ '' Cores, '' @ dec (unat simd) @ ''bit SIMD)''"
| "device_name (RemoteP2p peer l) = ''Remote Peer Node ('' @ peer @ '')''"

datatype operating_system = Linux | MacOs | Windows

record hardware_profile =
  target_backend :: target_backend
  vram_bytes :: usize
  l2_cache_bytes :: usize
  fp16_tflops :: f64
  memory_bandwidth_gbps :: f64
  atomic_support :: bool
  tensor_core_support :: bool
  os :: operating_system

section \<open>The machine\<close>

text \<open>
  \<open>env_var\<close> is \<open>std::env::var\<close> (None for its errors), \<open>path_exists\<close> is \<open>Path::exists\<close>,
  \<open>parallelism\<close> is \<open>available_parallelism\<close> (None for its error; its value is a \<open>NonZeroUsize\<close>),
  the rest are the \<open>cfg\<close> conditions of the build.
\<close>

record machine =
  env_var :: "string \<Rightarrow> string option"
  path_exists :: "string \<Rightarrow> bool"
  parallelism :: "usize option"
  target_os :: string
  target_arch :: string
  target_feature :: "string \<Rightarrow> bool"

definition current_os :: "machine \<Rightarrow> operating_system" where
  "current_os mc =
     (if target_os mc = ''linux'' then Linux
      else if target_os mc = ''macos'' then MacOs
      else if target_os mc = ''windows'' then Windows
      else Linux)"

fun preload_env_var :: "operating_system \<Rightarrow> string" where
  "preload_env_var Linux = ''LD_PRELOAD''"
| "preload_env_var MacOs = ''DYLD_INSERT_LIBRARIES''"
| "preload_env_var Windows = ''N/A (DLL search order hijack)''"

definition forced :: "machine \<Rightarrow> string \<Rightarrow> bool" where
  "forced mc backend \<longleftrightarrow> env_var mc ''OMNI_FORCE_BACKEND'' = Some backend"

section \<open>The detectors\<close>

definition try_detect_amd :: "machine \<Rightarrow> hardware_profile option" where
  "try_detect_amd mc =
     (if forced mc ''amd'' then
        Some \<lparr>target_backend = AmdRocm ''gfx1100'' 32 96,
              vram_bytes = 24 * 1024 * 1024 * 1024,
              l2_cache_bytes = 6 * 1024 * 1024,
              fp16_tflops = literal binary64 123 1,
              memory_bandwidth_gbps = literal binary64 960 1,
              atomic_support = True,
              tensor_core_support = True,
              os = current_os mc\<rparr>
      else if target_os mc = ''linux'' \<and> path_exists mc ''/dev/kfd'' then
        Some \<lparr>target_backend = AmdRocm ''gfx906'' 64 60,
              vram_bytes = 16 * 1024 * 1024 * 1024,
              l2_cache_bytes = 4 * 1024 * 1024,
              fp16_tflops = literal binary64 26 1,
              memory_bandwidth_gbps = literal binary64 512 1,
              atomic_support = True,
              tensor_core_support = False,
              os = Linux\<rparr>
      else None)"

definition try_detect_apple_metal :: "machine \<Rightarrow> hardware_profile option" where
  "try_detect_apple_metal mc =
     (if target_os mc = ''macos'' \<and> target_arch mc = ''aarch64'' then
        Some \<lparr>target_backend = AppleMetal ''Apple Silicon'' (24 * 1024 * 1024 * 1024) 30,
              vram_bytes = 24 * 1024 * 1024 * 1024,
              l2_cache_bytes = 24 * 1024 * 1024,
              fp16_tflops = literal binary64 27 1,
              memory_bandwidth_gbps = literal binary64 300 1,
              atomic_support = True,
              tensor_core_support = True,
              os = MacOs\<rparr>
      else if forced mc ''metal'' then
        Some \<lparr>target_backend = AppleMetal ''Apple M3 Max (simulated)'' (96 * 1024 * 1024 * 1024) 40,
              vram_bytes = 96 * 1024 * 1024 * 1024,
              l2_cache_bytes = 48 * 1024 * 1024,
              fp16_tflops = literal binary64 49 1,
              memory_bandwidth_gbps = literal binary64 400 1,
              atomic_support = True,
              tensor_core_support = True,
              os = current_os mc\<rparr>
      else None)"

definition try_detect_vulkan :: "machine \<Rightarrow> hardware_profile option" where
  "try_detect_vulkan mc =
     (if forced mc ''vulkan'' then
        Some \<lparr>target_backend = VulkanGeneric ''Vulkan Device (simulated)'' 1024,
              vram_bytes = 8 * 1024 * 1024 * 1024,
              l2_cache_bytes = 2 * 1024 * 1024,
              fp16_tflops = literal binary64 10 1,
              memory_bandwidth_gbps = literal binary64 256 1,
              atomic_support = True,
              tensor_core_support = False,
              os = current_os mc\<rparr>
      else None)"

text \<open>The four \<open>cfg\<close> definitions of \<open>simd_width\<close>: of those that apply, the last one counts.\<close>

definition detect_simd_width :: "machine \<Rightarrow> u32" where
  "detect_simd_width mc =
     (let avx512 = target_feature mc ''avx512f''; avx2 = target_feature mc ''avx2'';
          aarch64 = target_arch mc = ''aarch64''
      in if \<not> (avx512 \<or> avx2 \<or> aarch64) then 128
         else if aarch64 \<and> \<not> avx2 then 128
         else if avx2 \<and> \<not> avx512 then 256
         else 512)"

definition cpu_fallback :: "machine \<Rightarrow> hardware_profile" where
  "cpu_fallback mc =
     (let cores = (case parallelism mc of Some n \<Rightarrow> ucast n | None \<Rightarrow> 4)
      in \<lparr>target_backend = CpuVectorized cores (detect_simd_width mc),
          vram_bytes = 8 * 1024 * 1024 * 1024,
          l2_cache_bytes = 1024 * 1024,
          fp16_tflops =
            fmul binary64 (of_unsigned binary64 (unat (cores :: u32))) (literal binary64 1 1000),
          memory_bandwidth_gbps = literal binary64 50 1,
          atomic_support = True,
          tensor_core_support = False,
          os = current_os mc\<rparr>)"

definition probe :: "machine \<Rightarrow> string + hardware_profile" where
  "probe mc =
     (case try_detect_amd mc of
        Some p \<Rightarrow> Inr p
      | None \<Rightarrow>
          (case try_detect_apple_metal mc of
             Some p \<Rightarrow> Inr p
           | None \<Rightarrow>
               (case try_detect_vulkan mc of
                  Some p \<Rightarrow> Inr p
                | None \<Rightarrow> Inr (cpu_fallback mc))))"

lemmas detector_defs =
  try_detect_amd_def try_detect_apple_metal_def try_detect_vulkan_def cpu_fallback_def

text \<open>What the rest of the runtime relies on.\<close>

definition profile_ok :: "hardware_profile \<Rightarrow> bool" where
  "profile_ok p \<longleftrightarrow>
     0 < unat (vram_bytes p) \<and> 0 < unat (l2_cache_bytes p) \<and> atomic_support p \<and>
     (case target_backend p of
        AmdRocm arch w c \<Rightarrow> w = 32 \<or> w = 64
      | AppleMetal chip m c \<Rightarrow> m = vram_bytes p
      | VulkanGeneric dev i \<Rightarrow> 0 < unat i
      | CpuVectorized cores w \<Rightarrow> w \<in> {128, 256, 512}
      | RemoteP2p peer l \<Rightarrow> False)"

section \<open>Properties\<close>

text \<open>The probe never fails and always gives a usable profile of a local device: nonzero memory and
  cache sizes, a wavefront of 32 or 64, all of a unified memory as VRAM, a known SIMD width.\<close>

lemma probe_usable: "\<exists>p. probe mc = Inr p \<and> profile_ok p"
  by (auto simp: probe_def detector_defs profile_ok_def detect_simd_width_def Let_def
      split: option.split if_split)

text \<open>The priority of the probe. A forced AMD backend always wins; but the other values of
  \<open>OMNI_FORCE_BACKEND\<close> are read only after the detectors before them, so on Linux with \<open>/dev/kfd\<close>
  an AMD profile is reported whatever backend is forced, and on an Apple Silicon build a forced
  Vulkan backend is ignored as well.\<close>

theorem probe_priority:
  "(forced mc ''amd'' \<longrightarrow> probe mc = Inr (the (try_detect_amd mc)) \<and> try_detect_amd mc \<noteq> None) \<and>
   (target_os mc = ''linux'' \<and> path_exists mc ''/dev/kfd'' \<and> \<not> forced mc ''amd'' \<longrightarrow>
      map_sum id (gfx_arch \<circ> target_backend) (probe mc) = Inr ''gfx906'') \<and>
   (target_os mc = ''macos'' \<and> target_arch mc = ''aarch64'' \<and> \<not> forced mc ''amd'' \<longrightarrow>
      map_sum id (chip_name \<circ> target_backend) (probe mc) = Inr ''Apple Silicon'') \<and>
   (target_os mc = ''linux'' \<and> \<not> path_exists mc ''/dev/kfd'' \<and> env_var mc ''OMNI_FORCE_BACKEND'' = None \<longrightarrow>
      probe mc = Inr (cpu_fallback mc))"
  by (auto simp: probe_def detector_defs forced_def)

definition kfd_machine :: machine where
  "kfd_machine = \<lparr>env_var = [''OMNI_FORCE_BACKEND'' \<mapsto> ''vulkan''], path_exists = (\<lambda>p. p = ''/dev/kfd''),
     parallelism = Some 8, target_os = ''linux'', target_arch = ''x86_64'', target_feature = (\<lambda>f. False)\<rparr>"

theorem probe_priority_witness:
  "map_sum id (gfx_arch \<circ> target_backend) (probe kfd_machine) = Inr ''gfx906''"
  using probe_priority [of kfd_machine] by (simp add: kfd_machine_def forced_def)

text \<open>The forced backend is ignored when \<open>/dev/kfd\<close> exists.\<close>

lemma forced_vulkan_ignored:
  "forced kfd_machine ''vulkan'' \<and>
   map_sum id (device_name \<circ> target_backend) (probe kfd_machine) = Inr ''AMD Radeon GPU (gfx906)''"
  by (simp add: kfd_machine_def forced_def probe_def detector_defs)

end
