(* ===== verification/Dialect.thy ===== *)
theory Dialect
  imports Ieee_Float
begin

text \<open>
  The \<open>omni.tensor\<close> dialect of \<open>omni-core/src/mlir/dialect.rs\<close>: element and tensor types with
  their sizes and printed form, operations and modules, and the lifter that turns captured kernel
  bytes into a module. Constructors keep the source's names, except where two enums of the file
  share a name or HOL owns it (\<open>OpaqueType\<close>, \<open>FMax\<close>, \<open>FMin\<close>, the \<open>Attr\<close> prefix, the field \<open>output_name\<close>).
\<close>

section \<open>Types\<close>

datatype element_type =
    U8 | I8 | I16 | I32 | I64 | F16 | BF16 | F32 | F64 | F8E4M3 | Bool | OpaqueType

fun byte_width :: "element_type \<Rightarrow> usize" where
  "byte_width U8 = 1"
| "byte_width I8 = 1"
| "byte_width Bool = 1"
| "byte_width F8E4M3 = 1"
| "byte_width I16 = 2"
| "byte_width F16 = 2"
| "byte_width BF16 = 2"
| "byte_width I32 = 4"
| "byte_width F32 = 4"
| "byte_width I64 = 8"
| "byte_width F64 = 8"
| "byte_width OpaqueType = 0"

definition is_float :: "element_type \<Rightarrow> bool" where
  "is_float t \<longleftrightarrow> t \<in> {F8E4M3, F16, BF16, F32, F64}"

fun mlir_name :: "element_type \<Rightarrow> string" where
  "mlir_name U8 = ''ui8''"
| "mlir_name I8 = ''i8''"
| "mlir_name I16 = ''i16''"
| "mlir_name I32 = ''i32''"
| "mlir_name I64 = ''i64''"
| "mlir_name F16 = ''f16''"
| "mlir_name BF16 = ''bf16''"
| "mlir_name F32 = ''f32''"
| "mlir_name F64 = ''f64''"
| "mlir_name F8E4M3 = ''f8E4M3FN''"
| "mlir_name Bool = ''i1''"
| "mlir_name OpaqueType = ''opaque''"

datatype memory_encoding = RowMajor | ColumnMajor | Tiled "i64 list" | Sparse

record tensor_type =
  shape :: "i64 option list"
  elem_type :: element_type
  encoding :: memory_encoding

definition static_tensor :: "i64 list \<Rightarrow> element_type \<Rightarrow> tensor_type" where
  "static_tensor dims et = \<lparr>shape = map Some dims, elem_type = et, encoding = RowMajor\<rparr>"

definition dynamic_tensor :: "nat \<Rightarrow> element_type \<Rightarrow> tensor_type" where
  "dynamic_tensor r et = \<lparr>shape = replicate r None, elem_type = et, encoding = RowMajor\<rparr>"

definition rank :: "tensor_type \<Rightarrow> nat" where
  "rank t = length (shape t)"

text \<open>\<open>try_fold\<close> with a wrapping product.\<close>

fun try_product :: "i64 \<Rightarrow> i64 option list \<Rightarrow> i64 option" where
  "try_product acc [] = Some acc"
| "try_product acc (None # ds) = None"
| "try_product acc (Some d # ds) = try_product (acc * d) ds"

definition num_elements :: "tensor_type \<Rightarrow> i64 option" where
  "num_elements t = try_product 1 (shape t)"

definition byte_size :: "tensor_type \<Rightarrow> usize option" where
  "byte_size t = map_option (\<lambda>n. n * byte_width (elem_type t)) (num_elements t)"

fun show_dim :: "i64 option \<Rightarrow> string" where
  "show_dim (Some d) = dec_int (sint d)"
| "show_dim None = ''?''"

text \<open>The loop of \<open>Display\<close>: a separator before every dimension but the first.\<close>

fun show_dims :: "bool \<Rightarrow> i64 option list \<Rightarrow> string" where
  "show_dims first [] = []"
| "show_dims first (d # ds) = (if first then [] else ''x'') @ show_dim d @ show_dims False ds"

definition show_tensor :: "tensor_type \<Rightarrow> string" where
  "show_tensor t = ''tensor<'' @ show_dims True (shape t) @ ''x'' @ mlir_name (elem_type t) @ ''>''"

section \<open>Operations\<close>

datatype unary_func =
    Exp | Log | Sqrt | Rsqrt | Abs | Neg | Ceil | Floor | Round | Cos | Sin | Tan | Erf

datatype binary_func = Pow | FMax | FMin | Mod | Atan2

datatype op_kind =
    MatMul | BatchedMatMul | Gemv
  | Conv usize | ConvTranspose usize | DepthwiseConv
  | ScaledDotProductAttention bool | MultiHeadAttention u32
  | Add | Mul | Div | Sub | UnaryFunc unary_func | BinaryFunc binary_func
  | Relu | Sigmoid | Tanh | Gelu | Silu | Softmax i32
  | LayerNorm f64 | GroupNorm u32 f64 | RmsNorm f64
  | ReduceSum "i32 list" bool | ReduceMean "i32 list" bool | ReduceMax "i32 list" bool
  | Reshape | Transpose "u32 list" | Concat i32 | Split i32 "i64 list" | Broadcast
  | Gather i32 | Scatter i32
  | MemCopy | Fill f64
  | Opaque u64

datatype attr_value =
    AttrInt i64 | AttrFloat f64 | AttrBool bool | AttrString string | AttrIntList "i64 list"

record omni_op =
  op_id :: u64
  kind :: op_kind
  inputs :: "string list"
  output_name :: string
  op_attrs :: "string \<rightharpoonup> attr_value"
  result_type :: tensor_type

record omni_module =
  ops :: "omni_op list"
  value_types :: "string \<rightharpoonup> tensor_type"
  module_attrs :: "string \<rightharpoonup> attr_value"
  next_id :: u64

definition module_new :: omni_module where
  "module_new = \<lparr>ops = [], value_types = Map.empty, module_attrs = Map.empty, next_id = 0\<rparr>"

definition push_op :: "omni_op \<Rightarrow> omni_module \<Rightarrow> u64 \<times> omni_module" where
  "push_op oper m =
     (let n = next_id m; oper = oper\<lparr>op_id := n\<rparr>;
          m = m\<lparr>next_id := next_id m + 1\<rparr>;
          m = m\<lparr>value_types := (value_types m)(output_name oper \<mapsto> result_type oper)\<rparr>;
          m = m\<lparr>ops := ops m @ [oper]\<rparr>
      in (n, m))"

definition op_count :: "omni_module \<Rightarrow> nat" where
  "op_count m = length (ops m)"

definition value_type :: "omni_module \<Rightarrow> string \<Rightarrow> tensor_type option" where
  "value_type m name = value_types m name"

section \<open>The lifter\<close>

record ir_lifter =
  value_counter :: u64

definition lifter_new :: ir_lifter where
  "lifter_new = \<lparr>value_counter = 0\<rparr>"

definition fresh_value :: "ir_lifter \<Rightarrow> string \<times> ir_lifter" where
  "fresh_value l =
     (''v'' @ dec (unat (value_counter l)), l\<lparr>value_counter := value_counter l + 1\<rparr>)"

definition hash_bytes :: "u8 list \<Rightarrow> u64" where
  "hash_bytes bs = foldl (\<lambda>acc b. acc * 0x00000100000001b3 + ucast b) 0xcbf29ce484222325 bs"

text \<open>\<open>std::str::from_utf8\<close>: the well-formed byte sequences of UTF-8.\<close>

definition cont_byte :: "u8 \<Rightarrow> bool" where
  "cont_byte b \<longleftrightarrow> 0x80 \<le> b \<and> b \<le> 0xBF"

fun utf8_valid :: "u8 list \<Rightarrow> bool" where
  "utf8_valid [] = True"
| "utf8_valid (a # bs) =
     (if a < 0x80 then utf8_valid bs
      else if 0xC2 \<le> a \<and> a \<le> 0xDF then
        (case bs of b # bs \<Rightarrow> cont_byte b \<and> utf8_valid bs | _ \<Rightarrow> False)
      else if 0xE0 \<le> a \<and> a \<le> 0xEF then
        (case bs of b # c # bs \<Rightarrow>
             cont_byte b \<and> (a = 0xE0 \<longrightarrow> 0xA0 \<le> b) \<and> (a = 0xED \<longrightarrow> b \<le> 0x9F) \<and>
             cont_byte c \<and> utf8_valid bs
         | _ \<Rightarrow> False)
      else if 0xF0 \<le> a \<and> a \<le> 0xF4 then
        (case bs of b # c # d # bs \<Rightarrow>
             cont_byte b \<and> (a = 0xF0 \<longrightarrow> 0x90 \<le> b) \<and> (a = 0xF4 \<longrightarrow> b \<le> 0x8F) \<and>
             cont_byte c \<and> cont_byte d \<and> utf8_valid bs
         | _ \<Rightarrow> False)
      else False)"

definition ptx_text :: "u8 list \<Rightarrow> string" where
  "ptx_text ptx_bytes =
     (if utf8_valid ptx_bytes then string_of_bytes ptx_bytes else ''<binary cubin>'')"

definition classify_ptx :: "u8 list \<Rightarrow> op_kind" where
  "classify_ptx ptx_bytes =
     (let ptx_str = ptx_text ptx_bytes in
      if contains_str ptx_str ''mma.sync'' \<or> contains_str ptx_str ''wmma'' then MatMul
      else if contains_str ptx_str ''ex2.approx'' \<and> contains_str ptx_str ''div.approx'' then
        Softmax (- 1)
      else if contains_str ptx_str ''tanh.approx'' \<or> contains_str ptx_str ''ex2.approx'' then
        UnaryFunc Exp
      else Opaque (hash_bytes ptx_bytes))"

definition lift_ptx ::
  "u8 list \<Rightarrow> u64 \<Rightarrow> ir_lifter \<Rightarrow> (string + omni_module) \<times> ir_lifter" where
  "lift_ptx ptx_bytes kernel_id l =
     (let m = module_new;
          knd = classify_ptx ptx_bytes;
          (input_a, l) = fresh_value l;
          (input_b, l) = fresh_value l;
          (out, l) = fresh_value l;
          oper = \<lparr>op_id = 0, kind = knd, inputs = [input_a, input_b], output_name = out,
                op_attrs = Map.empty, result_type = dynamic_tensor 2 F16\<rparr>;
          m = m\<lparr>value_types := (value_types m)(input_a \<mapsto> dynamic_tensor 2 F16)\<rparr>;
          m = m\<lparr>value_types := (value_types m)(input_b \<mapsto> dynamic_tensor 2 F16)\<rparr>;
          (_, m) = push_op oper m
      in (Inr m, l))"

section \<open>Sizes\<close>

lemma try_product_eq:
  "try_product acc ds = (if None \<in> set ds then None else Some (acc * prod_list (map the ds)))"
  by (induction acc ds rule: try_product.induct) (auto simp: mult.assoc)

lemma byte_size_eq:
  "byte_size t = (if None \<in> set (shape t) then None
     else Some (prod_list (map the (shape t)) * byte_width (elem_type t)))"
  by (simp add: byte_size_def num_elements_def try_product_eq)

lemma of_nat_prod_list: "(word_of_nat (prod_list ns) :: u64) = prod_list (map word_of_nat ns)"
  by (induction ns) simp_all

section \<open>Printed types\<close>

text \<open>No printed dimension and no type name contains the separator.\<close>

lemma show_dim_no_x: "CHR ''x'' \<notin> set (show_dim d)"
  using set_dec [of "CHR ''x''"] by (cases d) (auto simp: dec_int_def)

lemma mlir_name_no_x: "CHR ''x'' \<notin> set (mlir_name t)"
  by (cases t) simp_all

lemma mlir_name_inject: "mlir_name s = mlir_name t \<longleftrightarrow> s = t"
  by (cases s; cases t) simp_all

lemma show_dim_inject: "show_dim c = show_dim d \<longleftrightarrow> c = d"
proof -
  have "dec n \<noteq> ''?''" for n
    using set_dec [of "CHR ''?''" n] by (intro notI) simp
  then have "dec_int i \<noteq> ''?''" for i
    by (simp add: dec_int_def)
  then show ?thesis
    by (cases c; cases d)
      (auto simp: eq_commute [of "''?''"] intro: word_eq_iff_signed [THEN iffD2])
qed

lemma split_show_dims:
  "CHR ''x'' \<notin> set s \<Longrightarrow>
     split_on CHR ''x'' (show_dim d @ show_dims False ds @ CHR ''x'' # s) =
       show_dim d # map show_dim ds @ [s]"
  by (induction ds arbitrary: d) (simp_all add: show_dim_no_x)

lemma split_show_dims_first:
  "CHR ''x'' \<notin> set s \<Longrightarrow>
     split_on CHR ''x'' (show_dims True ds @ CHR ''x'' # s) =
       (if ds = [] then [[]] else map show_dim ds) @ [s]"
  by (cases ds) (simp_all add: split_show_dims)

lemma show_dim_nonempty: "show_dim d \<noteq> []"
  by (cases d) (simp_all add: dec_int_def)

lemma map_show_dim_inject: "map show_dim cs = map show_dim ds \<longleftrightarrow> cs = ds"
  by (intro inj_map_eq_map injI) (simp add: show_dim_inject)

lemma append_Cons_snoc: "as @ b # bs @ [c] = ds @ e # fs @ [c] \<longleftrightarrow> as @ b # bs = ds @ e # fs"
  using append1_eq_conv [of "as @ b # bs" c "ds @ e # fs" c] by simp

lemma show_tensor_inject:
  assumes "show_tensor t = show_tensor u"
  shows "shape t = shape u \<and> elem_type t = elem_type u"
proof -
  let ?tokens = "\<lambda>t. (if shape t = [] then [[]] else map show_dim (shape t))"
  let ?line = "\<lambda>t. show_dims True (shape t) @ CHR ''x'' # mlir_name (elem_type t)"
  from assms have "?line t = ?line u"
    by (simp add: show_tensor_def append_Cons_snoc)
  then have "split_on CHR ''x'' (?line t) = split_on CHR ''x'' (?line u)" by simp
  then have eq: "?tokens t = ?tokens u \<and> mlir_name (elem_type t) = mlir_name (elem_type u)"
    by (simp only: split_show_dims_first [OF mlir_name_no_x] append1_eq_conv)
  moreover have "shape t = shape u"
    using eq show_dim_nonempty show_dim_nonempty [symmetric]
    by (auto simp: map_show_dim_inject Cons_eq_map_conv split: if_splits)
  ultimately show ?thesis by (simp add: mlir_name_inject)
qed

section \<open>Modules\<close>

text \<open>What \<open>push_op\<close> keeps: operations are numbered in order and every output has its type.\<close>

definition module_wf :: "omni_module \<Rightarrow> bool" where
  "module_wf m \<longleftrightarrow>
     next_id m = word_of_nat (op_count m) \<and>
     (\<forall>i < op_count m. op_id (ops m ! i) = word_of_nat i) \<and>
     (\<forall>p \<in> set (ops m). output_name p \<in> dom (value_types m))"

lemma module_wf_new: "module_wf module_new"
  by (simp add: module_wf_def module_new_def op_count_def)

lemma module_wf_push: "module_wf m \<Longrightarrow> module_wf (snd (push_op p m))"
  by (auto simp: module_wf_def push_op_def op_count_def Let_def nth_append less_Suc_eq)

lemma lift_ptx_eq:
  "lift_ptx bs kid l =
     (let v = \<lambda>i. ''v'' @ dec (unat (value_counter l + i)) in
      (Inr \<lparr>ops = [\<lparr>op_id = 0, kind = classify_ptx bs, inputs = [v 0, v 1], output_name = v 2,
                      op_attrs = Map.empty, result_type = dynamic_tensor 2 F16\<rparr>],
            value_types = [v 0 \<mapsto> dynamic_tensor 2 F16, v 1 \<mapsto> dynamic_tensor 2 F16,
                           v 2 \<mapsto> dynamic_tensor 2 F16],
            module_attrs = Map.empty, next_id = 1\<rparr>,
       l\<lparr>value_counter := value_counter l + 3\<rparr>))"
  by (simp add: lift_ptx_def fresh_value_def push_op_def module_new_def Let_def add.commute)

section \<open>Properties\<close>

text \<open>The printed form of a tensor type determines its shape (static and dynamic dimensions,
  negative ones and rank 0 included) and its element type; only the encoding is not printed.\<close>

theorem tensor_display_injective:
  assumes "show_tensor t = show_tensor u"
  shows "shape t = shape u \<and> elem_type t = elem_type u"
  using assms by (rule show_tensor_inject)

theorem tensor_display_injective_witness:
  "shape (static_tensor [128, 256] F16) =
     shape (\<lparr>shape = [Some 128, Some 256], elem_type = F16, encoding = Sparse\<rparr>)"
  using tensor_display_injective [of "static_tensor [128, 256] F16"
      "\<lparr>shape = [Some 128, Some 256], elem_type = F16, encoding = Sparse\<rparr>"]
  by (simp add: show_tensor_def static_tensor_def)

text \<open>The byte size of a static tensor is the exact product of its dimensions and the element
  width whenever that product is below \<open>2 ^ 64\<close>, although the code multiplies wrapping \<open>i64\<close>
  values (a zero dimension after an overflowing prefix included); a tensor with a dynamic
  dimension has no size.\<close>

theorem byte_size_exact:
  assumes "prod_list dims * unat (byte_width et) < 2 ^ 64"
  shows "map_option unat (byte_size (static_tensor (map word_of_nat dims) et)) =
           Some (prod_list dims * unat (byte_width et)) \<and>
         (byte_size t = None \<longleftrightarrow> None \<in> set (shape t))"
proof -
  have "byte_size (static_tensor (map word_of_nat dims) et) =
      Some (word_of_nat (prod_list dims * unat (byte_width et)))"
    by (auto simp: byte_size_eq static_tensor_def of_nat_prod_list comp_def)
  moreover have "unat (word_of_nat (prod_list dims * unat (byte_width et)) :: u64) =
      prod_list dims * unat (byte_width et)"
    using assms by (simp add: unat_of_nat del: of_nat_mult)
  ultimately show ?thesis by (simp add: byte_size_eq)
qed

theorem byte_size_exact_witness:
  "map_option unat (byte_size (static_tensor [4294967296, 4294967296, 0] F32)) = Some 0"
  using byte_size_exact [of "[4294967296, 4294967296, 0]" F32] by simp

text \<open>C36: Lifting never fails. It gives a well-formed module of one operation over fresh, pairwise
  distinct values, all of them typed, whose kind is \<open>MatMul\<close> when the text mentions a matrix
  instruction; anything without one of the five patterns, and every byte string that is not
  UTF-8, becomes an opaque operation that carries the hash of its bytes.\<close>

theorem lift_ptx_wellformed:
  "\<exists>m p a b. fst (lift_ptx bs kid l) = Inr m \<and> module_wf m \<and> ops m = [p] \<and>
     inputs p = [a, b] \<and> distinct [a, b, output_name p] \<and> dom (value_types m) = {a, b, output_name p} \<and>
     (sublist ''mma.sync'' (ptx_text bs) \<or> sublist ''wmma'' (ptx_text bs) \<longrightarrow> kind p = MatMul) \<and>
     ((\<forall>pat \<in> {''mma.sync'', ''wmma'', ''ex2.approx'', ''tanh.approx''}. \<not> sublist pat (ptx_text bs))
        \<longrightarrow> kind p = Opaque (hash_bytes bs)) \<and>
     (\<not> utf8_valid bs \<longrightarrow> kind p = Opaque (hash_bytes bs))"
proof -
  have d: "value_counter l \<noteq> value_counter l + 1" "value_counter l \<noteq> value_counter l + 2"
    "value_counter l + 1 \<noteq> value_counter l + 2"
    by auto
  have "\<not> utf8_valid bs \<Longrightarrow> classify_ptx bs = Opaque (hash_bytes bs)"
    by (simp add: classify_ptx_def ptx_text_def)
  moreover have "(\<forall>pat \<in> {''mma.sync'', ''wmma'', ''ex2.approx'', ''tanh.approx''}.
      \<not> sublist pat (ptx_text bs)) \<Longrightarrow> classify_ptx bs = Opaque (hash_bytes bs)"
    by (simp add: classify_ptx_def contains_str_iff)
  moreover have "sublist ''mma.sync'' (ptx_text bs) \<or> sublist ''wmma'' (ptx_text bs) \<Longrightarrow> classify_ptx bs = MatMul"
    by (simp add: classify_ptx_def contains_str_iff)
  ultimately show ?thesis
    using d [unfolded word_unat_eq_iff] by (auto simp: lift_ptx_eq Let_def module_wf_def op_count_def)
qed

theorem lift_ptx_wellformed_witness:
  "\<exists>m p. fst (lift_ptx (bytes_of ''wgmma.mma.sync'') 0 lifter_new) = Inr m \<and> ops m = [p] \<and> kind p = MatMul"
proof -
  have "sublist ''mma.sync'' (ptx_text (bytes_of ''wgmma.mma.sync''))"
    unfolding contains_str_iff [symmetric] by code_simp
  then show ?thesis
    using lift_ptx_wellformed [of "bytes_of ''wgmma.mma.sync''" 0 lifter_new] by blast
qed

end
