(* ===== verification/Passes.thy ===== *)
theory Passes
  imports Dialect Hardware
begin

text \<open>
  The optimization passes of \<open>omni-core/src/mlir/passes.rs\<close>: constant folding, operator fusion,
  loop tiling, dead code elimination and the pipeline that runs them. A reference semantics of
  operation sequences over tensors of \<open>f64\<close> says what the passes have to preserve; matrix
  products and the other primitives are an argument of it.
\<close>

section \<open>Constant folding\<close>

text \<open>Indexing \<open>op.inputs[1]\<close> out of range panics.\<close>

datatype pass_panic = IndexOutOfBounds nat

text \<open>The two folding arms: \<open>combine\<close> is the addition or the multiplication of \<open>f64\<close>.\<close>

definition fold_binary ::
  "(f64 \<Rightarrow> f64 \<Rightarrow> f64) \<Rightarrow> (string \<rightharpoonup> f64) \<Rightarrow> omni_op \<Rightarrow> pass_panic + (string \<rightharpoonup> f64) \<times> omni_op" where
  "fold_binary combine constants p =
     (case inputs p of
        [] \<Rightarrow> Inl (IndexOutOfBounds 0)
      | [a] \<Rightarrow> Inl (IndexOutOfBounds 1)
      | a # b # rest \<Rightarrow>
          (let val = combine (the (constants a)) (the (constants b))
           in Inr (constants(output_name p \<mapsto> val), p\<lparr>kind := Fill val\<rparr>)))"

definition fold_op ::
  "(string \<rightharpoonup> f64) \<Rightarrow> omni_op \<Rightarrow> pass_panic + (string \<rightharpoonup> f64) \<times> omni_op" where
  "fold_op constants p =
     (let all_constant = list_all (\<lambda>i. constants i \<noteq> None) (inputs p) in
      case kind p of
        Fill val \<Rightarrow> Inr (constants(output_name p \<mapsto> val), p)
      | Add \<Rightarrow> (if all_constant then fold_binary (fadd binary64) constants p else Inr (constants, p))
      | Mul \<Rightarrow> (if all_constant then fold_binary (fmul binary64) constants p else Inr (constants, p))
      | _ \<Rightarrow> Inr (constants, p))"

fun fold_ops :: "(string \<rightharpoonup> f64) \<Rightarrow> omni_op list \<Rightarrow> pass_panic + omni_op list" where
  "fold_ops constants [] = Inr []"
| "fold_ops constants (p # ps) =
     (case fold_op constants p of
        Inl e \<Rightarrow> Inl e
      | Inr (constants', q) \<Rightarrow> map_sum id ((#) q) (fold_ops constants' ps))"

definition run_constant_folding :: "omni_module \<Rightarrow> pass_panic + omni_module" where
  "run_constant_folding m = map_sum id (\<lambda>qs. m\<lparr>ops := qs\<rparr>) (fold_ops Map.empty (ops m))"

section \<open>Operator fusion\<close>

text \<open>\<open>{:?}\<close> of the four kinds that are fused.\<close>

fun activation_name :: "op_kind \<Rightarrow> string" where
  "activation_name Relu = ''Relu''"
| "activation_name Gelu = ''Gelu''"
| "activation_name Silu = ''Silu''"
| "activation_name Add = ''Add''"
| "activation_name k = []"

definition fusible :: "omni_op \<Rightarrow> omni_op \<Rightarrow> bool" where
  "fusible current_op next_op \<longleftrightarrow>
     (kind current_op = MatMul \<or> kind current_op = BatchedMatMul) \<and>
     output_name current_op \<in> set (inputs next_op) \<and>
     (kind next_op = Relu \<or> kind next_op = Gelu \<or> kind next_op = Silu \<or> kind next_op = Add)"

definition fuse :: "omni_op \<Rightarrow> omni_op \<Rightarrow> omni_op" where
  "fuse current_op next_op =
     (let f = current_op\<lparr>op_attrs := (op_attrs current_op)
                (''fused_activation'' \<mapsto> AttrString (activation_name (kind next_op)))\<rparr>;
          f = (if kind next_op = Add
               then f\<lparr>inputs := inputs f @ filter (\<lambda>i. i \<noteq> output_name current_op) (inputs next_op)\<rparr>
               else f);
          f = f\<lparr>output_name := output_name next_op\<rparr>
      in f\<lparr>result_type := result_type next_op\<rparr>)"

text \<open>The loop over the indices: after a fusion the next index is skipped.\<close>

fun fuse_ops :: "omni_op list \<Rightarrow> omni_op list" where
  "fuse_ops [] = []"
| "fuse_ops [p] = [p]"
| "fuse_ops (p # q # ps) =
     (if fusible p q then fuse p q # fuse_ops ps else p # fuse_ops (q # ps))"

definition run_operator_fusion :: "omni_module \<Rightarrow> omni_module" where
  "run_operator_fusion m = (if ops m = [] then m else m\<lparr>ops := fuse_ops (ops m)\<rparr>)"

section \<open>Loop tiling\<close>

fun tile_size :: "target_backend \<Rightarrow> i64" where
  "tile_size (AmdRocm g w c) = 64"
| "tile_size (AppleMetal n b c) = 32"
| "tile_size (VulkanGeneric n i) = 16"
| "tile_size (CpuVectorized c w) = 8"
| "tile_size (RemoteP2p p l) = 8"

definition tile_op :: "i64 \<Rightarrow> omni_op \<Rightarrow> omni_op" where
  "tile_op tile p =
     (if kind p = MatMul \<or> kind p = BatchedMatMul
      then p\<lparr>op_attrs := (op_attrs p)(''tile_m'' \<mapsto> AttrInt tile, ''tile_n'' \<mapsto> AttrInt tile,
                ''tile_k'' \<mapsto> AttrInt 16, ''vector_width'' \<mapsto> AttrInt 4)\<rparr>
      else p)"

definition run_loop_tiling :: "hardware_profile \<Rightarrow> omni_module \<Rightarrow> omni_module" where
  "run_loop_tiling hw m = m\<lparr>ops := map (tile_op (tile_size (target_backend hw))) (ops m)\<rparr>"

section \<open>Dead code elimination\<close>

text \<open>The sweep over the reversed operations, with the set of referenced values.\<close>

fun dce_sweep :: "nat \<Rightarrow> string set \<Rightarrow> omni_op list \<Rightarrow> omni_op list" where
  "dce_sweep count referenced [] = []"
| "dce_sweep count referenced (p # ps) =
     (let is_root = (op_id p = word_of_nat (count - 1)) in
      if is_root \<or> output_name p \<in> referenced
      then p # dce_sweep count (set (inputs p) \<union> referenced) ps
      else dce_sweep count referenced ps)"

definition run_dce :: "omni_module \<Rightarrow> omni_module" where
  "run_dce m = m\<lparr>ops := rev (dce_sweep (op_count m) {} (rev (ops m)))\<rparr>"

section \<open>The pipeline\<close>

definition run_passes :: "hardware_profile \<Rightarrow> omni_module \<Rightarrow> pass_panic + omni_module" where
  "run_passes hw m =
     (case run_constant_folding m of
        Inl e \<Rightarrow> Inl e
      | Inr m1 \<Rightarrow>
          (let m2 = run_operator_fusion m1; m3 = run_loop_tiling hw m2; m4 = run_dce m3
           in Inr m4))"

section \<open>Reference semantics\<close>

text \<open>
  A tensor is a function from indices to \<open>f64\<close>. \<open>Fill\<close>, \<open>Add\<close> and \<open>Mul\<close> are pointwise; every
  other kind is given by the argument \<open>prim\<close>. A matrix product that carries a fused activation
  applies it to the product of its first two operands (and, for \<open>Add\<close>, to the operands that
  follow).
\<close>

type_synonym tensor = "nat list \<Rightarrow> f64"
type_synonym primitives = "op_kind \<Rightarrow> tensor list \<Rightarrow> tensor"

definition pointwise :: "(f64 \<Rightarrow> f64 \<Rightarrow> f64) \<Rightarrow> tensor list \<Rightarrow> tensor" where
  "pointwise f vs = (\<lambda>i. f ((vs ! 0) i) ((vs ! 1) i))"

definition kind_value :: "primitives \<Rightarrow> op_kind \<Rightarrow> tensor list \<Rightarrow> tensor" where
  "kind_value prim k vs =
     (case k of
        Fill c \<Rightarrow> (\<lambda>i. c)
      | Add \<Rightarrow> (if length vs = 2 then pointwise (fadd binary64) vs else prim k vs)
      | Mul \<Rightarrow> (if length vs = 2 then pointwise (fmul binary64) vs else prim k vs)
      | _ \<Rightarrow> prim k vs)"

definition activation_kind :: "string \<Rightarrow> op_kind" where
  "activation_kind a =
     (if a = ''Relu'' then Relu else if a = ''Gelu'' then Gelu else if a = ''Silu'' then Silu else Add)"

definition fused_with :: "omni_op \<Rightarrow> op_kind option" where
  "fused_with p =
     (case op_attrs p ''fused_activation'' of
        Some (AttrString a) \<Rightarrow> Some (activation_kind a) | _ \<Rightarrow> None)"

definition op_value :: "primitives \<Rightarrow> omni_op \<Rightarrow> (string \<Rightarrow> tensor) \<Rightarrow> tensor" where
  "op_value prim p env =
     (let vs = map env (inputs p) in
      case fused_with p of
        None \<Rightarrow> kind_value prim (kind p) vs
      | Some k \<Rightarrow> kind_value prim k (kind_value prim (kind p) (take 2 vs) # drop 2 vs))"

fun exec :: "primitives \<Rightarrow> omni_op list \<Rightarrow> (string \<Rightarrow> tensor) \<Rightarrow> string \<Rightarrow> tensor" where
  "exec prim [] env = env"
| "exec prim (p # ps) env = exec prim ps (env(output_name p := op_value prim p env))"

lemma exec_append: "exec prim (ps @ qs) env = exec prim qs (exec prim ps env)"
  by (induction ps arbitrary: env) auto

section \<open>Folding preserves the semantics\<close>

text \<open>Two operands for an addition or a multiplication, and no fusion attribute yet.\<close>

definition op_ok :: "omni_op \<Rightarrow> bool" where
  "op_ok p \<longleftrightarrow>
     fused_with p = None \<and> (kind p = Add \<or> kind p = Mul \<longrightarrow> length (inputs p) = 2)"

definition ssa :: "omni_op list \<Rightarrow> bool" where
  "ssa ps \<longleftrightarrow> distinct (map output_name ps)"

text \<open>The table of constants agrees with the values computed so far.\<close>

definition constants_ok :: "(string \<rightharpoonup> f64) \<Rightarrow> (string \<Rightarrow> tensor) \<Rightarrow> bool" where
  "constants_ok constants env \<longleftrightarrow> (\<forall>x c. constants x = Some c \<longrightarrow> env x = (\<lambda>i. c))"

lemma constants_ok_upd:
  "constants_ok cs env \<Longrightarrow> constants_ok (cs(x \<mapsto> c)) (env(x := (\<lambda>i. c)))"
  by (simp add: constants_ok_def)

lemma constants_ok_other:
  "constants_ok cs env \<Longrightarrow> x \<notin> dom cs \<Longrightarrow> constants_ok cs (env(x := v))"
  by (auto simp: constants_ok_def)

lemma two_inputs: "length xs = 2 \<longleftrightarrow> (\<exists>a b. xs = [a, b])"
  by (cases xs rule: remdups_adj.cases) auto

lemma fused_with_kind [simp]: "fused_with (p\<lparr>kind := k\<rparr>) = fused_with p"
  by (simp add: fused_with_def)

lemma fold_op_sound:
  assumes "op_ok p" and "constants_ok cs env" and "output_name p \<notin> dom cs"
  shows "\<exists>cs' q. fold_op cs p = Inr (cs', q) \<and> output_name q = output_name p \<and> inputs q = inputs p \<and>
    op_id q = op_id p \<and> op_attrs q = op_attrs p \<and>
    (kind q = kind p \<or> (\<exists>c. kind q = Fill c)) \<and> op_value prim q env = op_value prim p env \<and> dom cs' \<subseteq> insert (output_name p) (dom cs) \<and>
    constants_ok cs' (env(output_name p := op_value prim p env))"
proof -
  have binary: "\<exists>cs' q. fold_binary f cs p = Inr (cs', q) \<and> output_name q = output_name p \<and>
      inputs q = inputs p \<and> op_id q = op_id p \<and> op_attrs q = op_attrs p \<and>
      (kind q = kind p \<or> (\<exists>c. kind q = Fill c)) \<and> op_value prim q env = op_value prim p env \<and> dom cs' \<subseteq> insert (output_name p) (dom cs) \<and>
      constants_ok cs' (env(output_name p := op_value prim p env))"
    if f: "kind p = k" "k = Add \<and> f = fadd binary64 \<or> k = Mul \<and> f = fmul binary64"
      and all: "list_all (\<lambda>i. cs i \<noteq> None) (inputs p)" for f k
  proof -
    from assms(1) f obtain a b where ab: "inputs p = [a, b]"
      by (auto simp: op_ok_def two_inputs)
    with all obtain c d where cd: "cs a = Some c" "cs b = Some d" by auto
    with assms(2) have "env a = (\<lambda>i. c)" "env b = (\<lambda>i. d)" by (auto simp: constants_ok_def)
    with f ab assms(1) have v: "op_value prim p env = (\<lambda>i. f c d)"
      by (auto simp: op_value_def op_ok_def kind_value_def pointwise_def Let_def)
    have q: "op_value prim (p\<lparr>kind := Fill (f c d)\<rparr>) env = (\<lambda>i. f c d)"
      using assms(1) by (simp add: op_value_def op_ok_def kind_value_def Let_def)
    show ?thesis
      using ab cd v q assms(2) by (auto simp: fold_binary_def Let_def constants_ok_upd)
  qed
  have skip: ?thesis if "fold_op cs p = Inr (cs, p)"
    using that assms(2,3) by (auto simp: constants_ok_other)
  show ?thesis
  proof (cases "kind p = Add \<or> kind p = Mul")
    case True
    then show ?thesis
      using binary [of Add "fadd binary64"] binary [of Mul "fmul binary64"] skip
      by (auto simp: fold_op_def Let_def)
  next
    case False
    show ?thesis
    proof (cases "\<exists>c. kind p = Fill c")
      case True
      then obtain c where c: "kind p = Fill c" by blast
      with assms(1) have "op_value prim p env = (\<lambda>i. c)"
        by (simp add: op_value_def op_ok_def kind_value_def Let_def)
      with c assms(2) show ?thesis by (auto simp: fold_op_def Let_def constants_ok_upd)
    next
      case no_fill: False
      have "fold_op cs p = Inr (cs, p)"
        using False no_fill by (cases "kind p") (auto simp: fold_op_def Let_def)
      then show ?thesis by (rule skip)
    qed
  qed
qed

text \<open>What folding keeps of an operation.\<close>

definition folded :: "omni_op \<Rightarrow> omni_op \<Rightarrow> bool" where
  "folded p q \<longleftrightarrow>
     output_name q = output_name p \<and> inputs q = inputs p \<and> op_id q = op_id p \<and>
     op_attrs q = op_attrs p \<and> (kind q = kind p \<or> (\<exists>c. kind q = Fill c))"

lemma fold_ops_sound:
  assumes "list_all op_ok ps" and "ssa ps" and "constants_ok cs env"
    and "dom cs \<inter> set (map output_name ps) = {}"
  shows "\<exists>qs. fold_ops cs ps = Inr qs \<and> exec prim qs env = exec prim ps env \<and> list_all2 folded ps qs"
  using assms
proof (induction ps arbitrary: cs env)
  case (Cons p ps)
  then obtain cs' q where q: "fold_op cs p = Inr (cs', q)" "folded p q"
    "op_value prim q env = op_value prim p env" "dom cs' \<subseteq> insert (output_name p) (dom cs)"
    "constants_ok cs' (env(output_name p := op_value prim p env))"
    using fold_op_sound [of p cs env prim] by (auto simp: folded_def)
  have "output_name p \<notin> set (map output_name ps)" "dom cs \<inter> set (map output_name ps) = {}"
    using Cons.prems by (auto simp: ssa_def)
  with q(4) have "dom cs' \<inter> set (map output_name ps) = {}" by blast
  then have "\<exists>qs. fold_ops cs' ps = Inr qs \<and>
      exec prim qs (env(output_name p := op_value prim p env)) =
      exec prim ps (env(output_name p := op_value prim p env)) \<and> list_all2 folded ps qs"
    using Cons.prems by (intro Cons.IH q(5)) (auto simp: ssa_def)
  moreover have "output_name q = output_name p" using q(2) by (simp add: folded_def)
  ultimately show ?case using q by auto
qed simp

section \<open>Fusion preserves the semantics\<close>

definition reads :: "omni_op list \<Rightarrow> string set" where
  "reads ps = (\<Union>p\<in>set ps. set (inputs p))"

lemma reads_Cons [simp]: "reads (p # ps) = set (inputs p) \<union> reads ps"
  by (simp add: reads_def)

lemma op_value_cong:
  "\<forall>x \<in> set (inputs p). env1 x = env2 x \<Longrightarrow> op_value prim p env1 = op_value prim p env2"
proof -
  assume "\<forall>x \<in> set (inputs p). env1 x = env2 x"
  then have "map env1 (inputs p) = map env2 (inputs p)" by simp
  then show ?thesis by (simp only: op_value_def)
qed

text \<open>
  When a fusion may be done: the product has two operands and no other reader, and the consumer
  applies the activation to it, or adds it to one other value.
\<close>

definition pair_ok :: "omni_op \<Rightarrow> omni_op \<Rightarrow> bool" where
  "pair_ok p q \<longleftrightarrow>
     length (inputs p) = 2 \<and>
     (if kind q = Add then \<exists>x. x \<noteq> output_name p \<and>
        (inputs q = [output_name p, x] \<or> inputs q = [x, output_name p])
      else inputs q = [output_name p])"

fun fusions_ok :: "omni_op list \<Rightarrow> bool" where
  "fusions_ok [] = True"
| "fusions_ok [p] = True"
| "fusions_ok (p # q # ps) =
     (if fusible p q then pair_ok p q \<and> output_name p \<notin> reads ps \<and> fusions_ok ps
      else fusions_ok (q # ps))"

text \<open>The intermediate values that fusion no longer computes.\<close>

fun fused_away :: "omni_op list \<Rightarrow> string set" where
  "fused_away [] = {}"
| "fused_away [p] = {}"
| "fused_away (p # q # ps) =
     (if fusible p q then insert (output_name p) (fused_away ps) else fused_away (q # ps))"

lemma output_fuse [simp]: "output_name (fuse p q) = output_name q"
  by (simp add: fuse_def Let_def)

lemma fuse_value:
  assumes "fusible p q" and "pair_ok p q" and "op_ok p" and "op_ok q"
  shows "op_value prim (fuse p q) env =
    op_value prim q (env(output_name p := op_value prim p env))"
proof -
  have fw: "fused_with (fuse p q) = Some (kind q)"
    using assms(1) by (auto simp: fuse_def fused_with_def fusible_def activation_kind_def Let_def)
  have k: "kind (fuse p q) = kind p" by (simp add: fuse_def Let_def)
  obtain a b where ab: "inputs p = [a, b]" using assms(2) by (auto simp: pair_ok_def two_inputs)
  have p: "op_value prim p env = kind_value prim (kind p) [env a, env b]"
    using assms(3) by (simp add: op_value_def op_ok_def ab Let_def)
  have q: "op_value prim q e = kind_value prim (kind q) (map e (inputs q))" for e
    using assms(4) by (simp add: op_value_def op_ok_def Let_def)
  show ?thesis
  proof (cases "kind q = Add")
    case True
    then obtain x where x: "x \<noteq> output_name p"
      "inputs q = [output_name p, x] \<or> inputs q = [x, output_name p]"
      using assms(2) by (auto simp: pair_ok_def)
    then have "inputs (fuse p q) = [a, b, x]"
      using True ab by (auto simp: fuse_def Let_def)
    then have "op_value prim (fuse p q) env =
        kind_value prim Add [kind_value prim (kind p) [env a, env b], env x]"
      using fw k True by (simp add: op_value_def Let_def)
    then show ?thesis
      using x True unfolding q p
      by (auto simp: kind_value_def pointwise_def fadd_commute)
  next
    case False
    then have i: "inputs q = [output_name p]" using assms(2) by (simp add: pair_ok_def)
    have "inputs (fuse p q) = [a, b]" using False ab by (simp add: fuse_def Let_def)
    with i show ?thesis unfolding q p
      using fw k by (simp add: op_value_def Let_def)
  qed
qed

lemma fuse_ops_sound:
  assumes "list_all op_ok ps" and "fusions_ok ps" and "S \<inter> reads ps = {}"
    and "\<forall>x. x \<notin> S \<longrightarrow> env1 x = env2 x"
  shows "\<forall>x. x \<notin> S \<union> fused_away ps \<longrightarrow>
    exec prim (fuse_ops ps) env1 x = exec prim ps env2 x"
  using assms
proof (induction ps arbitrary: S env1 env2 rule: fuse_ops.induct)
  case (2 p)
  then have "op_value prim p env1 = op_value prim p env2" by (intro op_value_cong) auto
  with 2 show ?case by auto
next
  case (3 p q ps)
  then have v: "op_value prim p env1 = op_value prim p env2" by (intro op_value_cong) auto
  show ?case
  proof (cases "fusible p q")
    case True
    let ?e2 = "env2(output_name p := op_value prim p env2)"
    have "op_value prim (fuse p q) env1 = op_value prim q (env1(output_name p := op_value prim p env1))"
      using 3 True by (intro fuse_value) auto
    also have "\<dots> = op_value prim q ?e2"
      using "3.prems"(3,4) by (intro op_value_cong) (auto simp: v)
    finally have eq: "op_value prim (fuse p q) env1 = op_value prim q ?e2" .
    have "\<forall>x. x \<notin> insert (output_name p) S \<union> fused_away ps \<longrightarrow>
        exec prim (fuse_ops ps) (env1(output_name q := op_value prim q ?e2)) x =
        exec prim ps (?e2(output_name q := op_value prim q ?e2)) x"
      using "3.prems" True by (intro "3.IH"(1)) auto
    then show ?thesis using True eq by auto
  next
    case False
    have "\<forall>x. x \<notin> S \<union> fused_away (q # ps) \<longrightarrow>
        exec prim (fuse_ops (q # ps)) (env1(output_name p := op_value prim p env1)) x =
        exec prim (q # ps) (env2(output_name p := op_value prim p env2)) x"
      using "3.prems" False v by (intro "3.IH"(2)) auto
    then show ?thesis using False by auto
  qed
qed auto

section \<open>Tiling and dead code elimination preserve the semantics\<close>

lemma output_tile [simp]: "output_name (tile_op t p) = output_name p"
  and kind_tile [simp]: "kind (tile_op t p) = kind p"
  and fused_with_tile [simp]: "fused_with (tile_op t p) = fused_with p"
  and op_id_tile [simp]: "op_id (tile_op t p) = op_id p"
  and inputs_tile [simp]: "inputs (tile_op t p) = inputs p"
  by (simp_all add: tile_op_def fused_with_def)

lemma op_value_tile [simp]: "op_value prim (tile_op t p) env = op_value prim p env"
  by (simp only: op_value_def kind_tile fused_with_tile inputs_tile)


text \<open>The sweep from the front: the operations kept and the values referenced by them.\<close>

fun live :: "u64 \<Rightarrow> omni_op list \<Rightarrow> omni_op list \<times> string set" where
  "live root [] = ([], {})"
| "live root (p # ps) =
     (let (ks, r) = live root ps in
      if op_id p = root \<or> output_name p \<in> r then (p # ks, set (inputs p) \<union> r) else (ks, r))"

definition sweep_refs :: "u64 \<Rightarrow> omni_op list \<Rightarrow> string set" where
  "sweep_refs root ps = snd (live root ps)"

lemma dce_sweep_append:
  "dce_sweep count r (ps @ qs) =
     dce_sweep count r ps @ dce_sweep count (r \<union> \<Union> (set ` inputs ` set (dce_sweep count r ps))) qs"
  by (induction count r ps rule: dce_sweep.induct) (auto simp: Let_def Un_ac)

lemma dce_sweep_live:
  "rev (dce_sweep count {} (rev ps)) = fst (live (word_of_nat (count - 1)) ps) \<and>
   \<Union> (set ` inputs ` set (dce_sweep count {} (rev ps))) = snd (live (word_of_nat (count - 1)) ps)"
proof (induction ps)
  case (Cons p ps)
  then show ?case
    by (auto simp: dce_sweep_append Let_def split: prod.splits)
qed simp

lemma live_sound:
  assumes "op_id (last ps) = root" and "ps \<noteq> []"
    and "\<forall>x \<in> snd (live root ps). env1 x = env2 x"
  shows "exec prim (fst (live root ps)) env1 (output_name (last ps)) =
    exec prim ps env2 (output_name (last ps))"
  using assms
proof (induction ps arbitrary: env1 env2)
  case (Cons p ps)
  obtain ks r where kr: "live root ps = (ks, r)" by fastforce
  show ?case
  proof (cases "ps = []")
    case True
    with Cons.prems have "op_value prim p env1 = op_value prim p env2"
      by (intro op_value_cong) auto
    with True Cons.prems show ?thesis by simp
  next
    case False
    define e2 where "e2 = env2(output_name p := op_value prim p env2)"
    show ?thesis
    proof (cases "op_id p = root \<or> output_name p \<in> r")
      case True
      define e1 where "e1 = env1(output_name p := op_value prim p env1)"
      have "op_value prim p env1 = op_value prim p env2"
        using Cons.prems kr True by (intro op_value_cong) auto
      then have "\<forall>x \<in> r. e1 x = e2 x"
        using Cons.prems True kr by (auto simp: e1_def e2_def)
      then have "exec prim ks e1 (output_name (last ps)) = exec prim ps e2 (output_name (last ps))"
        using Cons.IH [of e1 e2] Cons.prems False kr by simp
      then show ?thesis using True False kr by (simp add: e1_def e2_def)
    next
      case dead: False
      then have "\<forall>x \<in> r. env1 x = e2 x" using Cons.prems kr by (auto simp: e2_def)
      then have "exec prim ks env1 (output_name (last ps)) = exec prim ps e2 (output_name (last ps))"
        using Cons.IH [of env1 e2] Cons.prems False kr by simp
      then show ?thesis using dead False kr by (simp add: e2_def)
    qed
  qed
qed simp

section \<open>The pipeline preserves the result\<close>







lemma run_dce_result:
  assumes "op_id (last (ops m)) = word_of_nat (op_count m - 1)" and "ops m \<noteq> []"
  shows "exec prim (ops (run_dce m)) env (output_name (last (ops m))) =
    exec prim (ops m) env (output_name (last (ops m)))"
  using dce_sweep_live [of "op_count m" "ops m"] live_sound [OF assms, of env env prim]
  by (simp add: run_dce_def)








section \<open>Properties\<close>

text \<open>C28: Constant folding is sound: on a module in SSA form whose additions and multiplications have
  two operands it does not panic, it gives every value of every environment the tensor it had,
  and it keeps names, operands and numbers.\<close>

theorem constant_folding_sound:
  assumes "list_all op_ok (ops m)" and "ssa (ops m)"
  shows "\<exists>m'. run_constant_folding m = Inr m' \<and> exec prim (ops m') env = exec prim (ops m) env \<and>
    list_all2 folded (ops m) (ops m')"
  using fold_ops_sound [OF assms, of Map.empty env prim]
  by (auto simp: run_constant_folding_def constants_ok_def)

definition const_op :: "string \<Rightarrow> f64 \<Rightarrow> omni_op" where
  "const_op x c = \<lparr>op_id = 0, kind = Fill c, inputs = [], output_name = x, op_attrs = Map.empty,
     result_type = static_tensor [1] F32\<rparr>"

definition plain_op :: "op_kind \<Rightarrow> string list \<Rightarrow> string \<Rightarrow> omni_op" where
  "plain_op k xs y = \<lparr>op_id = 0, kind = k, inputs = xs, output_name = y, op_attrs = Map.empty,
     result_type = static_tensor [128, 128] F32\<rparr>"

definition module_of :: "omni_op list \<Rightarrow> omni_module" where
  "module_of ps = foldl (\<lambda>m p. snd (push_op p m)) module_new ps"

definition sum_module :: omni_module where
  "sum_module =
     module_of [const_op ''v0'' (literal binary64 25 10), plain_op Add [''v0'', ''v0''] ''v1'']"

lemmas module_eval =
  module_of_def const_op_def plain_op_def push_op_def module_new_def Let_def

lemma sum_module_ok: "list_all op_ok (ops sum_module) \<and> ssa (ops sum_module)"
  by (simp add: sum_module_def module_eval op_ok_def fused_with_def ssa_def)

theorem constant_folding_sound_witness:
  "\<exists>m'. run_constant_folding sum_module = Inr m' \<and>
     exec (\<lambda>k vs i. NaN) (ops m') (\<lambda>x i. NaN) = exec (\<lambda>k vs i. NaN) (ops sum_module) (\<lambda>x i. NaN)"
  using constant_folding_sound [of sum_module] sum_module_ok by blast

text \<open>C27: Operator fusion is sound where each fused product has a single reader and an activation
  adds at most one other value: every value that is still computed keeps its tensor.\<close>

theorem operator_fusion_sound:
  assumes "list_all op_ok (ops m)" and "fusions_ok (ops m)" and "x \<notin> fused_away (ops m)"
  shows "exec prim (ops (run_operator_fusion m)) env x = exec prim (ops m) env x"
  using fuse_ops_sound [OF assms(1,2), of "{}" env env prim] assms(3)
  by (simp add: run_operator_fusion_def)

definition relu_module :: omni_module where
  "relu_module = module_of [plain_op MatMul [''a'', ''b''] ''c'', plain_op Relu [''c''] ''d'']"

theorem operator_fusion_sound_witness:
  "\<forall>prim env. exec prim (ops (run_operator_fusion relu_module)) env ''d'' =
     exec prim (ops relu_module) env ''d''"
  by (intro allI, rule operator_fusion_sound)
    (simp_all add: relu_module_def module_eval op_ok_def fused_with_def fusible_def pair_ok_def reads_def)

text \<open>Dead code elimination is sound when the last operation carries the number of its position:
  the last value keeps its tensor.\<close>

theorem dce_sound:
  assumes "op_id (last (ops m)) = word_of_nat (op_count m - 1)" and "ops m \<noteq> []"
  shows "exec prim (ops (run_dce m)) env (output_name (last (ops m))) =
    exec prim (ops m) env (output_name (last (ops m)))"
  using assms by (rule run_dce_result)

theorem dce_sound_witness:
  "\<forall>prim env. exec prim (ops (run_dce relu_module)) env ''d'' = exec prim (ops relu_module) env ''d''"
  using dce_sound [of relu_module] by (simp add: relu_module_def module_eval op_count_def)



definition tanh_module :: omni_module where
  "tanh_module = module_of [plain_op MatMul [''a'', ''b''] ''c'', plain_op Relu [''c''] ''d'',
     plain_op Tanh [''d''] ''e'']"

text \<open>Dead code elimination after a fusion that is not at the end deletes everything: its root is
  the operation whose number is the count minus one, but fusion does not renumber, so in this
  well-formed module of three operations no operation is a root.\<close>

theorem fusion_before_dce_deletes_all:
  "module_wf tanh_module \<and> list_all op_ok (ops tanh_module) \<and> ssa (ops tanh_module) \<and>
   fusions_ok (ops tanh_module) \<and> map_sum id ops (run_passes hw tanh_module) = Inr []"
proof -
  have "module_wf tanh_module"
    unfolding tanh_module_def module_of_def by (simp add: module_wf_push module_wf_new)
  moreover have "list_all op_ok (ops tanh_module) \<and> ssa (ops tanh_module) \<and> fusions_ok (ops tanh_module)"
    by (simp add: tanh_module_def module_eval op_ok_def fused_with_def ssa_def fusible_def
        pair_ok_def reads_def)
  moreover have "map_sum id ops (run_passes hw tanh_module) = Inr []"
    by (simp add: tanh_module_def module_eval run_passes_def run_constant_folding_def fold_op_def
        run_operator_fusion_def fusible_def fuse_def run_loop_tiling_def tile_op_def run_dce_def
        op_count_def)
  ultimately show ?thesis by blast
qed

text \<open>A foldable addition without operands makes the pass panic: the test that all operands are
  constant holds vacuously and the first operand is then read.\<close>

theorem folding_panics_without_operands:
  "run_constant_folding (module_of [plain_op Add [] ''x'']) = Inl (IndexOutOfBounds 0)"
  by (simp add: module_eval run_constant_folding_def fold_op_def fold_binary_def)

text \<open>A product that a later operation still reads is fused all the same: its value is lost.\<close>

lemma fusion_drops_shared_product:
  "map output_name (fuse_ops (ops (module_of [plain_op MatMul [''a'', ''b''] ''c'',
     plain_op Relu [''c''] ''d'', plain_op Mul [''c'', ''d''] ''e'']))) = [''d'', ''e'']"
  by (simp add: module_eval fusible_def fuse_def)

text \<open>Adding a product to itself is fused into the product alone.\<close>

lemma fusion_drops_doubling:
  "map inputs (fuse_ops (ops (module_of [plain_op MatMul [''a'', ''b''] ''c'',
     plain_op Add [''c'', ''c''] ''d'']))) = [[''a'', ''b'']]"
  by (simp add: module_eval fusible_def fuse_def)

end
