(* ===== verification/Codegen.thy ===== *)
theory Codegen
  imports Dialect
begin

text \<open>
  What the three code generators of \<open>omni-core/src/codegen\<close> share: the generated kernel and the
  interface \<open>CodeGenerator\<close> of \<open>codegen/mod.rs\<close>, the errors, the attribute lookup and the loop
  over the operations. The last part models what the emitted matrix kernels compute.
\<close>

section \<open>Kernels and the lowering loop\<close>

text \<open>\<open>bail!\<close> of the generator with the given name at an operation kind.\<close>

datatype codegen_error = NotImplemented string op_kind

type_synonym block = "u32 \<times> u32 \<times> u32"

record generated_kernel =
  kernel_name :: string
  payload :: "u8 list"
  block_size :: block

text \<open>The variables of \<open>generate\<close>: the code emitted so far, the kernel name, the block size.\<close>

type_synonym emitter = "string \<times> string \<times> block"

definition int_attr :: "omni_op \<Rightarrow> string \<Rightarrow> i64 \<Rightarrow> i64" where
  "int_attr p key dflt = (case op_attrs p key of Some (AttrInt v) \<Rightarrow> v | _ \<Rightarrow> dflt)"

fun lower_ops ::
  "(omni_op \<Rightarrow> emitter \<Rightarrow> codegen_error + emitter) \<Rightarrow> omni_op list \<Rightarrow> emitter \<Rightarrow> codegen_error + emitter"
where
  "lower_ops lower [] st = Inr st"
| "lower_ops lower (p # ps) st =
     (case lower p st of Inl e \<Rightarrow> Inl e | Inr st' \<Rightarrow> lower_ops lower ps st')"

fun finish_kernel :: "emitter \<Rightarrow> generated_kernel" where
  "finish_kernel (code, name, blk) =
     \<lparr>kernel_name = name, payload = bytes_of code, block_size = blk\<rparr>"

section \<open>The interface\<close>

text \<open>The kinds that every generator lowers.\<close>

definition supported :: "op_kind \<Rightarrow> bool" where
  "supported k \<longleftrightarrow> k = MatMul \<or> k = BatchedMatMul \<or> k = Relu \<or> k = Add \<or> (\<exists>h. k = Opaque h)"

text \<open>
  The contract of \<open>CodeGenerator::generate\<close> that the JIT engine relies on: it succeeds exactly on
  modules of supported kinds, and otherwise reports the first kind that is not.
\<close>

locale code_generator =
  fixes gen :: "omni_module \<Rightarrow> codegen_error + generated_kernel"
    and backend :: string
  assumes gen_ok: "is_ok (gen m) \<longleftrightarrow> list_all (\<lambda>p. supported (kind p)) (ops m)"
    and gen_error: "gen m = Inl e \<Longrightarrow>
      \<exists>ps p qs. ops m = ps @ p # qs \<and> list_all (\<lambda>p. supported (kind p)) ps \<and> \<not> supported (kind p) \<and>
        e = NotImplemented backend (kind p)"
begin

lemma gen_singleton: "ops m = [p] \<Longrightarrow> supported (kind p) \<Longrightarrow> \<exists>k. gen m = Inr k"
  using gen_ok [of m] by (cases "gen m") auto

lemma gen_singleton_error:
  "ops m = [p] \<Longrightarrow> \<not> supported (kind p) \<Longrightarrow> gen m = Inl (NotImplemented backend (kind p))"
  using gen_ok [of m] gen_error [of m]
  by (cases "gen m") (auto simp: Cons_eq_append_conv)

end

text \<open>What a lowering step has to satisfy for its generator to meet the contract.\<close>

definition lowers :: "(omni_op \<Rightarrow> emitter \<Rightarrow> codegen_error + emitter) \<Rightarrow> string \<Rightarrow> bool" where
  "lowers lower backend \<longleftrightarrow>
     (\<forall>p st. is_ok (lower p st) \<longleftrightarrow> supported (kind p)) \<and>
     (\<forall>p st e. lower p st = Inl e \<longrightarrow> e = NotImplemented backend (kind p))"

lemma lower_ops_ok:
  assumes "lowers lower backend"
  shows "is_ok (lower_ops lower ps st) \<longleftrightarrow> list_all (\<lambda>p. supported (kind p)) ps"
proof (induction ps arbitrary: st)
  case (Cons p ps)
  have "is_ok (lower p st) \<longleftrightarrow> supported (kind p)" using assms unfolding lowers_def by blast
  with Cons show ?case by (cases "lower p st") auto
qed simp

lemma lower_ops_error:
  assumes "lowers lower backend" and "lower_ops lower rs st = Inl e"
  shows "\<exists>ps p qs. rs = ps @ p # qs \<and> list_all (\<lambda>p. supported (kind p)) ps \<and>
    \<not> supported (kind p) \<and> e = NotImplemented backend (kind p)"
  using assms(2)
proof (induction rs arbitrary: st)
  case (Cons r rs)
  have ok: "is_ok (lower r st) \<longleftrightarrow> supported (kind r)" using assms(1) unfolding lowers_def by blast
  show ?case
  proof (cases "lower r st")
    case (Inl e')
    with assms(1) have "e' = NotImplemented backend (kind r)" unfolding lowers_def by blast
    then show ?thesis using Cons.prems Inl ok by (intro exI [of _ "[]"]) auto
  next
    case (Inr st')
    then have "lower_ops lower rs st' = Inl e" using Cons.prems by simp
    from Cons.IH [OF this] obtain ps p qs where "rs = ps @ p # qs"
      "list_all (\<lambda>p. supported (kind p)) ps" "\<not> supported (kind p)" "e = NotImplemented backend (kind p)"
      by blast
    then show ?thesis using Inr ok by (intro exI [of _ "r # ps"]) auto
  qed
qed simp

lemma generator_laws:
  assumes "lowers lower backend"
  shows "code_generator (\<lambda>m. map_sum id finish_kernel (lower_ops lower (ops m) st)) backend"
proof
  fix m
  show "is_ok (map_sum id finish_kernel (lower_ops lower (ops m) st)) \<longleftrightarrow>
      list_all (\<lambda>p. supported (kind p)) (ops m)"
    using lower_ops_ok [OF assms, of "ops m" st]
    by (cases "lower_ops lower (ops m) st") auto
next
  fix m e
  assume "map_sum id finish_kernel (lower_ops lower (ops m) st) = Inl e"
  then have "lower_ops lower (ops m) st = Inl e"
    by (cases "lower_ops lower (ops m) st") auto
  from lower_ops_error [OF assms this] show "\<exists>ps p qs. ops m = ps @ p # qs \<and>
      list_all (\<lambda>p. supported (kind p)) ps \<and> \<not> supported (kind p) \<and> e = NotImplemented backend (kind p)" .
qed

end
