(* ===== verification/Codegen_Amd.thy ===== *)
theory Codegen_Amd
  imports Codegen
begin

text \<open>
  The HIP C++ generator of \<open>omni-core/src/codegen/amdgpu.rs\<close>: the element types, the templates (one text per
  \<open>push_str\<close>), the lowering of one operation and \<open>generate\<close>.
\<close>

section \<open>Templates\<close>

fun amd_map_element_type :: "element_type \<Rightarrow> string" where
  "amd_map_element_type U8 = ''unsigned char''"
| "amd_map_element_type I8 = ''char''"
| "amd_map_element_type I16 = ''short''"
| "amd_map_element_type I32 = ''int''"
| "amd_map_element_type I64 = ''long long''"
| "amd_map_element_type F16 = ''__half''"
| "amd_map_element_type BF16 = ''hip_bfloat16''"
| "amd_map_element_type F32 = ''float''"
| "amd_map_element_type F64 = ''double''"
| "amd_map_element_type _ = ''float''"

definition amd_header :: string where
  "amd_header = text_lines
    [ ''// Auto-generated by OmniCompute AMD GPU backend'',
      ''#include <hip/hip_runtime.h>'',
      ''#include <hip/hip_fp16.h>'',
      [] ]"

definition amd_matmul :: "string \<Rightarrow> string \<Rightarrow> int \<Rightarrow> int \<Rightarrow> int \<Rightarrow> string" where
  "amd_matmul name dtype tile_m tile_n tile_k = text_lines
    [ ''extern '' @ dquote @ ''C'' @ dquote @ '' __global__ void '' @ name @ ''('',
      tab @ ''const '' @ dtype @ ''* __restrict__ A,'',
      tab @ ''const '' @ dtype @ ''* __restrict__ B,'',
      tab @ dtype @ ''* __restrict__ C,'',
      tab @ ''int M, int N, int K'',
      '') {'',
      tab @ ''// Tiled shared memory allocations'',
      tab @ ''__shared__ '' @ dtype @ '' sA['' @ dec_int tile_m @ '']['' @ dec_int tile_k @ ''];'',
      tab @ ''__shared__ '' @ dtype @ '' sB['' @ dec_int tile_k @ '']['' @ dec_int tile_n @ ''];'',
      [],
      tab @ ''int tx = threadIdx.x;'',
      tab @ ''int ty = threadIdx.y;'',
      tab @ ''int row = blockIdx.y * '' @ dec_int tile_m @ '' + ty;'',
      tab @ ''int col = blockIdx.x * '' @ dec_int tile_n @ '' + tx;'',
      [],
      tab @ dtype @ '' sum = 0.0f;'',
      [],
      tab @ ''for (int ph = 0; ph < (K + '' @ dec_int tile_k @ '' - 1) / '' @ dec_int tile_k @
        ''; ++ph) {'',
      tab @ tab @ ''// Cooperative load into SRAM / Shared Memory'',
      tab @ tab @ ''if (row < M && ph * '' @ dec_int tile_k @
        '' + tx < K) sA[ty][tx] = A[row * K + ph * '' @ dec_int tile_k @ '' + tx];'',
      tab @ tab @ ''else sA[ty][tx] = 0.0f;'',
      [],
      tab @ tab @ ''if (ph * '' @ dec_int tile_k @
        '' + ty < K && col < N) sB[ty][tx] = B[(ph * '' @ dec_int tile_k @
        '' + ty) * N + col];'',
      tab @ tab @ ''else sB[ty][tx] = 0.0f;'',
      [],
      tab @ tab @ ''__syncthreads();'',
      [],
      tab @ tab @ ''// Matrix Multiply on Tiles'',
      tab @ tab @ ''#pragma unroll'',
      tab @ tab @ ''for (int k = 0; k < '' @ dec_int tile_k @ ''; ++k) {'',
      tab @ tab @ tab @ ''sum += sA[ty][k] * sB[k][tx];'',
      tab @ tab @ ''}'',
      tab @ tab @ ''__syncthreads();'',
      tab @ ''}'',
      [],
      tab @ ''if (row < M && col < N) {'' ]"

definition amd_activation :: "string \<Rightarrow> string" where
  "amd_activation act =
     (if act = ''Relu'' then text_lines
       [ tab @ tab @ ''sum = sum > 0.0f ? sum : 0.0f;'' ]
      else if act = ''Gelu'' then text_lines
       [ tab @ tab @ ''sum = sum * 0.5f * (1.0f + erf(sum * 0.70710678f));'' ]
      else if act = ''Silu'' then text_lines
       [ tab @ tab @ ''sum = sum / (1.0f + exp(-sum));'' ]
      else [])"

definition amd_matmul_end :: string where
  "amd_matmul_end = text_lines
    [ tab @ tab @ ''C[row * N + col] = sum;'',
      tab @ ''}'',
      ''}'' ]"

definition amd_relu :: "string \<Rightarrow> string \<Rightarrow> string" where
  "amd_relu name dtype = text_lines
    [ ''extern '' @ dquote @ ''C'' @ dquote @ '' __global__ void '' @ name @ ''(const '' @ dtype @
        ''* x, '' @ dtype @ ''* y, int n) {'',
      tab @ ''int idx = blockIdx.x * blockDim.x + threadIdx.x;'',
      tab @ ''if (idx < n) {'',
      tab @ tab @ ''y[idx] = x[idx] > 0.0f ? x[idx] : 0.0f;'',
      tab @ ''}'',
      ''}'' ]"

definition amd_add :: "string \<Rightarrow> string \<Rightarrow> string" where
  "amd_add name dtype = text_lines
    [ ''extern '' @ dquote @ ''C'' @ dquote @ '' __global__ void '' @ name @ ''(const '' @ dtype @
        ''* a, const '' @ dtype @ ''* b, '' @ dtype @ ''* c, int n) {'',
      tab @ ''int idx = blockIdx.x * blockDim.x + threadIdx.x;'',
      tab @ ''if (idx < n) {'',
      tab @ tab @ ''c[idx] = a[idx] + b[idx];'',
      tab @ ''}'',
      ''}'' ]"

definition amd_fallback :: "string \<Rightarrow> nat \<Rightarrow> string" where
  "amd_fallback name ptx_hash = text_lines
    [ ''// Fallback opaque block for PTX hash: 0x'' @ hex ptx_hash,
      ''extern '' @ dquote @ ''C'' @ dquote @ '' __global__ void '' @ name @
        ''(const float* in, float* out, int n) {'',
      tab @ ''// AMD HIP fallback execution logic'',
      tab @ ''int idx = blockIdx.x * blockDim.x + threadIdx.x;'',
      tab @ ''if (idx < n) out[idx] = in[idx];'',
      ''}'' ]"

section \<open>Lowering\<close>

definition amd_lower_matmul :: "omni_op \<Rightarrow> string \<Rightarrow> string" where
  "amd_lower_matmul p name =
     (let tile_m = int_attr p ''tile_m'' 64; tile_n = int_attr p ''tile_n'' 64;
          tile_k = int_attr p ''tile_k'' 16;
          dtype = amd_map_element_type (elem_type (result_type p))
      in amd_matmul name dtype (sint tile_m) (sint tile_n) (sint tile_k) @
         (case op_attrs p ''fused_activation'' of
            Some (AttrString act) \<Rightarrow> amd_activation act | _ \<Rightarrow> []) @
         amd_matmul_end)"

definition amd_lower_op :: "omni_op \<Rightarrow> emitter \<Rightarrow> codegen_error + emitter" where
  "amd_lower_op p st =
     (let (code, kernel_name, block) = st;
          dtype = amd_map_element_type (elem_type (result_type p));
          named = (\<lambda>s. s @ dec (unat (op_id p)))
      in case kind p of
           MatMul \<Rightarrow>
             Inr (code @ amd_lower_matmul p (named ''omni_matmul_''), named ''omni_matmul_'', (8, 8, 1))
         | BatchedMatMul \<Rightarrow>
             Inr (code @ amd_lower_matmul p (named ''omni_matmul_''), named ''omni_matmul_'', (8, 8, 1))
         | Relu \<Rightarrow>
             Inr (code @ amd_relu (named ''omni_relu_'') dtype, named ''omni_relu_'', block)
         | Add \<Rightarrow>
             Inr (code @ amd_add (named ''omni_add_'') dtype, named ''omni_add_'', block)
         | Opaque ptx_hash \<Rightarrow>
             Inr (code @ amd_fallback (named ''omni_fallback_'') (unat ptx_hash),
                  named ''omni_fallback_'', block)
         | _ \<Rightarrow> Inl (NotImplemented ''AmdGpuCodegen'' (kind p)))"

definition amd_generate :: "omni_module \<Rightarrow> codegen_error + generated_kernel" where
  "amd_generate m =
     map_sum id finish_kernel (lower_ops amd_lower_op (ops m) (amd_header, ''omni_kernel'', (64, 1, 1)))"

lemma amd_lowers: "lowers amd_lower_op ''AmdGpuCodegen''"
  unfolding lowers_def
proof (intro conjI allI impI)
  show "is_ok (amd_lower_op p st) \<longleftrightarrow> supported (kind p)" for p st
    by (cases st; cases "kind p") (simp_all add: amd_lower_op_def supported_def Let_def)
  show "e = NotImplemented ''AmdGpuCodegen'' (kind p)" if "amd_lower_op p st = Inl e" for p st e
    using that by (cases st; cases "kind p") (simp_all add: amd_lower_op_def Let_def)
qed

interpretation amd: code_generator amd_generate "''AmdGpuCodegen''"
  unfolding amd_generate_def [abs_def] by (rule generator_laws [OF amd_lowers])

end
