(* ===== verification/Codegen_Metal.thy ===== *)
theory Codegen_Metal
  imports Codegen
begin

text \<open>
  The Metal shader generator of \<open>omni-core/src/codegen/metal.rs\<close>: the element types, the templates (one text per
  \<open>push_str\<close>), the lowering of one operation and \<open>generate\<close>.
\<close>

section \<open>Templates\<close>

fun metal_map_element_type :: "element_type \<Rightarrow> string" where
  "metal_map_element_type U8 = ''uchar''"
| "metal_map_element_type I8 = ''char''"
| "metal_map_element_type I16 = ''short''"
| "metal_map_element_type I32 = ''int''"
| "metal_map_element_type I64 = ''long''"
| "metal_map_element_type F16 = ''half''"
| "metal_map_element_type BF16 = ''half''"
| "metal_map_element_type F32 = ''float''"
| "metal_map_element_type F64 = ''double''"
| "metal_map_element_type _ = ''float''"

definition metal_header :: string where
  "metal_header = text_lines
    [ ''// Auto-generated by OmniCompute Metal backend'',
      ''#include <metal_stdlib>'',
      ''using namespace metal;'',
      [] ]"

definition metal_matmul :: "string \<Rightarrow> string \<Rightarrow> int \<Rightarrow> int \<Rightarrow> int \<Rightarrow> string" where
  "metal_matmul name dtype tile_m tile_n tile_k = text_lines
    [ ''kernel void '' @ name @ ''('',
      tab @ ''device const '' @ dtype @ ''* A ['' @ ''[buffer(0)]'' @ ''],'',
      tab @ ''device const '' @ dtype @ ''* B ['' @ ''[buffer(1)]'' @ ''],'',
      tab @ ''device '' @ dtype @ ''* C ['' @ ''[buffer(2)]'' @ ''],'',
      tab @ ''constant int& M ['' @ ''[buffer(3)]'' @ ''],'',
      tab @ ''constant int& N ['' @ ''[buffer(4)]'' @ ''],'',
      tab @ ''constant int& K ['' @ ''[buffer(5)]'' @ ''],'',
      tab @ ''threadgroup '' @ dtype @ ''* sA ['' @ ''[threadgroup(0)]'' @ ''],'',
      tab @ ''threadgroup '' @ dtype @ ''* sB ['' @ ''[threadgroup(1)]'' @ ''],'',
      tab @ ''uint2 threadgroup_position_in_grid ['' @ ''[threadgroup_position_in_grid]'' @ ''],'',
      tab @ ''uint2 thread_position_in_threadgroup ['' @ ''[thread_position_in_threadgroup]'' @
        ''],'',
      tab @ ''uint2 thread_position_in_grid ['' @ ''[thread_position_in_grid]'' @ '']'',
      '') {'',
      tab @ ''int tx = thread_position_in_threadgroup.x;'',
      tab @ ''int ty = thread_position_in_threadgroup.y;'',
      tab @ ''int row = threadgroup_position_in_grid.y * '' @ dec_int tile_m @ '' + ty;'',
      tab @ ''int col = threadgroup_position_in_grid.x * '' @ dec_int tile_n @ '' + tx;'',
      [],
      tab @ dtype @ '' sum = 0.0;'',
      [],
      tab @ ''for (int ph = 0; ph < (K + '' @ dec_int tile_k @ '' - 1) / '' @ dec_int tile_k @
        ''; ++ph) {'',
      tab @ tab @ ''// Tiled cooperative load into threadgroup local cache'',
      tab @ tab @ ''if (row < M && ph * '' @ dec_int tile_k @ '' + tx < K) sA[ty * '' @
        dec_int tile_k @ '' + tx] = A[row * K + ph * '' @ dec_int tile_k @ '' + tx];'',
      tab @ tab @ ''else sA[ty * '' @ dec_int tile_k @ '' + tx] = 0.0;'',
      [],
      tab @ tab @ ''if (ph * '' @ dec_int tile_k @ '' + ty < K && col < N) sB[ty * '' @
        dec_int tile_n @ '' + tx] = B[(ph * '' @ dec_int tile_k @ '' + ty) * N + col];'',
      tab @ tab @ ''else sB[ty * '' @ dec_int tile_n @ '' + tx] = 0.0;'',
      [],
      tab @ tab @ ''threadgroup_barrier(mem_flags::mem_threadgroup);'',
      [],
      tab @ tab @ ''#pragma unroll'',
      tab @ tab @ ''for (int k = 0; k < '' @ dec_int tile_k @ ''; ++k) {'',
      tab @ tab @ tab @ ''sum += sA[ty * '' @ dec_int tile_k @ '' + k] * sB[k * '' @
        dec_int tile_n @ '' + tx];'',
      tab @ tab @ ''}'',
      tab @ tab @ ''threadgroup_barrier(mem_flags::mem_threadgroup);'',
      tab @ ''}'',
      [],
      tab @ ''if (row < M && col < N) {'' ]"

definition metal_activation :: "string \<Rightarrow> string" where
  "metal_activation act =
     (if act = ''Relu'' then text_lines
       [ tab @ tab @ ''sum = max(sum, 0.0f);'' ]
      else if act = ''Gelu'' then text_lines
       [ tab @ tab @ ''sum = sum * 0.5f * (1.0f + precise::erf(sum * 0.70710678f));'' ]
      else if act = ''Silu'' then text_lines
       [ tab @ tab @ ''sum = sum / (1.0f + precise::exp(-sum));'' ]
      else [])"

definition metal_matmul_end :: string where
  "metal_matmul_end = text_lines
    [ tab @ tab @ ''C[row * N + col] = sum;'',
      tab @ ''}'',
      ''}'' ]"

definition metal_relu :: "string \<Rightarrow> string \<Rightarrow> string" where
  "metal_relu name dtype = text_lines
    [ ''kernel void '' @ name @ ''('',
      tab @ ''device const '' @ dtype @ ''* x ['' @ ''[buffer(0)]'' @ ''],'',
      tab @ ''device '' @ dtype @ ''* y ['' @ ''[buffer(1)]'' @ ''],'',
      tab @ ''constant int& n ['' @ ''[buffer(2)]'' @ ''],'',
      tab @ ''uint idx ['' @ ''[thread_position_in_grid]'' @ '']'',
      '') {'',
      tab @ ''if (idx < uint(n)) {'',
      tab @ tab @ ''y[idx] = max(x[idx], '' @ dtype @ ''(0.0));'',
      tab @ ''}'',
      ''}'' ]"

definition metal_add :: "string \<Rightarrow> string \<Rightarrow> string" where
  "metal_add name dtype = text_lines
    [ ''kernel void '' @ name @ ''('',
      tab @ ''device const '' @ dtype @ ''* a ['' @ ''[buffer(0)]'' @ ''],'',
      tab @ ''device const '' @ dtype @ ''* b ['' @ ''[buffer(1)]'' @ ''],'',
      tab @ ''device '' @ dtype @ ''* c ['' @ ''[buffer(2)]'' @ ''],'',
      tab @ ''constant int& n ['' @ ''[buffer(3)]'' @ ''],'',
      tab @ ''uint idx ['' @ ''[thread_position_in_grid]'' @ '']'',
      '') {'',
      tab @ ''if (idx < uint(n)) {'',
      tab @ tab @ ''c[idx] = a[idx] + b[idx];'',
      tab @ ''}'',
      ''}'' ]"

definition metal_fallback :: "string \<Rightarrow> nat \<Rightarrow> string" where
  "metal_fallback name ptx_hash = text_lines
    [ ''// Fallback opaque block for PTX hash: 0x'' @ hex ptx_hash,
      ''kernel void '' @ name @ ''('',
      tab @ ''device const float* in ['' @ ''[buffer(0)]'' @ ''],'',
      tab @ ''device float* out ['' @ ''[buffer(1)]'' @ ''],'',
      tab @ ''constant int& n ['' @ ''[buffer(2)]'' @ ''],'',
      tab @ ''uint idx ['' @ ''[thread_position_in_grid]'' @ '']'',
      '') {'',
      tab @ ''if (idx < uint(n)) out[idx] = in[idx];'',
      ''}'' ]"

section \<open>Lowering\<close>

definition metal_lower_matmul :: "omni_op \<Rightarrow> string \<Rightarrow> string" where
  "metal_lower_matmul p name =
     (let tile_m = int_attr p ''tile_m'' 32; tile_n = int_attr p ''tile_n'' 32;
          tile_k = int_attr p ''tile_k'' 16;
          dtype = metal_map_element_type (elem_type (result_type p))
      in metal_matmul name dtype (sint tile_m) (sint tile_n) (sint tile_k) @
         (case op_attrs p ''fused_activation'' of
            Some (AttrString act) \<Rightarrow> metal_activation act | _ \<Rightarrow> []) @
         metal_matmul_end)"

definition metal_lower_op :: "omni_op \<Rightarrow> emitter \<Rightarrow> codegen_error + emitter" where
  "metal_lower_op p st =
     (let (code, kernel_name, block) = st;
          dtype = metal_map_element_type (elem_type (result_type p));
          named = (\<lambda>s. s @ dec (unat (op_id p)))
      in case kind p of
           MatMul \<Rightarrow>
             Inr (code @ metal_lower_matmul p (named ''omni_matmul_''), named ''omni_matmul_'', (8, 8, 1))
         | BatchedMatMul \<Rightarrow>
             Inr (code @ metal_lower_matmul p (named ''omni_matmul_''), named ''omni_matmul_'', (8, 8, 1))
         | Relu \<Rightarrow>
             Inr (code @ metal_relu (named ''omni_relu_'') dtype, named ''omni_relu_'', block)
         | Add \<Rightarrow>
             Inr (code @ metal_add (named ''omni_add_'') dtype, named ''omni_add_'', block)
         | Opaque ptx_hash \<Rightarrow>
             Inr (code @ metal_fallback (named ''omni_fallback_'') (unat ptx_hash),
                  named ''omni_fallback_'', block)
         | _ \<Rightarrow> Inl (NotImplemented ''MetalCodegen'' (kind p)))"

definition metal_generate :: "omni_module \<Rightarrow> codegen_error + generated_kernel" where
  "metal_generate m =
     map_sum id finish_kernel (lower_ops metal_lower_op (ops m) (metal_header, ''omni_kernel'', (32, 1, 1)))"

lemma metal_lowers: "lowers metal_lower_op ''MetalCodegen''"
  unfolding lowers_def
proof (intro conjI allI impI)
  show "is_ok (metal_lower_op p st) \<longleftrightarrow> supported (kind p)" for p st
    by (cases st; cases "kind p") (simp_all add: metal_lower_op_def supported_def Let_def)
  show "e = NotImplemented ''MetalCodegen'' (kind p)" if "metal_lower_op p st = Inl e" for p st e
    using that by (cases st; cases "kind p") (simp_all add: metal_lower_op_def Let_def)
qed

interpretation metal: code_generator metal_generate "''MetalCodegen''"
  unfolding metal_generate_def [abs_def] by (rule generator_laws [OF metal_lowers])

end
