(* ===== verification/Codegen_Spirv.thy ===== *)
theory Codegen_Spirv
  imports Codegen
begin

text \<open>
  The GLSL generator for SPIR-V of \<open>omni-core/src/codegen/spirv.rs\<close>: the element types, the templates (one text per
  \<open>push_str\<close>), the lowering of one operation and \<open>generate\<close>.
\<close>

section \<open>Templates\<close>

fun spirv_map_element_type :: "element_type \<Rightarrow> string" where
  "spirv_map_element_type U8 = ''uint''"
| "spirv_map_element_type I8 = ''int''"
| "spirv_map_element_type I16 = ''int''"
| "spirv_map_element_type I32 = ''int''"
| "spirv_map_element_type I64 = ''int64_t''"
| "spirv_map_element_type F16 = ''float16_t''"
| "spirv_map_element_type BF16 = ''float16_t''"
| "spirv_map_element_type F32 = ''float''"
| "spirv_map_element_type F64 = ''double''"
| "spirv_map_element_type _ = ''float''"

definition spirv_header :: string where
  "spirv_header = text_lines
    [ ''#version 450 core'',
      ''#extension GL_EXT_shader_explicit_arithmetic_types_float16 : enable'',
      ''#extension GL_EXT_shader_explicit_arithmetic_types_int64 : enable'',
      [] ]"

definition spirv_matmul :: "string \<Rightarrow> int \<Rightarrow> int \<Rightarrow> int \<Rightarrow> string" where
  "spirv_matmul dtype tile_m tile_n tile_k = text_lines
    [ ''layout(local_size_x = '' @ dec 16 @ '', local_size_y = '' @ dec 16 @
        '', local_size_z = 1) in;'',
      [],
      ''layout(std430, binding = 0) readonly buffer BufferA { '' @ dtype @ '' A[]; };'',
      ''layout(std430, binding = 1) readonly buffer BufferB { '' @ dtype @ '' B[]; };'',
      ''layout(std430, binding = 2) writeonly buffer BufferC { '' @ dtype @ '' C[]; };'',
      [],
      ''layout(push_constant) uniform Params {'',
      tab @ ''int M; int N; int K;'',
      ''} params;'',
      [],
      ''shared '' @ dtype @ '' sA['' @ dec_int tile_m @ '']['' @ dec_int tile_k @ ''];'',
      ''shared '' @ dtype @ '' sB['' @ dec_int tile_k @ '']['' @ dec_int tile_n @ ''];'',
      [],
      ''void main() {'',
      tab @ ''int tx = int(gl_LocalInvocationID.x);'',
      tab @ ''int ty = int(gl_LocalInvocationID.y);'',
      tab @ ''int row = int(gl_WorkGroupID.y) * '' @ dec_int tile_m @ '' + ty;'',
      tab @ ''int col = int(gl_WorkGroupID.x) * '' @ dec_int tile_n @ '' + tx;'',
      [],
      tab @ dtype @ '' sum = '' @ dtype @ ''(0.0);'',
      [],
      tab @ ''for (int ph = 0; ph < (params.K + '' @ dec_int tile_k @ '' - 1) / '' @
        dec_int tile_k @ ''; ++ph) {'',
      tab @ tab @ ''if (row < params.M && ph * '' @ dec_int tile_k @ '' + tx < params.K) {'',
      tab @ tab @ tab @ ''sA[ty][tx] = A[row * params.K + ph * '' @ dec_int tile_k @ '' + tx];'',
      tab @ tab @ ''} else {'',
      tab @ tab @ tab @ ''sA[ty][tx] = '' @ dtype @ ''(0.0);'',
      tab @ tab @ ''}'',
      [],
      tab @ tab @ ''if (ph * '' @ dec_int tile_k @ '' + ty < params.K && col < params.N) {'',
      tab @ tab @ tab @ ''sB[ty][tx] = B[(ph * '' @ dec_int tile_k @ '' + ty) * params.N + col];'',
      tab @ tab @ ''} else {'',
      tab @ tab @ tab @ ''sB[ty][tx] = '' @ dtype @ ''(0.0);'',
      tab @ tab @ ''}'',
      [],
      tab @ tab @ ''barrier();'',
      [],
      tab @ tab @ ''for (int k = 0; k < '' @ dec_int tile_k @ ''; ++k) {'',
      tab @ tab @ tab @ ''sum += sA[ty][k] * sB[k][tx];'',
      tab @ tab @ ''}'',
      [],
      tab @ tab @ ''barrier();'',
      tab @ ''}'',
      [],
      tab @ ''if (row < params.M && col < params.N) {'' ]"

definition spirv_activation :: "string \<Rightarrow> string" where
  "spirv_activation act =
     (if act = ''Relu'' then text_lines
       [ tab @ tab @ ''sum = max(sum, float16_t(0.0));'' ]
      else if act = ''Gelu'' then text_lines
       [ tab @ tab @
           ''sum = sum * float16_t(0.5) * (float16_t(1.0) + erf(sum * float16_t(0.70710678)));'' ]
      else if act = ''Silu'' then text_lines
       [ tab @ tab @ ''sum = sum / (float16_t(1.0) + exp(-sum));'' ]
      else [])"

definition spirv_matmul_end :: string where
  "spirv_matmul_end = text_lines
    [ tab @ tab @ ''C[row * params.N + col] = sum;'',
      tab @ ''}'',
      ''}'' ]"

definition spirv_relu :: "string \<Rightarrow> string" where
  "spirv_relu dtype = text_lines
    [ ''layout(local_size_x = 256, local_size_y = 1, local_size_z = 1) in;'',
      [],
      ''layout(std430, binding = 0) readonly buffer BufferX { '' @ dtype @ '' x[]; };'',
      ''layout(std430, binding = 1) writeonly buffer BufferY { '' @ dtype @ '' y[]; };'',
      [],
      ''layout(push_constant) uniform Params { int n; } params;'',
      [],
      ''void main() {'',
      tab @ ''int idx = int(gl_GlobalInvocationID.x);'',
      tab @ ''if (idx < params.n) {'',
      tab @ tab @ ''y[idx] = max(x[idx], '' @ dtype @ ''(0.0));'',
      tab @ ''}'',
      ''}'' ]"

definition spirv_add :: "string \<Rightarrow> string" where
  "spirv_add dtype = text_lines
    [ ''layout(local_size_x = 256, local_size_y = 1, local_size_z = 1) in;'',
      [],
      ''layout(std430, binding = 0) readonly buffer BufferA { '' @ dtype @ '' a[]; };'',
      ''layout(std430, binding = 1) readonly buffer BufferB { '' @ dtype @ '' b[]; };'',
      ''layout(std430, binding = 2) writeonly buffer BufferC { '' @ dtype @ '' c[]; };'',
      [],
      ''layout(push_constant) uniform Params { int n; } params;'',
      [],
      ''void main() {'',
      tab @ ''int idx = int(gl_GlobalInvocationID.x);'',
      tab @ ''if (idx < params.n) {'',
      tab @ tab @ ''c[idx] = a[idx] + b[idx];'',
      tab @ ''}'',
      ''}'' ]"

definition spirv_fallback :: "nat \<Rightarrow> string" where
  "spirv_fallback ptx_hash = text_lines
    [ ''// Fallback opaque block for PTX hash: 0x'' @ hex ptx_hash,
      ''layout(local_size_x = 256, local_size_y = 1, local_size_z = 1) in;'',
      ''layout(std430, binding = 0) readonly buffer BufferIn { float A[]; };'',
      ''layout(std430, binding = 1) writeonly buffer BufferOut { float B[]; };'',
      ''layout(push_constant) uniform Params { int n; } params;'',
      [],
      ''void main() {'',
      tab @ ''int idx = int(gl_GlobalInvocationID.x);'',
      tab @ ''if (idx < params.n) B[idx] = A[idx];'',
      ''}'' ]"

section \<open>Lowering\<close>

definition spirv_lower_matmul :: "omni_op \<Rightarrow> string" where
  "spirv_lower_matmul p =
     (let tile_m = int_attr p ''tile_m'' 16; tile_n = int_attr p ''tile_n'' 16;
          tile_k = int_attr p ''tile_k'' 16;
          dtype = spirv_map_element_type (elem_type (result_type p))
      in spirv_matmul dtype (sint tile_m) (sint tile_n) (sint tile_k) @
         (case op_attrs p ''fused_activation'' of
            Some (AttrString act) \<Rightarrow> spirv_activation act | _ \<Rightarrow> []) @
         spirv_matmul_end)"

definition spirv_lower_op :: "omni_op \<Rightarrow> emitter \<Rightarrow> codegen_error + emitter" where
  "spirv_lower_op p st =
     (let (code, kernel_name, block) = st;
          dtype = spirv_map_element_type (elem_type (result_type p));
          named = (\<lambda>s. s @ dec (unat (op_id p)))
      in case kind p of
           MatMul \<Rightarrow>
             Inr (code @ spirv_lower_matmul p, named ''omni_matmul_'', (16, 16, 1))
         | BatchedMatMul \<Rightarrow>
             Inr (code @ spirv_lower_matmul p, named ''omni_matmul_'', (16, 16, 1))
         | Relu \<Rightarrow>
             Inr (code @ spirv_relu dtype, named ''omni_relu_'', (256, 1, 1))
         | Add \<Rightarrow>
             Inr (code @ spirv_add dtype, named ''omni_add_'', (256, 1, 1))
         | Opaque ptx_hash \<Rightarrow>
             Inr (code @ spirv_fallback (unat ptx_hash),
                  named ''omni_fallback_'', (256, 1, 1))
         | _ \<Rightarrow> Inl (NotImplemented ''SpirvCodegen'' (kind p)))"

definition spirv_generate :: "omni_module \<Rightarrow> codegen_error + generated_kernel" where
  "spirv_generate m =
     map_sum id finish_kernel (lower_ops spirv_lower_op (ops m) (spirv_header, ''omni_kernel'', (16, 16, 1)))"

lemma spirv_lowers: "lowers spirv_lower_op ''SpirvCodegen''"
  unfolding lowers_def
proof (intro conjI allI impI)
  show "is_ok (spirv_lower_op p st) \<longleftrightarrow> supported (kind p)" for p st
    by (cases st; cases "kind p") (simp_all add: spirv_lower_op_def supported_def Let_def)
  show "e = NotImplemented ''SpirvCodegen'' (kind p)" if "spirv_lower_op p st = Inl e" for p st e
    using that by (cases st; cases "kind p") (simp_all add: spirv_lower_op_def Let_def)
qed

interpretation spirv: code_generator spirv_generate "''SpirvCodegen''"
  unfolding spirv_generate_def [abs_def] by (rule generator_laws [OF spirv_lowers])

end
