(* ===== verification/Tiled_Matmul.thy ===== *)
theory Tiled_Matmul
  imports Codegen
begin

text \<open>
  What the matrix kernels emitted by the three generators compute. The templates share one
  algorithm: a thread block loads tiles of both operands into shared memory, one element per
  thread and phase, and every thread sums products over the tile. It is modelled over integer
  matrices, with the tile sizes of the template and the dimensions of the thread block as
  parameters, because the generators choose them independently. Shared memory that no thread has
  written holds arbitrary values (\<open>junk\<close>).
\<close>

record kernel_config =
  tile_rows :: nat
  tile_cols :: nat
  tile_depth :: nat
  block_x :: nat
  block_y :: nat

type_synonym matrix = "nat \<Rightarrow> nat \<Rightarrow> int"

text \<open>\<open>sA[ty][tx]\<close> and \<open>sB[ty][tx]\<close> after the loads of phase \<open>ph\<close>.\<close>

definition shared_a :: "kernel_config \<Rightarrow> matrix \<Rightarrow> matrix \<Rightarrow> nat \<Rightarrow> nat \<Rightarrow> nat \<Rightarrow> nat \<Rightarrow> matrix" where
  "shared_a c junk A M K group_y ph ty tx =
     (if ty < block_y c \<and> tx < block_x c then
        (let row = group_y * tile_rows c + ty in
         if row < M \<and> ph * tile_depth c + tx < K then A row (ph * tile_depth c + tx) else 0)
      else junk ty tx)"

definition shared_b :: "kernel_config \<Rightarrow> matrix \<Rightarrow> matrix \<Rightarrow> nat \<Rightarrow> nat \<Rightarrow> nat \<Rightarrow> nat \<Rightarrow> matrix" where
  "shared_b c junk B N K group_x ph ty tx =
     (if ty < block_y c \<and> tx < block_x c then
        (let col = group_x * tile_cols c + tx in
         if ph * tile_depth c + ty < K \<and> col < N then B (ph * tile_depth c + ty) col else 0)
      else junk ty tx)"

text \<open>The variable \<open>sum\<close> of one thread after the loop over the phases.\<close>

definition thread_sum ::
  "kernel_config \<Rightarrow> matrix \<Rightarrow> matrix \<Rightarrow> matrix \<Rightarrow> nat \<Rightarrow> nat \<Rightarrow> nat \<Rightarrow> nat \<Rightarrow> nat \<Rightarrow> nat \<Rightarrow> nat \<Rightarrow> int" where
  "thread_sum c junk A B M N K group_y group_x ty tx =
     (\<Sum>ph < (K + tile_depth c - 1) div tile_depth c. \<Sum>k < tile_depth c.
        shared_a c junk A M K group_y ph ty k * shared_b c junk B N K group_x ph k tx)"

text \<open>The threads that write the cell \<open>C[row * N + col]\<close>.\<close>

definition writes :: "kernel_config \<Rightarrow> nat \<Rightarrow> nat \<Rightarrow> nat \<Rightarrow> nat \<Rightarrow> nat \<Rightarrow> nat \<Rightarrow> bool" where
  "writes c row col group_y group_x ty tx \<longleftrightarrow>
     ty < block_y c \<and> tx < block_x c \<and>
     row = group_y * tile_rows c + ty \<and> col = group_x * tile_cols c + tx"

text \<open>The block and the tiles have the same side.\<close>

definition consistent :: "kernel_config \<Rightarrow> bool" where
  "consistent c \<longleftrightarrow>
     0 < tile_depth c \<and> block_x c = tile_cols c \<and> block_y c = tile_rows c \<and>
     block_x c = tile_depth c \<and> block_y c = tile_depth c"

lemma phases_cover: "0 < t \<Longrightarrow> K \<le> (K + t - 1) div t * (t::nat)"
proof -
  assume t: "0 < t"
  have "K + t - 1 = (K + t - 1) div t * t + (K + t - 1) mod t" by simp
  moreover have "(K + t - 1) mod t < t" using t by simp
  ultimately show ?thesis by linarith
qed

text \<open>The sum over phases and tile positions is the sum over the inner dimension.\<close>

lemma sum_phases:
  fixes f :: "nat \<Rightarrow> int"
  assumes "0 < t"
  shows "(\<Sum>ph < (K + t - 1) div t. \<Sum>k < t. if ph * t + k < K then f (ph * t + k) else 0) =
    (\<Sum>i < K. f i)"
proof -
  let ?g = "\<lambda>i. if i < K then f i else 0"
  let ?P = "(K + t - 1) div t"
  have "(\<Sum>k < t. ?g (ph * t + k)) = sum ?g {ph * t ..< ph * t + t}" for ph
    using sum.shift_bounds_nat_ivl [of ?g 0 "ph * t" t]
    by (simp add: atLeast0LessThan add.commute cong: if_cong)
  then have "(\<Sum>ph < ?P. \<Sum>k < t. ?g (ph * t + k)) = sum ?g {..< ?P * t}"
    by (simp add: sum.nat_group)
  also have "\<dots> = sum f {..< K}"
    using phases_cover [OF assms, of K]
    by (intro sum.mono_neutral_cong_right) auto
  finally show ?thesis .
qed

lemma thread_sum_correct:
  assumes "consistent c" and "writes c row col gy gx ty tx" and "row < M" and "col < N"
  shows "thread_sum c junk A B M N K gy gx ty tx = (\<Sum>k < K. A row k * B k col)"
proof -
  let ?t = "tile_depth c"
  have t: "0 < ?t" using assms(1) by (simp add: consistent_def)
  have "shared_a c junk A M K gy ph ty k * shared_b c junk B N K gx ph k tx =
      (if ph * ?t + k < K then A row (ph * ?t + k) * B (ph * ?t + k) col else 0)" if "k < ?t" for ph k
    using assms that
    by (simp add: shared_a_def shared_b_def writes_def consistent_def Let_def)
  then have "thread_sum c junk A B M N K gy gx ty tx =
      (\<Sum>ph < (K + ?t - 1) div ?t. \<Sum>k < ?t.
         if ph * ?t + k < K then A row (ph * ?t + k) * B (ph * ?t + k) col else 0)"
    by (simp add: thread_sum_def)
  also have "\<dots> = (\<Sum>k < K. A row k * B k col)"
    by (rule sum_phases [OF t])
  finally show ?thesis .
qed

lemma writer_exists:
  assumes "consistent c"
  shows "\<exists>gy gx ty tx. writes c row col gy gx ty tx"
proof -
  have "writes c row col (row div tile_rows c) (col div tile_cols c)
      (row mod tile_rows c) (col mod tile_cols c)"
    using assms by (simp add: writes_def consistent_def)
  then show ?thesis by blast
qed

lemma writer_unique:
  assumes "consistent c" and "writes c row col gy gx ty tx"
  shows "gy = row div tile_rows c \<and> gx = col div tile_cols c \<and>
    ty = row mod tile_rows c \<and> tx = col mod tile_cols c"
  using assms by (simp add: writes_def consistent_def)

lemma row_not_written:
  assumes "block_y c < tile_rows c"
  shows "\<not> writes c (block_y c) col gy gx ty tx"
proof
  assume "writes c (block_y c) col gy gx ty tx"
  then have w: "ty < block_y c" "block_y c = gy * tile_rows c + ty" by (auto simp: writes_def)
  show False
  proof (cases gy)
    case 0
    with w show False by simp
  next
    case (Suc n)
    with w(2) assms show False by (simp add: add.assoc)
  qed
qed

section \<open>Properties\<close>

text \<open>With a thread block as large as its tiles the emitted matrix kernel is correct: every cell of
  the result is written by exactly one thread, and that thread writes the row by column product,
  for all matrix sizes, whatever the shared memory held before.\<close>

theorem tiled_matmul_correct:
  assumes "consistent c" and "row < M" and "col < N"
  shows "(\<exists>!(gy, gx, ty, tx). writes c row col gy gx ty tx) \<and>
    (\<forall>gy gx ty tx. writes c row col gy gx ty tx \<longrightarrow>
       thread_sum c junk A B M N K gy gx ty tx = (\<Sum>k < K. A row k * B k col))"
proof (intro conjI allI impI)
  show "\<exists>!(gy, gx, ty, tx). writes c row col gy gx ty tx"
    using writer_exists [OF assms(1), of row col] writer_unique [OF assms(1), of row col]
    by (auto simp: Ex1_def) metis
  show "thread_sum c junk A B M N K gy gx ty tx = (\<Sum>k < K. A row k * B k col)"
    if "writes c row col gy gx ty tx" for gy gx ty tx
    using thread_sum_correct [OF assms(1) that assms(2,3)] .
qed

theorem tiled_matmul_correct_witness:
  "\<forall>junk A B. thread_sum \<lparr>tile_rows = 16, tile_cols = 16, tile_depth = 16, block_x = 16, block_y = 16\<rparr>
     junk A B 40 40 40 2 1 5 3 = (\<Sum>k < 40. A 37 k * B k 19)"
  using tiled_matmul_correct
    [of "\<lparr>tile_rows = 16, tile_cols = 16, tile_depth = 16, block_x = 16, block_y = 16\<rparr>" 37 40 19 40]
  by (simp add: consistent_def writes_def)

end
