(* ===== verification/Jit.thy ===== *)
theory Jit
  imports Passes Codegen_Amd Codegen_Metal Codegen_Spirv Tiled_Matmul
begin

text \<open>
  The JIT engine of \<open>omni-core/src/jit.rs\<close>: the hash of a kernel, the compilation pipeline (lift,
  optimize, generate) and the cache in front of it. The two polynomial hashes of the crate share
  the interface \<open>hash_step\<close>.
\<close>

section \<open>The engine\<close>

text \<open>A panic of a pass, or an error of the generator that propagates with \<open>?\<close>.\<close>

datatype jit_error = PassPanic pass_panic | CodegenError codegen_error | LiftError string

record jit_engine =
  jit_hardware :: hardware_profile
  kernel_cache :: "u64 \<rightharpoonup> generated_kernel"

definition jit_new :: "hardware_profile \<Rightarrow> jit_engine" where
  "jit_new hw = \<lparr>jit_hardware = hw, kernel_cache = Map.empty\<rparr>"

definition hash_ptx :: "u8 list \<Rightarrow> u64 \<Rightarrow> u64" where
  "hash_ptx ptx_bytes kernel_id =
     (let hash = 0xcbf29ce484222325;
          hash = (hash * 0x00000100000001b3) XOR kernel_id
      in foldl (\<lambda>hash b. (hash * 0x00000100000001b3) XOR ucast b) hash ptx_bytes)"

fun generate_for :: "target_backend \<Rightarrow> omni_module \<Rightarrow> codegen_error + generated_kernel" where
  "generate_for (AmdRocm g w c) m = amd_generate m"
| "generate_for (AppleMetal n b c) m = metal_generate m"
| "generate_for (VulkanGeneric n i) m = spirv_generate m"
| "generate_for (CpuVectorized c w) m = spirv_generate m"
| "generate_for (RemoteP2p p l) m = spirv_generate m"

text \<open>The pipeline behind the cache.\<close>

definition compile_fresh ::
  "hardware_profile \<Rightarrow> u8 list \<Rightarrow> u64 \<Rightarrow> jit_error + generated_kernel" where
  "compile_fresh hw ptx_bytes kernel_id =
     (let (lifted, lifter) = lift_ptx ptx_bytes kernel_id lifter_new in
      case lifted of
        Inl e \<Rightarrow> Inl (LiftError e)
      | Inr m \<Rightarrow>
          (case run_passes hw m of
             Inl e \<Rightarrow> Inl (PassPanic e)
           | Inr m' \<Rightarrow> map_sum CodegenError id (generate_for (target_backend hw) m')))"

definition compile_ptx ::
  "u8 list \<Rightarrow> u64 \<Rightarrow> jit_engine \<Rightarrow> (jit_error + generated_kernel) \<times> jit_engine" where
  "compile_ptx ptx_bytes kernel_id j =
     (let kernel_hash = hash_ptx ptx_bytes kernel_id in
      case kernel_cache j kernel_hash of
        Some cached \<Rightarrow> (Inr cached, j)
      | None \<Rightarrow>
          (case compile_fresh (jit_hardware j) ptx_bytes kernel_id of
             Inl e \<Rightarrow> (Inl e, j)
           | Inr compiled \<Rightarrow>
               (Inr compiled, j\<lparr>kernel_cache := (kernel_cache j)(kernel_hash \<mapsto> compiled)\<rparr>)))"

definition clear_cache :: "jit_engine \<Rightarrow> jit_engine" where
  "clear_cache j = j\<lparr>kernel_cache := Map.empty\<rparr>"

section \<open>Hash steps\<close>

text \<open>
  A hash that absorbs one word per step. Each step is injective in the state and in the word; then
  so is the whole hash in the initial state and in any single word.
\<close>

locale hash_step =
  fixes absorb :: "u64 \<Rightarrow> u64 \<Rightarrow> u64"
  assumes absorb_state: "absorb a x = absorb b x \<Longrightarrow> a = b"
    and absorb_word: "absorb a x = absorb a y \<Longrightarrow> x = y"
begin

lemma foldl_state: "foldl absorb a xs = foldl absorb b xs \<Longrightarrow> a = b"
  by (induction xs arbitrary: a b) (auto dest: absorb_state)

lemma foldl_word:
  "foldl absorb a (xs @ x # ys) = foldl absorb a (xs @ y # ys) \<Longrightarrow> x = y"
  by (auto dest!: foldl_state absorb_word)

lemma foldl_surj: "\<exists>a. foldl absorb a xs = h"
proof -
  have "inj (\<lambda>a. foldl absorb a xs)" by (rule injI) (rule foldl_state)
  then have "surj (\<lambda>a. foldl absorb a xs)" by (rule finite_UNIV_inj_surj [OF finite])
  then show ?thesis by (metis surjD)
qed

end

lemma odd_multiplier:
  assumes "a * 0x00000100000001b3 = b * (0x00000100000001b3 :: u64)"
  shows "a = b"
proof -
  have inverse: "0x00000100000001b3 * 0xce965057aff6957b = (1 :: u64)" by simp
  have "a * (0x00000100000001b3 * 0xce965057aff6957b) = b * (0x00000100000001b3 * (0xce965057aff6957b :: u64))"
    by (simp only: mult.assoc [symmetric] assms)
  then show ?thesis by (simp only: inverse mult_1_right)
qed

lemma xor_cancel: "a XOR x = b XOR x \<longleftrightarrow> a = (b :: u64)"
proof
  assume "a XOR x = b XOR x"
  then have "(a XOR x) XOR x = (b XOR x) XOR x" by simp
  then show "a = b" by (simp add: xor.assoc)
qed simp

lemma xor_cancel_left: "x XOR a = x XOR b \<longleftrightarrow> a = (b :: u64)"
  using xor_cancel [of a x b] by (simp add: xor.commute)

interpretation fnv_xor: hash_step "\<lambda>h w. (h * 0x00000100000001b3) XOR w"
proof
  show "a = b" if "(a * 0x00000100000001b3) XOR x = (b * 0x00000100000001b3) XOR x" for a b x :: u64
    using that by (simp only: xor_cancel odd_multiplier)
  show "x = y" if "(a * 0x00000100000001b3) XOR x = (a * 0x00000100000001b3) XOR y" for a x y :: u64
    using that by (simp only: xor_cancel_left)
qed

interpretation poly_add: hash_step "\<lambda>h w. h * 0x00000100000001b3 + w"
proof
  show "a = b" if "a * 0x00000100000001b3 + x = b * 0x00000100000001b3 + x" for a b x :: u64
    using that by (simp only: add_right_cancel odd_multiplier)
  show "x = y" if "a * 0x00000100000001b3 + x = a * 0x00000100000001b3 + y" for a x y :: u64
    using that by (simp only: add_left_cancel)
qed

text \<open>Both hashes of the crate are folds of a step over the widened bytes.\<close>

lemma hash_ptx_fold:
  "hash_ptx bs kid =
     foldl (\<lambda>h w. (h * 0x00000100000001b3) XOR w) 0xcbf29ce484222325 (kid # map ucast bs)"
  by (simp add: hash_ptx_def Let_def foldl_map)

lemma hash_bytes_fold:
  "hash_bytes bs = foldl (\<lambda>h w. h * 0x00000100000001b3 + w) 0xcbf29ce484222325 (map ucast bs)"
  by (simp add: hash_bytes_def foldl_map)

lemma ucast_byte_inject: "(ucast a :: u64) = ucast b \<longleftrightarrow> a = (b :: u8)"
proof -
  have "unat (ucast w :: u64) = unat w" for w :: u8
    using unsigned_less [of w, where 'a = nat] by (simp add: unsigned_ucast_eq take_bit_nat_eq_self)
  then show ?thesis by (metis word_unat_eq_iff)
qed

lemma hash_ptx_kernel_id: "hash_ptx bs i = hash_ptx bs j \<Longrightarrow> i = j"
  using fnv_xor.foldl_word [of "0xcbf29ce484222325" "[]" i "map ucast bs" j]
  by (simp add: hash_ptx_fold)

lemma hash_ptx_byte: "hash_ptx (bs @ a # cs) i = hash_ptx (bs @ b # cs) i \<Longrightarrow> a = b"
  using fnv_xor.foldl_word [of "0xcbf29ce484222325" "i # map ucast bs" "ucast a" "map ucast cs" "ucast b"]
  by (simp add: hash_ptx_fold ucast_byte_inject)

lemma hash_bytes_byte: "hash_bytes (bs @ a # cs) = hash_bytes (bs @ b # cs) \<Longrightarrow> a = b"
  using poly_add.foldl_word [of "0xcbf29ce484222325" "map ucast bs" "ucast a" "map ucast cs" "ucast b"]
  by (simp add: hash_bytes_fold ucast_byte_inject)

lemma hash_ptx_any_id: "\<exists>j. hash_ptx cs j = hash_ptx bs i"
proof -
  obtain a where a: "foldl (\<lambda>h w. (h * 0x00000100000001b3) XOR w) a (map ucast cs) = hash_ptx bs i"
    using fnv_xor.foldl_surj by blast
  let ?c = "0xcbf29ce484222325 * 0x00000100000001b3 :: u64"
  have "?c XOR (?c XOR a) = a" by (simp only: xor.assoc [symmetric] xor_self_eq xor.left_neutral)
  then have "hash_ptx cs (?c XOR a) = hash_ptx bs i"
    unfolding hash_ptx_fold [of cs] by (simp only: foldl_Cons a)
  then show ?thesis by blast
qed

section \<open>The pipeline on lifted modules\<close>

lemma run_passes_singleton:
  assumes "ops m = [p]" and "op_id p = 0" and "kind p \<noteq> Add" "kind p \<noteq> Mul" "\<And>c. kind p \<noteq> Fill c"
  shows "run_passes hw m = Inr (m\<lparr>ops := [tile_op (tile_size (target_backend hw)) p]\<rparr>)"
proof -
  have "fold_op Map.empty p = Inr (Map.empty, p)"
    using assms(3-5) by (simp add: fold_op_def Let_def split: op_kind.split)
  then show ?thesis
    using assms(1,2)
    by (simp add: run_passes_def run_constant_folding_def run_operator_fusion_def
        run_loop_tiling_def run_dce_def op_count_def)
qed

lemma classify_ptx_kind:
  "classify_ptx bs \<noteq> Add" "classify_ptx bs \<noteq> Mul" "classify_ptx bs \<noteq> Fill c"
  by (simp_all add: classify_ptx_def Let_def)

text \<open>What the generator of a backend calls itself in its errors.\<close>

fun backend_name :: "target_backend \<Rightarrow> string" where
  "backend_name (AmdRocm g w c) = ''AmdGpuCodegen''"
| "backend_name (AppleMetal n b c) = ''MetalCodegen''"
| "backend_name _ = ''SpirvCodegen''"

lemma generate_for_singleton_error:
  "ops m = [p] \<Longrightarrow> \<not> supported (kind p) \<Longrightarrow>
     generate_for b m = Inl (NotImplemented (backend_name b) (kind p))"
  by (cases b) (simp_all add: amd.gen_singleton_error metal.gen_singleton_error
      spirv.gen_singleton_error)

lemma generate_for_matmul:
  "ops m = [p] \<Longrightarrow> kind p = MatMul \<Longrightarrow>
     map_sum id kernel_name (generate_for b m) = Inr (''omni_matmul_'' @ dec (unat (op_id p)))"
  by (cases b) (simp_all add: amd_generate_def metal_generate_def spirv_generate_def
      amd_lower_op_def metal_lower_op_def spirv_lower_op_def)

lemma generate_for_opaque:
  "ops m = [p] \<Longrightarrow> kind p = Opaque h \<Longrightarrow>
     map_sum id kernel_name (generate_for b m) = Inr (''omni_fallback_'' @ dec (unat (op_id p)))"
  by (cases b) (simp_all add: amd_generate_def metal_generate_def spirv_generate_def
      amd_lower_op_def metal_lower_op_def spirv_lower_op_def)

lemma compile_fresh_lifted:
  obtains m p where "ops m = [p]" "op_id p = 0" "kind p = classify_ptx bs"
    "op_attrs p ''fused_activation'' = None"
    "compile_fresh hw bs kid = map_sum CodegenError id (generate_for (target_backend hw) m)"
proof -
  obtain m l where m: "lift_ptx bs kid lifter_new = (Inr m, l)"
    by (simp add: lift_ptx_eq Let_def)
  then obtain p where p: "ops m = [p]" "op_id p = 0" "kind p = classify_ptx bs"
    "op_attrs p = Map.empty"
    by (auto simp: lift_ptx_eq Let_def)
  let ?q = "tile_op (tile_size (target_backend hw)) p"
  have "run_passes hw m = Inr (m\<lparr>ops := [?q]\<rparr>)"
    using p classify_ptx_kind [of bs] by (intro run_passes_singleton) auto
  then have "compile_fresh hw bs kid =
      map_sum CodegenError id (generate_for (target_backend hw) (m\<lparr>ops := [?q]\<rparr>))"
    by (simp add: compile_fresh_def m)
  then show thesis
    using that [of "m\<lparr>ops := [?q]\<rparr>" ?q] p by (simp add: tile_op_def)
qed

lemma classify_ptx_cases:
  "classify_ptx bs = MatMul \<or> (\<exists>h. classify_ptx bs = Opaque h) \<or>
   classify_ptx bs = Softmax (- 1) \<or> classify_ptx bs = UnaryFunc Exp"
  by (simp add: classify_ptx_def Let_def)

lemma compile_fresh_name:
  "classify_ptx bs = MatMul \<Longrightarrow>
     map_sum id kernel_name (compile_fresh hw bs kid) = Inr ''omni_matmul_0''"
  "classify_ptx bs = Opaque h \<Longrightarrow>
     map_sum id kernel_name (compile_fresh hw bs kid) = Inr ''omni_fallback_0''"
proof -
  obtain m p where c: "ops m = [p]" "op_id p = 0" "kind p = classify_ptx bs"
    "compile_fresh hw bs kid = map_sum CodegenError id (generate_for (target_backend hw) m)"
    by (rule compile_fresh_lifted)
  have d: "dec 0 = ''0''" by (simp add: dec_def digits_in.simps digit_char_def) code_simp
  show "classify_ptx bs = MatMul \<Longrightarrow>
     map_sum id kernel_name (compile_fresh hw bs kid) = Inr ''omni_matmul_0''"
    using generate_for_matmul [OF c(1), of "target_backend hw"] c d
    by (cases "generate_for (target_backend hw) m") auto
  show "classify_ptx bs = Opaque h \<Longrightarrow>
     map_sum id kernel_name (compile_fresh hw bs kid) = Inr ''omni_fallback_0''"
    using generate_for_opaque [OF c(1), of h "target_backend hw"] c d
    by (cases "generate_for (target_backend hw) m") auto
qed

lemma compile_fresh_unsupported:
  assumes "\<not> supported (classify_ptx bs)"
  shows "compile_fresh hw bs kid =
    Inl (CodegenError (NotImplemented (backend_name (target_backend hw)) (classify_ptx bs)))"
proof -
  obtain m p where "ops m = [p]" "kind p = classify_ptx bs"
    "compile_fresh hw bs kid = map_sum CodegenError id (generate_for (target_backend hw) m)"
    by (rule compile_fresh_lifted)
  with assms show ?thesis by (simp add: generate_for_singleton_error)
qed

section \<open>The cache\<close>

datatype jit_request = Compile "u8 list" u64 | ClearCache

fun run_jit :: "jit_request list \<Rightarrow> jit_engine \<Rightarrow> (jit_error + generated_kernel) list" where
  "run_jit [] j = []"
| "run_jit (Compile bs i # rs) j = (let (r, j') = compile_ptx bs i j in r # run_jit rs j')"
| "run_jit (ClearCache # rs) j = run_jit rs (clear_cache j)"

text \<open>The same requests without a cache.\<close>

fun run_fresh :: "jit_request list \<Rightarrow> hardware_profile \<Rightarrow> (jit_error + generated_kernel) list" where
  "run_fresh [] hw = []"
| "run_fresh (Compile bs i # rs) hw = compile_fresh hw bs i # run_fresh rs hw"
| "run_fresh (ClearCache # rs) hw = run_fresh rs hw"

fun compiled_keys :: "jit_request list \<Rightarrow> (u8 list \<times> u64) set" where
  "compiled_keys [] = {}"
| "compiled_keys (Compile bs i # rs) = insert (bs, i) (compiled_keys rs)"
| "compiled_keys (ClearCache # rs) = compiled_keys rs"

definition cache_ok :: "(u8 list \<times> u64) set \<Rightarrow> jit_engine \<Rightarrow> bool" where
  "cache_ok keys j \<longleftrightarrow>
     (\<forall>(bs, i) \<in> keys. \<forall>k. kernel_cache j (hash_ptx bs i) = Some k \<longrightarrow>
        compile_fresh (jit_hardware j) bs i = Inr k)"

lemma compile_ptx_ok:
  assumes "cache_ok keys j" and "(bs, i) \<in> keys" and "inj_on (\<lambda>(bs, i). hash_ptx bs i) keys"
  shows "fst (compile_ptx bs i j) = compile_fresh (jit_hardware j) bs i \<and>
    cache_ok keys (snd (compile_ptx bs i j)) \<and>
    jit_hardware (snd (compile_ptx bs i j)) = jit_hardware j"
proof (cases "kernel_cache j (hash_ptx bs i)")
  case None
  show ?thesis
  proof (cases "compile_fresh (jit_hardware j) bs i")
    case (Inl e)
    then show ?thesis using None assms(1) by (simp add: compile_ptx_def)
  next
    case (Inr k)
    have "hash_ptx cs l = hash_ptx bs i \<Longrightarrow> (cs, l) \<in> keys \<Longrightarrow> cs = bs \<and> l = i" for cs l
      using inj_onD [OF assms(3), of "(cs, l)" "(bs, i)"] assms(2) by simp
    then have "cache_ok keys (j\<lparr>kernel_cache := (kernel_cache j)(hash_ptx bs i \<mapsto> k)\<rparr>)"
      using assms(1) Inr by (auto simp: cache_ok_def)
    with None Inr show ?thesis by (simp add: compile_ptx_def)
  qed
next
  case (Some k)
  with assms(1,2) have "compile_fresh (jit_hardware j) bs i = Inr k"
    by (auto simp: cache_ok_def)
  with Some assms(1) show ?thesis by (simp add: compile_ptx_def)
qed

lemma run_jit_fresh:
  assumes "cache_ok keys j" and "compiled_keys rs \<subseteq> keys" and "inj_on (\<lambda>(bs, i). hash_ptx bs i) keys"
  shows "run_jit rs j = run_fresh rs (jit_hardware j)"
  using assms(1,2)
proof (induction rs arbitrary: j rule: compiled_keys.induct)
  case (2 bs i rs)
  then show ?case
    using compile_ptx_ok [OF "2.prems"(1) _ assms(3), of bs i]
    by (auto simp: Let_def split: prod.splits)
next
  case (3 rs)
  then show ?case by (simp add: cache_ok_def clear_cache_def)
qed simp

section \<open>Launch configurations\<close>

text \<open>The tile sizes in the attributes of a matrix product, with the block of its kernel.\<close>

fun launch_config :: "omni_op \<Rightarrow> block \<Rightarrow> kernel_config" where
  "launch_config p (bx, by, bz) =
     \<lparr>tile_rows = unat (int_attr p ''tile_m'' 0), tile_cols = unat (int_attr p ''tile_n'' 0),
      tile_depth = unat (int_attr p ''tile_k'' 0), block_x = unat bx, block_y = unat by\<rparr>"

fun is_vulkan :: "target_backend \<Rightarrow> bool" where
  "is_vulkan (VulkanGeneric n i) = True"
| "is_vulkan _ = False"

lemma generate_for_matmul_block:
  assumes "ops m = [p]" and "kind p = MatMul"
  shows "map_sum id block_size (generate_for b m) =
    Inr (case b of AmdRocm g w c \<Rightarrow> (8, 8, 1) | AppleMetal n u c \<Rightarrow> (8, 8, 1) | _ \<Rightarrow> (16, 16, 1))"
  using assms
  by (cases b) (simp_all add: amd_generate_def metal_generate_def spirv_generate_def
      amd_lower_op_def metal_lower_op_def spirv_lower_op_def)

section \<open>Properties\<close>

text \<open>C10: The cache is transparent as long as the hashes of the compiled kernels do not collide: every
  sequence of compilations and cache flushes gives the results of compiling afresh each time.\<close>

theorem jit_cache_transparent:
  assumes "inj_on (\<lambda>(bs, i). hash_ptx bs i) (compiled_keys rs)"
  shows "run_jit rs (jit_new hw) = run_fresh rs hw"
proof -
  have "cache_ok (compiled_keys rs) (jit_new hw)" by (simp add: cache_ok_def jit_new_def)
  from run_jit_fresh [OF this order_refl assms] show ?thesis by (simp add: jit_new_def)
qed

theorem jit_cache_transparent_witness:
  "\<forall>hw. run_jit [Compile [1] 7, Compile [2] 7, Compile [1] 7] (jit_new hw) =
   run_fresh [Compile [1] 7, Compile [2] 7, Compile [1] 7] hw"
proof -
  have "hash_ptx [1] 7 \<noteq> hash_ptx [2] 7"
    using hash_ptx_byte [of "[]" 1 "[]" 7 2] by auto
  then show ?thesis by (intro allI jit_cache_transparent) (auto simp: inj_on_def)
qed

text \<open>The hash separates kernels that have the same bytes but different identifiers, and kernels of
  which exactly one byte differs; the hash of opaque operations separates the latter as well.\<close>

theorem hash_separates:
  "(i \<noteq> j \<longrightarrow> hash_ptx bs i \<noteq> hash_ptx bs j) \<and>
   (a \<noteq> b \<longrightarrow> hash_ptx (bs @ a # cs) i \<noteq> hash_ptx (bs @ b # cs) i \<and>
      hash_bytes (bs @ a # cs) \<noteq> hash_bytes (bs @ b # cs))"
  using hash_ptx_kernel_id hash_ptx_byte hash_bytes_byte by blast

theorem hash_separates_witness: "hash_ptx [1, 2, 3] 0 \<noteq> hash_ptx [1, 9, 3] 0"
  using hash_separates [of 0 0 "[1]" 2 9 "[3]"] by simp

text \<open>A cache hit compares hashes only: for every two kernel texts and every identifier of the first
  there is an identifier of the second with the same hash, and once a matrix kernel is compiled,
  the compilation of some opaque kernel returns the matrix kernel.\<close>

theorem hash_collision_returns_wrong_kernel:
  "(\<exists>j. hash_ptx cs j = hash_ptx bs i) \<and>
   (\<exists>j. map_sum id kernel_name (fst (compile_ptx [] j
            (snd (compile_ptx (bytes_of ''mma.sync'') i (jit_new hw))))) = Inr ''omni_matmul_0'' \<and>
        map_sum id kernel_name (compile_fresh hw [] j) = Inr ''omni_fallback_0'')"
proof -
  let ?bs = "bytes_of ''mma.sync''"
  have m: "classify_ptx ?bs = MatMul" by code_simp
  have o: "classify_ptx [] = Opaque (hash_bytes [])"
    by (simp add: classify_ptx_def ptx_text_def string_of_bytes_def)
  obtain j where j: "hash_ptx [] j = hash_ptx ?bs i" using hash_ptx_any_id by blast
  obtain k where k: "compile_fresh hw ?bs i = Inr k" "kernel_name k = ''omni_matmul_0''"
    using compile_fresh_name(1) [OF m, of hw i] by (cases "compile_fresh hw ?bs i") auto
  have "fst (compile_ptx [] j (snd (compile_ptx ?bs i (jit_new hw)))) = Inr k"
    using j k(1) by (simp add: compile_ptx_def jit_new_def)
  then have "map_sum id kernel_name (fst (compile_ptx [] j (snd (compile_ptx ?bs i (jit_new hw)))))
      = Inr ''omni_matmul_0''"
    by (simp add: k(2))
  with compile_fresh_name(2) [OF o, of hw j] hash_ptx_any_id [of cs bs i] show ?thesis by blast
qed

text \<open>C34: The outcome of a compilation on every backend: kernels that mention a matrix instruction and
  kernels without any known pattern compile to one entry point; the two other classes that the
  lifter recognizes (softmax and exponential) are lowered by no generator, so their compilation
  always fails.\<close>

theorem compile_outcome:
  "case classify_ptx bs of
     MatMul \<Rightarrow> map_sum id kernel_name (compile_fresh hw bs i) = Inr ''omni_matmul_0''
   | Opaque h \<Rightarrow> map_sum id kernel_name (compile_fresh hw bs i) = Inr ''omni_fallback_0''
   | k \<Rightarrow> (k = Softmax (- 1) \<or> k = UnaryFunc Exp) \<and>
       compile_fresh hw bs i =
         Inl (CodegenError (NotImplemented (backend_name (target_backend hw)) k))"
proof -
  consider "classify_ptx bs = MatMul" | h where "classify_ptx bs = Opaque h"
    | "classify_ptx bs = Softmax (- 1)" | "classify_ptx bs = UnaryFunc Exp"
    using classify_ptx_cases [of bs] by blast
  then show ?thesis
  proof cases
    case 1
    then show ?thesis using compile_fresh_name(1) [OF 1] by simp
  next
    case 2
    then show ?thesis using compile_fresh_name(2) [OF 2] by simp
  next
    case 3
    then show ?thesis using compile_fresh_unsupported [of bs hw i] by (simp add: supported_def)
  next
    case 4
    then show ?thesis using compile_fresh_unsupported [of bs hw i] by (simp add: supported_def)
  qed
qed

text \<open>The tile sizes that the pass manager writes match the thread block of the generator for
  Vulkan devices only. For every other backend the configuration of the emitted matrix kernel is
  not the one for which the kernel is correct; on AMD and Apple devices the rows from 8 up to the
  tile size are written by no thread.\<close>

theorem matmul_launch_config:
  assumes "ops m = [p]" and "kind p = MatMul"
  shows "\<exists>k p'. generate_for b (m\<lparr>ops := [p']\<rparr>) = Inr k \<and> p' = tile_op (tile_size b) p \<and>
    (consistent (launch_config p' (block_size k)) \<longleftrightarrow> is_vulkan b) \<and>
    ((\<exists>g w c. b = AmdRocm g w c) \<or> (\<exists>n u c. b = AppleMetal n u c) \<longrightarrow>
       (\<forall>col gy gx ty tx. \<not> writes (launch_config p' (block_size k)) 8 col gy gx ty tx))"
proof -
  let ?p = "tile_op (tile_size b) p"
  let ?m = "m\<lparr>ops := [?p]\<rparr>"
  have attrs: "int_attr ?p ''tile_m'' 0 = tile_size b" "int_attr ?p ''tile_n'' 0 = tile_size b"
    "int_attr ?p ''tile_k'' 0 = 16"
    using assms(2) by (simp_all add: tile_op_def int_attr_def)
  obtain k where k: "generate_for b ?m = Inr k"
    "block_size k = (case b of AmdRocm g w c \<Rightarrow> (8, 8, 1) | AppleMetal n u c \<Rightarrow> (8, 8, 1) | _ \<Rightarrow> (16, 16, 1))"
    using generate_for_matmul_block [of ?m ?p b] assms(2) by (cases "generate_for b ?m") auto
  have "consistent (launch_config ?p (block_size k)) \<longleftrightarrow> is_vulkan b"
    using attrs k(2) by (cases b) (simp_all add: consistent_def)
  moreover have "(\<exists>g w c. b = AmdRocm g w c) \<or> (\<exists>n u c. b = AppleMetal n u c) \<Longrightarrow>
      \<not> writes (launch_config ?p (block_size k)) 8 col gy gx ty tx" for col gy gx ty tx
    using attrs k(2) row_not_written [of "launch_config ?p (block_size k)" col gy gx ty tx] by auto
  ultimately show ?thesis using k(1) by blast
qed

theorem matmul_launch_config_witness:
  "\<exists>k. generate_for (VulkanGeneric [] 1024)
      (module_new\<lparr>ops := [tile_op 16 (plain_op MatMul [''a'', ''b''] ''c'')]\<rparr>) = Inr k \<and>
     consistent (launch_config (tile_op 16 (plain_op MatMul [''a'', ''b''] ''c'')) (block_size k))"
  using matmul_launch_config
    [of "module_new\<lparr>ops := [plain_op MatMul [''a'', ''b''] ''c'']\<rparr>" "plain_op MatMul [''a'', ''b''] ''c''"
      "VulkanGeneric [] 1024"]
  by (simp add: plain_op_def)

end
