(* ===== verification/Runtime.thy ===== *)
theory Runtime
  imports Pager Jit
begin

text \<open>
  \<open>OmniRuntime\<close> of \<open>omni-core/src/lib.rs\<close>: one instance holds the profile of the probed hardware,
  the JIT engine for it, the allocator and the pager over the same allocator. The shared allocator
  is the memory of the pager.
\<close>

record omni_runtime =
  runtime_jit :: jit_engine
  runtime_pager :: "duvas_allocator pager"
  runtime_hardware :: hardware_profile

definition runtime_allocator :: "omni_runtime \<Rightarrow> duvas_allocator" where
  "runtime_allocator rt = memory (runtime_pager rt)"

definition runtime_init :: "machine \<Rightarrow> string + omni_runtime" where
  "runtime_init mc =
     (case probe mc of
        Inl e \<Rightarrow> Inl e
      | Inr hw \<Rightarrow>
          (let jit = jit_new hw;
               allocator = duvas_new (vram_bytes hw);
               pager = pager_new allocator
           in Inr \<lparr>runtime_jit = jit, runtime_pager = pager, runtime_hardware = hw\<rparr>))"

text \<open>The pager and the threads that use the allocator, from an initialized runtime.\<close>

abbreviation runtime_reach :: "omni_runtime \<Rightarrow> duvas_allocator pager \<Rightarrow> bool" where
  "runtime_reach rt \<equiv> pager_reach get_domain migrate duvas_step (runtime_allocator rt)"

lemma worker_step_capacity:
  "worker_step get_domain migrate t p = Some q \<Longrightarrow>
   device_capacity_bytes (memory q) = device_capacity_bytes (memory p)"
  by (auto simp: worker_step_def move_command_def frame_simps Let_def
      split: worker_pc.splits list.splits if_splits page_command.splits prod.splits sum.splits
      dest!: arg_cong [where f = snd])

lemma pager_step_capacity:
  "pager_step get_domain migrate duvas_step p q \<Longrightarrow>
   device_capacity_bytes (memory q) = device_capacity_bytes (memory p)"
  by (induction rule: pager_step.induct)
     (simp_all add: send_def worker_step_capacity duvas_step_capacity)

lemma runtime_capacity:
  "pager_reach get_domain migrate duvas_step a p \<Longrightarrow>
   device_capacity_bytes (memory p) = device_capacity_bytes a"
proof (induction rule: pager_reach.induct)
  case pager_start
  show ?case by (simp add: pager_new_def)
next
  case (pager_next p q)
  then show ?case by (simp add: pager_step_capacity)
qed

lemma runtime_init_eq:
  "\<exists>hw. probe mc = Inr hw \<and> profile_ok hw \<and>
    runtime_init mc = Inr \<lparr>runtime_jit = jit_new hw, runtime_pager = pager_new (duvas_new (vram_bytes hw)),
                           runtime_hardware = hw\<rparr>"
proof -
  obtain hw where "probe mc = Inr hw" "profile_ok hw"
    using probe_usable by blast
  then show ?thesis by (simp add: runtime_init_def Let_def)
qed

text \<open>C33: On every machine the runtime initializes. The subsystems agree on the probed hardware: the
  engine compiles for its backend with an empty cache, and the allocator has its VRAM, which is
  not zero, as capacity, now and in every later state that clients and the pager's worker reach,
  and in all of them the allocator's counters are exact.\<close>

theorem runtime_consistent:
  "\<exists>rt hw. runtime_init mc = Inr rt \<and> probe mc = Inr hw \<and> profile_ok hw \<and>
     jit_hardware (runtime_jit rt) = hw \<and> kernel_cache (runtime_jit rt) = Map.empty \<and>
     get_metrics (runtime_allocator rt) = (0, vram_bytes hw, 0) \<and>
     {p. runtime_reach rt p} \<subseteq>
       {p. alloc_inv (memory p) \<and> device_capacity_bytes (memory p) = vram_bytes hw}"
proof -
  obtain hw where hw: "probe mc = Inr hw" "profile_ok hw"
    and init: "runtime_init mc = Inr \<lparr>runtime_jit = jit_new hw,
      runtime_pager = pager_new (duvas_new (vram_bytes hw)), runtime_hardware = hw\<rparr>"
    using runtime_init_eq by blast
  have "alloc_inv (memory p) \<and> device_capacity_bytes (memory p) = vram_bytes hw"
    if p: "pager_reach get_domain migrate duvas_step (duvas_new (vram_bytes hw)) p" for p
    using duvas.inv_pager_reach [OF p reach_inv [OF reach_new]] duvas_step_inv
      runtime_capacity [OF p] by (auto simp: duvas_new_def)
  with hw init show ?thesis
    by (auto simp: runtime_allocator_def jit_new_def pager_new_def get_metrics_def duvas_new_def)
qed

end
