(* ===== verification/Router.thy ===== *)
theory Router
  imports Dialect
begin

text \<open>
  The task router of \<open>omni-net/src/scheduler/router.rs\<close>: the split of a module into operations
  that stay local and operations that may be offloaded, and the assignment of the latter to
  worker nodes by score, in single precision.
\<close>

section \<open>Data\<close>

record worker_node =
  worker_peer_id :: string
  worker_tflops :: f32
  rtt_ms :: f32
  vram_capacity_bytes :: u64
  current_load :: f32

record task_dispatch =
  target_peer_id :: string
  dispatch_op_id :: u64
  dispatch_op :: omni_op
  priority :: f32

datatype router_error = NoActiveWorkers

section \<open>Blind splitting\<close>

datatype placement = LocalSet | GlobalSet

definition placement_of :: "op_kind \<Rightarrow> placement" where
  "placement_of k =
     (case k of
        Gather axis \<Rightarrow> LocalSet
      | Scatter axis \<Rightarrow> LocalSet
      | Softmax axis \<Rightarrow> LocalSet
      | MatMul \<Rightarrow> GlobalSet
      | BatchedMatMul \<Rightarrow> GlobalSet
      | Add \<Rightarrow> GlobalSet
      | Mul \<Rightarrow> GlobalSet
      | UnaryFunc f \<Rightarrow> GlobalSet
      | _ \<Rightarrow> LocalSet)"

fun split_ops :: "omni_op list \<Rightarrow> omni_op list \<times> omni_op list" where
  "split_ops [] = ([], [])"
| "split_ops (p # ps) =
     (let (local_ops, global_ops) = split_ops ps in
      case placement_of (kind p) of
        LocalSet \<Rightarrow> (p # local_ops, global_ops)
      | GlobalSet \<Rightarrow> (local_ops, p # global_ops))"

definition blind_split :: "omni_module \<Rightarrow> router_error + omni_op list \<times> omni_op list" where
  "blind_split m = Inr (split_ops (ops m))"

section \<open>Scheduling\<close>

definition load_factor :: "worker_node \<Rightarrow> f32" where
  "load_factor w =
     (if fle (literal binary32 99 1) (current_load w) then literal binary32 100 1
      else fadd binary32 (literal binary32 1 1)
             (fdiv binary32 (current_load w) (literal binary32 100 1)))"

definition score :: "worker_node \<Rightarrow> f32" where
  "score w =
     fmul binary32 (fdiv binary32 (worker_tflops w) (load_factor w))
       (fdiv binary32 (literal binary32 1000 1)
          (fadd binary32 (rtt_ms w) (literal binary32 1 1)))"

text \<open>The inner loop with its variables \<open>best_worker\<close> and \<open>best_score\<close>.\<close>

fun best_loop :: "worker_node list \<Rightarrow> worker_node \<Rightarrow> f32 \<Rightarrow> worker_node \<times> f32" where
  "best_loop [] best_worker best_score = (best_worker, best_score)"
| "best_loop (w # ws) best_worker best_score =
     (if flt best_score (score w) then best_loop ws w (score w)
      else best_loop ws best_worker best_score)"

definition best_of :: "worker_node list \<Rightarrow> worker_node \<times> f32" where
  "best_of workers = best_loop workers (hd workers) (fneg (literal binary32 1 1))"

definition dispatch :: "worker_node list \<Rightarrow> nat \<Rightarrow> omni_op \<Rightarrow> task_dispatch" where
  "dispatch workers i p =
     (let (best_worker, best_score) = best_of workers;
          prio = fmul binary32 best_score
                   (fdiv binary32 (literal binary32 1 1) (of_unsigned binary32 (i + 1)))
      in \<lparr>target_peer_id = worker_peer_id best_worker, dispatch_op_id = op_id p,
          dispatch_op = p, priority = prio\<rparr>)"

fun dispatch_all :: "worker_node list \<Rightarrow> nat \<Rightarrow> omni_op list \<Rightarrow> task_dispatch list" where
  "dispatch_all workers i [] = []"
| "dispatch_all workers i (p # ps) = dispatch workers i p # dispatch_all workers (i + 1) ps"

definition schedule_global_ops ::
  "omni_op list \<Rightarrow> worker_node list \<Rightarrow> router_error + task_dispatch list" where
  "schedule_global_ops global_ops workers =
     (if workers = [] then Inl NoActiveWorkers else Inr (dispatch_all workers 0 global_ops))"

section \<open>Lemmas\<close>

lemma split_ops_filter:
  "split_ops ps = (filter (\<lambda>p. placement_of (kind p) = LocalSet) ps,
                   filter (\<lambda>p. placement_of (kind p) = GlobalSet) ps)"
  by (induction ps) (auto split: placement.splits prod.splits)

lemma best_loop_bound:
  "best_loop ws b s = (b', s') \<Longrightarrow>
     (s' = s \<or> flt s s') \<and> (\<forall>w \<in> set ws. \<not> flt s' (score w)) \<and>
     (b' = b \<and> s' = s \<or> b' \<in> set ws \<and> s' = score b')"
proof (induction ws arbitrary: b s)
  case (Cons w ws)
  show ?case
  proof (cases "flt s (score w)")
    case True
    with Cons.prems have "best_loop ws w (score w) = (b', s')" by simp
    from Cons.IH [OF this] True show ?thesis
      by (auto intro: flt_trans dest: flt_asym)
  next
    case False
    with Cons.prems have "best_loop ws b s = (b', s')" by simp
    from Cons.IH [OF this] False show ?thesis
      by (auto dest: flt_trans)
  qed
qed simp

lemma dispatch_all_map:
  "dispatch_all workers i ps = map (\<lambda>(j, p). dispatch workers j p) (enumerate i ps)"
  by (induction ps arbitrary: i) simp_all

lemma flt_minus_one: "nonneg x \<Longrightarrow> flt (fneg (literal binary32 1 1)) x"
proof (induction x)
  case (Finite s m e)
  have "fneg (literal binary32 1 1) = Finite True 8388608 (- 23)" by (simp add: float_eval)
  moreover have "scaled True 8388608 (- 23) t < 0" for t by (simp add: scaled_def)
  ultimately show ?case
    using Finite scaled_sign(1) [of m e "min (- 23) e"] by (auto simp: Let_def intro: less_le_trans)
qed (simp_all add: float_eval)

lemma best_of_max:
  assumes "w \<in> set workers" and "nonneg (score w)"
  shows "fst (best_of workers) \<in> set workers \<and> snd (best_of workers) = score (fst (best_of workers)) \<and>
    (\<forall>v \<in> set workers. \<not> flt (score (fst (best_of workers))) (score v))"
proof -
  obtain b s where bs: "best_of workers = (b, s)" by fastforce
  note bound = best_loop_bound [OF bs [unfolded best_of_def]]
  from flt_minus_one [OF assms(2)] bound assms(1) show ?thesis by (auto simp: bs)
qed

definition slow_worker :: worker_node where
  "slow_worker = \<lparr>worker_peer_id = ''a'', worker_tflops = literal binary32 20 1, rtt_ms = literal binary32 10 1,
     vram_capacity_bytes = 0, current_load = literal binary32 5 1\<rparr>"

definition fast_worker :: worker_node where
  "fast_worker = \<lparr>worker_peer_id = ''b'', worker_tflops = literal binary32 100 1, rtt_ms = literal binary32 50 1,
     vram_capacity_bytes = 0, current_load = literal binary32 10 1\<rparr>"

section \<open>Properties\<close>

text \<open>Blind splitting is a partition that keeps the order: every operation is in exactly one of the
  two lists, no embedding lookup, scatter or softmax is offloaded, and only matrix products,
  additions, multiplications and unary functions are.\<close>

theorem blind_split_partition:
  "\<exists>local_ops global_ops. blind_split m = Inr (local_ops, global_ops) \<and>
     local_ops = filter (\<lambda>p. placement_of (kind p) = LocalSet) (ops m) \<and>
     global_ops = filter (\<lambda>p. placement_of (kind p) = GlobalSet) (ops m) \<and>
     length local_ops + length global_ops = op_count m \<and>
     set local_ops \<inter> set global_ops = {} \<and>
     (\<forall>p \<in> set global_ops. kind p = MatMul \<or> kind p = BatchedMatMul \<or> kind p = Add \<or> kind p = Mul \<or>
        (\<exists>f. kind p = UnaryFunc f))"
proof -
  have g: "placement_of k = GlobalSet \<Longrightarrow>
      k = MatMul \<or> k = BatchedMatMul \<or> k = Add \<or> k = Mul \<or> (\<exists>f. k = UnaryFunc f)" for k
    by (cases k) (simp_all add: placement_of_def)
  have n: "(placement_of k = GlobalSet) = (placement_of k \<noteq> LocalSet)" for k
    by (cases "placement_of k") simp_all
  have "length (filter (\<lambda>p. placement_of (kind p) = LocalSet) (ops m)) +
      length (filter (\<lambda>p. placement_of (kind p) = GlobalSet) (ops m)) = op_count m"
    unfolding n op_count_def by (rule sum_length_filter_compl)
  then show ?thesis using g by (auto simp: blind_split_def split_ops_filter)
qed

theorem blind_split_partition_witness:
  "\<exists>l g. blind_split module_new = Inr (l, g) \<and> l = []"
  using blind_split_partition [of module_new] by (auto simp: module_new_def)

text \<open>C23: Scheduling gives one dispatch per operation, in order, all of them to the same worker: a
  worker whose score no other score exceeds, as soon as some score is a nonnegative number. (The
  load of the chosen worker is not updated between operations.) Without workers it is an error,
  even for no operations.\<close>

theorem schedule_assigns_best_worker:
  assumes "w \<in> set workers" and "nonneg (score w)"
  shows "\<exists>b ds. schedule_global_ops ps workers = Inr ds \<and> b \<in> set workers \<and>
    (\<forall>v \<in> set workers. \<not> flt (score b) (score v)) \<and>
    map dispatch_op ds = ps \<and> map dispatch_op_id ds = map op_id ps \<and>
    (\<forall>d \<in> set ds. target_peer_id d = worker_peer_id b) \<and>
    schedule_global_ops ps [] = Inl NoActiveWorkers"
proof -
  let ?b = "fst (best_of workers)"
  have "workers \<noteq> []" using assms(1) by auto
  moreover have "map dispatch_op (dispatch_all workers i ps) = ps \<and>
      map dispatch_op_id (dispatch_all workers i ps) = map op_id ps \<and>
      (\<forall>d \<in> set (dispatch_all workers i ps). target_peer_id d = worker_peer_id ?b)" for i
    by (induction ps arbitrary: i) (simp_all add: dispatch_def split: prod.split)
  ultimately show ?thesis
    using best_of_max [OF assms] by (auto simp: schedule_global_ops_def)
qed

theorem schedule_assigns_best_worker_witness:
  "\<forall>p. \<exists>ds. schedule_global_ops [p] [slow_worker, fast_worker] = Inr ds \<and>
     map target_peer_id ds = [''b'']"
proof
  fix p
  have n: "nonneg (score slow_worker)" and f: "flt (score slow_worker) (score fast_worker)"
    by (simp_all add: score_def load_factor_def slow_worker_def fast_worker_def float_eval)
  obtain b ds where ds: "schedule_global_ops [p] [slow_worker, fast_worker] = Inr ds"
    "b \<in> set [slow_worker, fast_worker]" "\<not> flt (score b) (score fast_worker)"
    "\<forall>d \<in> set ds. target_peer_id d = worker_peer_id b"
    using schedule_assigns_best_worker [of slow_worker "[slow_worker, fast_worker]" "[p]"] n by auto
  moreover from ds have "length ds = 1" by (auto simp: schedule_global_ops_def)
  moreover have "b = fast_worker" using calculation f by auto
  ultimately have "map target_peer_id ds = [''b'']"
    by (cases ds) (simp_all add: fast_worker_def)
  with ds show "\<exists>ds. schedule_global_ops [p] [slow_worker, fast_worker] = Inr ds \<and>
     map target_peer_id ds = [''b'']" by (intro exI [of _ ds]) simp
qed

text \<open>The formula in the comment is another one: it divides by the load, where the code divides by
  one plus the load as a fraction, so an idle worker has a finite score.\<close>

lemma idle_worker_score:
  "score (fast_worker\<lparr>current_load := literal binary32 0 1\<rparr>) =
     fmul binary32 (literal binary32 100 1) (fdiv binary32 (literal binary32 1000 1) (literal binary32 51 1)) \<and>
   fdiv binary32 (literal binary32 100 1) (literal binary32 0 1) = Infinity False"
  by (simp add: score_def load_factor_def fast_worker_def float_eval)

end
