(* ===== verification/Router_Scores.thy ===== *)
theory Router_Scores
  imports Router Ieee_Rounding
begin

text \<open>
  The order that the scores of \<open>schedule_global_ops\<close> (\<open>omni-net/src/scheduler/router.rs\<close>) give to
  workers and to operations. The comment of the source asks for higher throughput, lower latency
  and lower load; the score is computed with six roundings, none of which turns this order around.
\<close>

section \<open>Plausible profiles\<close>

text \<open>A profile whose three numbers are nonnegative finite values of the format.\<close>

definition worker_ok :: "worker_node \<Rightarrow> bool" where
  "worker_ok w \<longleftrightarrow>
     (\<forall>x \<in> {worker_tflops w, rtt_ms w, current_load w}. nonneg x \<and> format_ok binary32 x)"

lemma nonneg_format_ok: "nonneg x \<Longrightarrow> format_ok F x \<Longrightarrow> \<exists>m e. x = Finite False m e"
  by (cases x) auto

lemma worker_ok_cases:
  assumes "worker_ok w"
  obtains a b c d e f where "worker_tflops w = Finite False a b" "rtt_ms w = Finite False c d"
    "current_load w = Finite False e f" "format_ok binary32 (Finite False a b)"
    "format_ok binary32 (Finite False c d)" "format_ok binary32 (Finite False e f)"
  using assms nonneg_format_ok [of _ binary32] unfolding worker_ok_def by (metis insertCI)

section \<open>Constants\<close>

lemma constants:
  "literal binary32 (Suc 0) (Suc 0) = Finite False 8388608 (- 23)"
  "literal binary32 100 (Suc 0) = Finite False 13107200 (- 17)"
  "literal binary32 1000 (Suc 0) = Finite False 16384000 (- 14)"
  "literal binary32 99 (Suc 0) = Finite False 12976128 (- 17)"
  by (simp_all add: float_eval)

lemma constants_fval:
  "fval (Finite False 8388608 (- 23)) = 1" "fval (Finite False 13107200 (- 17)) = 100"
  "fval (Finite False 16384000 (- 14)) = 1000" "fval (Finite False 12976128 (- 17)) = 99"
  "fval (Finite False 8388608 (- 22)) = 2"
  by (simp_all add: power_int_minus)

lemma constants_ok:
  "format_ok binary32 (Finite False 8388608 (- 23))" "format_ok binary32 (Finite False 13107200 (- 17))"
  "format_ok binary32 (Finite False 16384000 (- 14))" "format_ok binary32 (Finite False 8388608 (- 22))"
  by (simp_all add: binary32_def)

lemma fval_nonneg: "0 \<le> fval (Finite False m e)"
  by simp

lemmas float_order = fle_finite constants_fval

section \<open>The parts of the score\<close>

text \<open>Below the threshold: a rounded quotient of at most one, and a rounded sum of at most two.\<close>

lemma load_factor_small:
  assumes "worker_ok w" and low: "\<not> fle (literal binary32 99 1) (current_load w)"
  obtains q n d k c where "rounded binary32 (fval (current_load w) / 100) q" "q = Finite False n d"
    "rounded binary32 (1 + fval q) (load_factor w)" "load_factor w = Finite False k c"
    "1 \<le> fval (load_factor w)" "fval (load_factor w) \<le> 2"
proof -
  from assms(1) obtain m e where l: "current_load w = Finite False m e"
    by (rule worker_ok_cases)
  have less: "fval (Finite False m e) \<le> 100"
    using low by (simp add: constants l float_order del: fval.simps)
  have q: "rounded binary32 (fval (Finite False m e) / 100) (fdiv binary32 (current_load w) (literal binary32 100 1))"
    using rounded_fdiv [OF proper_formats(1), of 13107200 "- 17" m e]
    by (simp add: constants constants_fval l del: fval.simps fdiv.simps)
  from rounded_finite [OF this proper_formats(1) constants_ok(1)] less obtain n d where
    nd: "fdiv binary32 (current_load w) (literal binary32 100 1) = Finite False n d" "fval (Finite False n d) \<le> 1"
    unfolding constants_fval by auto
  have r: "rounded binary32 (1 + fval (Finite False n d)) (load_factor w)"
    using rounded_fadd [OF proper_formats(1), of 8388608 "- 23" n d] low nd(1)
    by (simp add: load_factor_def constants constants_fval del: fval.simps fdiv.simps fadd.simps)
  from rounded_finite [OF r proper_formats(1) constants_ok(4)] nd(2) obtain k c where
    f: "load_factor w = Finite False k c" "fval (load_factor w) \<le> 2"
    unfolding constants_fval by auto
  have "fle (Finite False 8388608 (- 23)) (load_factor w)"
    by (rule rounded_mono [OF rounded_exact [OF constants_ok(1)] r])
      (simp_all add: constants_fval fval_nonneg del: fval.simps)
  with f have "1 \<le> fval (load_factor w)" by (simp add: float_order del: fval.simps)
  from that [OF q [unfolded nd(1), folded l] refl r f(1) this f(2)] show thesis .
qed

lemma load_factor_large:
  "fle (literal binary32 99 1) (current_load w) \<Longrightarrow>
     load_factor w = Finite False 13107200 (- 17) \<and> fval (load_factor w) = 100"
  by (simp add: load_factor_def constants constants_fval del: fval.simps)

lemma load_factor_range:
  assumes "worker_ok w"
  shows "\<exists>m e. load_factor w = Finite False m e \<and> 1 \<le> fval (load_factor w) \<and> fval (load_factor w) \<le> 100"
proof (cases "fle (literal binary32 99 1) (current_load w)")
  case True
  from load_factor_large [OF this] show ?thesis by simp
next
  case False
  with assms obtain k c where "load_factor w = Finite False k c"
    "1 \<le> fval (load_factor w)" "fval (load_factor w) \<le> 2" by (rule load_factor_small)
  then show ?thesis by (intro exI [of _ k] exI [of _ c]) simp
qed

lemma load_factor_mono:
  assumes w: "worker_ok w" and v: "worker_ok v" and le: "fle (current_load w) (current_load v)"
  shows "fval (load_factor w) \<le> fval (load_factor v)"
proof (cases "fle (literal binary32 99 1) (current_load v)")
  case True
  from load_factor_large [OF this] load_factor_range [OF w] show ?thesis by auto
next
  case v_low: False
  obtain a b where lw: "current_load w = Finite False a b" using w by (rule worker_ok_cases)
  obtain c d where lv: "current_load v = Finite False c d" using v by (rule worker_ok_cases)
  have le': "fval (current_load w) \<le> fval (current_load v)"
    using le by (simp add: lw lv fle_finite del: fval.simps)
  with v_low have w_low: "\<not> fle (literal binary32 99 1) (current_load w)"
    by (simp add: lw lv constants fle_finite del: fval.simps)
  obtain q n d k c where Q: "rounded binary32 (fval (current_load w) / 100) q" "q = Finite False n d"
    "rounded binary32 (1 + fval q) (load_factor w)" "load_factor w = Finite False k c"
    using w w_low by (rule load_factor_small)
  obtain q' n' d' k' c' where Q': "rounded binary32 (fval (current_load v) / 100) q'" "q' = Finite False n' d'"
    "rounded binary32 (1 + fval q') (load_factor v)" "load_factor v = Finite False k' c'"
    using v v_low by (rule load_factor_small)
  have "fle q q'" by (rule rounded_mono [OF Q(1) Q'(1)]) (use le' in simp_all)
  then have "1 + fval q \<le> 1 + fval q'" by (simp add: Q(2) Q'(2) fle_finite del: fval.simps)
  from rounded_mono [OF Q(3) Q'(3) this] show ?thesis
    by (simp add: Q(4) Q'(4) fle_finite del: fval.simps)
qed

text \<open>The two factors of the score, before their product is rounded.\<close>

definition throughput :: "worker_node \<Rightarrow> f32" where
  "throughput w = fdiv binary32 (worker_tflops w) (load_factor w)"

definition latency :: "worker_node \<Rightarrow> f32" where
  "latency w = fdiv binary32 (literal binary32 1000 1) (fadd binary32 (rtt_ms w) (literal binary32 1 1))"

lemma score_product: "score w = fmul binary32 (throughput w) (latency w)"
  by (simp add: score_def throughput_def latency_def)

lemma throughput_rounded:
  assumes w: "worker_ok w"
  shows "rounded binary32 (fval (worker_tflops w) / fval (load_factor w)) (throughput w) \<and>
    (\<exists>m e. throughput w = Finite False m e)"
proof -
  obtain a b where t: "worker_tflops w = Finite False a b" "format_ok binary32 (Finite False a b)"
    using w by (rule worker_ok_cases)
  obtain m e where l: "load_factor w = Finite False m e" "1 \<le> fval (load_factor w)"
    using load_factor_range [OF w] by blast
  have r: "rounded binary32 (fval (worker_tflops w) / fval (load_factor w)) (throughput w)"
    using rounded_fdiv [OF proper_formats(1), of m e a b] l t(1)
    by (simp add: throughput_def del: fval.simps fdiv.simps)
  have "fval (Finite False a b) * 1 \<le> fval (Finite False a b) * fval (load_factor w)"
    using l(2) fval_nonneg by (rule mult_left_mono)
  then have "fval (worker_tflops w) / fval (load_factor w) \<le> fval (Finite False a b)"
    using l(2) t(1) by (simp add: divide_le_eq del: fval.simps)
  from rounded_finite [OF r proper_formats(1) t(2) this] r show ?thesis by blast
qed

lemma throughput_mono:
  assumes w: "worker_ok w" and v: "worker_ok v"
    and tf: "fle (worker_tflops v) (worker_tflops w)" and ld: "fle (current_load w) (current_load v)"
  shows "fle (throughput v) (throughput w)"
proof -
  obtain a b where tw: "worker_tflops w = Finite False a b" using w by (rule worker_ok_cases)
  obtain c d where tv: "worker_tflops v = Finite False c d" using v by (rule worker_ok_cases)
  have "fval (worker_tflops v) \<le> fval (worker_tflops w)"
    using tf by (simp add: tw tv fle_finite del: fval.simps)
  moreover have "0 \<le> fval (worker_tflops v)" unfolding tv by (rule fval_nonneg)
  moreover have "1 \<le> fval (load_factor w)" using load_factor_range [OF w] by blast
  ultimately have "fval (worker_tflops v) / fval (load_factor v) \<le> fval (worker_tflops w) / fval (load_factor w)"
    using load_factor_mono [OF w v ld] by (intro frac_le) linarith+
  from rounded_mono [OF conjunct1 [OF throughput_rounded [OF v]] conjunct1 [OF throughput_rounded [OF w]] this]
  show ?thesis by simp
qed

text \<open>The latency factor is zero when the sum overflows.\<close>

lemma latency_cases:
  assumes w: "worker_ok w"
  defines "s \<equiv> fadd binary32 (rtt_ms w) (literal binary32 1 1)"
  shows "rounded binary32 (fval (rtt_ms w) + 1) s \<and>
    (s = Infinity False \<and> latency w = Finite False 0 0 \<or>
     (\<exists>m e. s = Finite False m e) \<and> 1 \<le> fval s \<and> rounded binary32 (1000 / fval s) (latency w)) \<and>
    (\<exists>m e. latency w = Finite False m e)"
proof -
  obtain a b where r: "rtt_ms w = Finite False a b" using w by (rule worker_ok_cases)
  have s: "rounded binary32 (fval (rtt_ms w) + 1) s"
    using rounded_fadd [OF proper_formats(1), of a b 8388608 "- 23"]
    by (simp add: s_def r constants constants_fval del: fval.simps fadd.simps)
  have one: "fle (Finite False 8388608 (- 23)) s"
    by (rule rounded_mono [OF rounded_exact [OF constants_ok(1)] s])
      (simp_all add: r constants_fval fval_nonneg del: fval.simps)
  have lat: "latency w = fdiv binary32 (Finite False 16384000 (- 14)) s"
    by (simp add: latency_def s_def constants del: fdiv.simps fadd.simps)
  show ?thesis
  proof (cases s)
    case (Infinity i)
    then show ?thesis using s one lat by (auto simp: fle_def)
  next
    case (Finite i m e)
    with rounded_nonneg [OF s] have f: "s = Finite False m e" by simp
    then have ge: "1 \<le> fval s" using one by (simp add: float_order del: fval.simps)
    then have q: "rounded binary32 (1000 / fval s) (latency w)"
      using rounded_fdiv [OF proper_formats(1), of m e 16384000 "- 14"] f
      by (simp add: lat constants_fval del: fval.simps fdiv.simps)
    have "1000 / fval s \<le> fval (Finite False 16384000 (- 14))"
      using ge by (simp add: constants_fval divide_le_eq del: fval.simps)
    from rounded_finite [OF q proper_formats(1) constants_ok(3) this] show ?thesis using s f ge q by blast
  next
    case NaN
    then show ?thesis using rounded_nonneg [OF s] by simp
  qed
qed

lemma latency_mono:
  assumes w: "worker_ok w" and v: "worker_ok v" and le: "fle (rtt_ms w) (rtt_ms v)"
  shows "fle (latency v) (latency w)"
proof -
  let ?s = "\<lambda>w. fadd binary32 (rtt_ms w) (literal binary32 1 1)"
  obtain a b where rw: "rtt_ms w = Finite False a b" using w by (rule worker_ok_cases)
  obtain c d where rv: "rtt_ms v = Finite False c d" using v by (rule worker_ok_cases)
  note W = latency_cases [OF w] and V = latency_cases [OF v]
  have "fval (rtt_ms w) + 1 \<le> fval (rtt_ms v) + 1"
    using le by (simp add: rw rv fle_finite del: fval.simps)
  with rounded_mono [OF conjunct1 [OF W] conjunct1 [OF V]] have s: "fle (?s w) (?s v)" by simp
  obtain m e where fin: "latency w = Finite False m e" using W by blast
  show ?thesis
  proof (cases "?s v = Infinity False")
    case True
    then have "latency v = Finite False 0 0" using V by auto
    then show ?thesis unfolding fin by (simp add: fle_finite)
  next
    case False
    then have V': "\<exists>m e. ?s v = Finite False m e" "1 \<le> fval (?s v)" "rounded binary32 (1000 / fval (?s v)) (latency v)"
      using V by blast+
    then have "?s w \<noteq> Infinity False" using s by (auto simp: fle_def)
    then have W': "\<exists>m e. ?s w = Finite False m e" "1 \<le> fval (?s w)" "rounded binary32 (1000 / fval (?s w)) (latency w)"
      using W by blast+
    from s V'(1) W'(1) have "fval (?s w) \<le> fval (?s v)" by (auto simp: fle_finite simp del: fval.simps)
    then have "1000 / fval (?s v) \<le> 1000 / fval (?s w)" using W'(2) by (intro frac_le) linarith+
    from rounded_mono [OF V'(3) W'(3) this] show ?thesis by simp
  qed
qed

lemma fmul_mono:
  assumes "a = Finite False m e" "b = Finite False n d" "a' = Finite False m' e'" "b' = Finite False n' d'"
    and "fle a a'" and "fle b b'" and "proper F"
  shows "fle (fmul F a b) (fmul F a' b')"
proof -
  have "fval a * fval b \<le> fval a' * fval b'"
    using assms(5,6) fval_nonneg unfolding assms(1-4) fle_finite by (intro mult_mono)
  from rounded_mono [OF rounded_fmul [OF assms(7)] rounded_fmul [OF assms(7)]
      this [unfolded assms(1-4)] proper_precision [OF assms(7)]]
  show ?thesis unfolding assms(1-4) .
qed

lemma worker_score:
  assumes "worker_ok w"
  shows "nonneg (score w)"
proof -
  obtain m e where t: "throughput w = Finite False m e" using throughput_rounded [OF assms] by blast
  obtain n d where l: "latency w = Finite False n d" using latency_cases [OF assms] by blast
  show ?thesis unfolding score_product t l by simp
qed

lemma score_order:
  assumes w: "worker_ok w" and v: "worker_ok v"
    and "fle (worker_tflops v) (worker_tflops w)" and "fle (rtt_ms w) (rtt_ms v)"
    and "fle (current_load w) (current_load v)"
  shows "fle (score v) (score w)"
proof -
  obtain a b where "throughput w = Finite False a b" using throughput_rounded [OF w] by blast
  moreover obtain c d where "throughput v = Finite False c d" using throughput_rounded [OF v] by blast
  moreover obtain e f where "latency w = Finite False e f" using latency_cases [OF w] by blast
  moreover obtain g h where "latency v = Finite False g h" using latency_cases [OF v] by blast
  ultimately show ?thesis
    unfolding score_product using throughput_mono [OF w v assms(3,5)] latency_mono [OF w v assms(4)]
    by (metis fmul_mono proper_formats(1))
qed

section \<open>Priorities\<close>

text \<open>The weight of the operation at position \<open>i\<close> of the list.\<close>

definition weight :: "nat \<Rightarrow> f32" where
  "weight i = fdiv binary32 (literal binary32 1 1) (of_unsigned binary32 (i + 1))"

lemma dispatch_priority: "priority (dispatch workers i p) = fmul binary32 (snd (best_of workers)) (weight i)"
  by (simp add: dispatch_def weight_def split: prod.split)

lemma of_unsigned_range:
  assumes "i < 2 ^ 64"
  shows "\<exists>m e. of_unsigned binary32 (i + 1) = Finite False m e \<and> 1 \<le> fval (of_unsigned binary32 (i + 1)) \<and>
    fval (of_unsigned binary32 (i + 1)) \<le> 2 ^ 64"
proof -
  have ok: "format_ok binary32 (Finite False 1 64)" by (simp add: binary32_def)
  have v: "fval (Finite False 1 64) = 2 ^ 64" by simp
  have r: "rounded binary32 (of_nat (i + 1)) (of_unsigned binary32 (i + 1))"
    by (rule rounded_of_unsigned) simp
  have "i + 1 \<le> 2 ^ 64" using assms by simp
  then have "(of_nat (i + 1) :: rat) \<le> of_nat (2 ^ 64)" by (simp only: of_nat_le_iff)
  then have "(of_nat (i + 1) :: rat) \<le> fval (Finite False 1 64)" by (simp only: v of_nat_power of_nat_numeral)
  from rounded_finite [OF r proper_formats(1) ok this] obtain m e where
    f: "of_unsigned binary32 (i + 1) = Finite False m e" "fval (of_unsigned binary32 (i + 1)) \<le> 2 ^ 64"
    unfolding v by blast
  have "fle (Finite False 8388608 (- 23)) (of_unsigned binary32 (i + 1))"
    by (rule rounded_mono [OF rounded_exact [OF constants_ok(1)] r])
      (simp_all add: constants_fval del: fval.simps)
  with f show ?thesis by (simp add: float_order del: fval.simps)
qed

lemma weight_rounded:
  assumes "i < 2 ^ 64"
  shows "rounded binary32 (1 / fval (of_unsigned binary32 (i + 1))) (weight i) \<and>
    (\<exists>m e. weight i = Finite False m e \<and> 0 < m)"
proof -
  obtain m e where u: "of_unsigned binary32 (i + 1) = Finite False m e"
    "1 \<le> fval (of_unsigned binary32 (i + 1))" "fval (of_unsigned binary32 (i + 1)) \<le> 2 ^ 64"
    using of_unsigned_range [OF assms] by blast
  have r: "rounded binary32 (1 / fval (of_unsigned binary32 (i + 1))) (weight i)"
    using rounded_fdiv [OF proper_formats(1), of m e 8388608 "- 23"] u(1,2)
    by (simp add: weight_def constants constants_fval del: fval.simps fdiv.simps)
  have "1 / fval (of_unsigned binary32 (i + 1)) \<le> fval (Finite False 8388608 (- 23))"
    using u(2) by (simp add: constants_fval divide_le_eq del: fval.simps)
  from rounded_finite [OF r proper_formats(1) constants_ok(1) this] obtain n d where
    w: "weight i = Finite False n d" by blast
  have ok: "format_ok binary32 (Finite False 1 (- 64))" by (simp add: binary32_def)
  have v: "fval (Finite False 1 (- 64)) = 1 / 2 ^ 64" by (simp add: power_int_minus inverse_eq_divide)
  have "fval (Finite False 1 (- 64)) \<le> 1 / fval (of_unsigned binary32 (i + 1))"
    unfolding v using u(2,3) by (intro divide_left_mono) auto
  from rounded_mono [OF rounded_exact [OF ok] r this]
  have "fval (Finite False 1 (- 64)) \<le> fval (Finite False n d)"
    unfolding w by (simp add: fle_finite del: fval.simps)
  then have "0 < n" unfolding v by (cases n) simp_all
  with r w show ?thesis by blast
qed

lemma weight_antimono:
  assumes "i \<le> j" and "j < 2 ^ 64"
  shows "fle (weight j) (weight i)"
proof -
  have i: "i < 2 ^ 64" using assms by simp
  obtain m e where a: "of_unsigned binary32 (i + 1) = Finite False m e" "1 \<le> fval (of_unsigned binary32 (i + 1))"
    using of_unsigned_range [OF i] by blast
  obtain n d where b: "of_unsigned binary32 (j + 1) = Finite False n d"
    using of_unsigned_range [OF assms(2)] by blast
  have "fle (of_unsigned binary32 (i + 1)) (of_unsigned binary32 (j + 1))"
    by (rule rounded_mono [OF rounded_of_unsigned rounded_of_unsigned]) (use assms(1) in simp_all)
  then have "fval (of_unsigned binary32 (i + 1)) \<le> fval (of_unsigned binary32 (j + 1))"
    unfolding a(1) b fle_finite .
  then have "1 / fval (of_unsigned binary32 (j + 1)) \<le> 1 / fval (of_unsigned binary32 (i + 1))"
    using a(2) by (intro divide_left_mono) auto
  from rounded_mono [OF conjunct1 [OF weight_rounded [OF assms(2)]] conjunct1 [OF weight_rounded [OF i]] this]
  show ?thesis by simp
qed

lemma priority_antimono:
  assumes "nonneg x" and "i \<le> j" and "j < 2 ^ 64"
  shows "fle (fmul binary32 x (weight j)) (fmul binary32 x (weight i))"
proof -
  have i: "i < 2 ^ 64" using assms by simp
  obtain m e where a: "weight i = Finite False m e" "0 < m" using weight_rounded [OF i] by blast
  obtain n d where b: "weight j = Finite False n d" "0 < n" using weight_rounded [OF assms(3)] by blast
  show ?thesis
  proof (cases x)
    case (Finite s k c)
    with assms(1) have x: "x = Finite False k c" by simp
    have "fle x x" unfolding x fle_finite by simp
    then show ?thesis
      by (intro fmul_mono [OF x b(1) x a(1)] weight_antimono assms(2,3)) simp_all
  qed (use assms(1) a b in \<open>simp_all add: fle_def\<close>)
qed

section \<open>Properties\<close>

text \<open>At least as fast, as near and as idle.\<close>

definition at_least_as_good :: "worker_node \<Rightarrow> worker_node \<Rightarrow> bool" where
  "at_least_as_good w v \<longleftrightarrow>
     fle (worker_tflops v) (worker_tflops w) \<and> fle (rtt_ms w) (rtt_ms v) \<and>
     fle (current_load w) (current_load v)"

lemma fle_antisym_score:
  assumes "\<not> flt x y" and "fle x y"
  shows "feq x y"
  using assms by (simp add: fle_def)

text \<open>C24: Rounding never turns the heuristic around: a worker with at least the throughput, at most the
  latency and at most the load of every other worker has a score that no other score exceeds, and
  the score of the worker that the scheduler selects equals it.\<close>

theorem better_worker_is_selected:
  assumes "\<forall>v \<in> set workers. worker_ok v \<and> at_least_as_good w v" and "w \<in> set workers"
  shows "(\<forall>v \<in> set workers. fle (score v) (score w)) \<and>
    feq (score (fst (best_of workers))) (score w)"
proof
  have ok: "worker_ok w" using assms by blast
  show all: "\<forall>v \<in> set workers. fle (score v) (score w)"
    using assms ok by (auto simp: at_least_as_good_def intro!: score_order)
  note best = best_of_max [OF assms(2) worker_score [OF ok]]
  show "feq (score (fst (best_of workers))) (score w)"
    by (rule fle_antisym_score) (use best all assms(2) in auto)
qed

definition near_worker :: worker_node where
  "near_worker = fast_worker\<lparr>rtt_ms := literal binary32 5 1, current_load := literal binary32 0 1\<rparr>"

lemma sample_workers_ok: "worker_ok slow_worker" "worker_ok near_worker"
  by (simp_all add: worker_ok_def slow_worker_def fast_worker_def near_worker_def float_eval)

lemma near_worker_good: "at_least_as_good near_worker slow_worker" "at_least_as_good near_worker near_worker"
  by (simp_all add: at_least_as_good_def slow_worker_def fast_worker_def near_worker_def float_eval)

theorem better_worker_is_selected_witness:
  "feq (score (fst (best_of [slow_worker, near_worker]))) (score near_worker)"
  using better_worker_is_selected [of "[slow_worker, near_worker]" near_worker]
    sample_workers_ok near_worker_good by simp

text \<open>C25: The priorities of the dispatches fall along the list: of two operations the earlier one never has
  the lower priority, for any number of operations that an index can count.\<close>

theorem priorities_fall:
  assumes "workers \<noteq> []" and "\<forall>v \<in> set workers. worker_ok v" and "length ps \<le> 2 ^ 64"
  shows "\<exists>ds. schedule_global_ops ps workers = Inr ds \<and>
    sorted_wrt (\<lambda>d d'. fle (priority d') (priority d)) ds"
proof -
  have w: "hd workers \<in> set workers" using assms(1) by simp
  have "nonneg (snd (best_of workers))"
    using best_of_max [OF w worker_score] assms(2) w worker_score by metis
  then have "fle (priority (dispatch workers j q)) (priority (dispatch workers i p))"
    if "i < j" "j < length ps" for i j p q
    unfolding dispatch_priority using that assms(3) by (intro priority_antimono) simp_all
  then have "sorted_wrt (\<lambda>d d'. fle (priority d') (priority d)) (dispatch_all workers 0 ps)"
    unfolding dispatch_all_map sorted_wrt_iff_nth_less by (auto simp: nth_enumerate_eq)
  with assms(1) show ?thesis by (simp add: schedule_global_ops_def)
qed

theorem priorities_fall_witness:
  "\<forall>p q. \<exists>d d'. schedule_global_ops [p, q] [slow_worker, near_worker] = Inr [d, d'] \<and>
     fle (priority d') (priority d)"
proof (intro allI)
  fix p q
  obtain ds where ds: "schedule_global_ops [p, q] [slow_worker, near_worker] = Inr ds"
    "sorted_wrt (\<lambda>d d'. fle (priority d') (priority d)) ds"
    using priorities_fall [of "[slow_worker, near_worker]" "[p, q]"] sample_workers_ok by auto
  then obtain d d' where "ds = [d, d']" by (auto simp: schedule_global_ops_def)
  with ds show "\<exists>d d'. schedule_global_ops [p, q] [slow_worker, near_worker] = Inr [d, d'] \<and>
     fle (priority d') (priority d)" by simp
qed

end
