(* ===== verification/P2p.thy ===== *)
theory P2p
  imports Router
begin

text \<open>
  The peer-to-peer node of \<open>omni-net/src/p2p\<close>: the network messages and the round trip time of
  \<open>protocol.rs\<close>, and of \<open>node.rs\<close> the identity of a node, its routing table, its bounded message
  queue and the event loop that empties the queue. Random bytes and the clock are arguments; the
  table is a concurrent map, whose iteration order is an argument as well. Encoding is the
  external crate bincode, a parameter of \<open>encode\<close> and \<open>decode\<close>.
\<close>

section \<open>Messages\<close>

datatype network_message =
    Ping u64
  | Pong u64 u64
  | Heartbeat worker_node u64
  | TaskRequest task_dispatch "u8 list"
  | TaskResponse u64 bool "u8 list" "string option"

text \<open>\<open>serialize\<close> and \<open>deserialize\<close> are those of bincode.\<close>

definition encode :: "(network_message \<Rightarrow> string + u8 list) \<Rightarrow> network_message \<Rightarrow> string + u8 list" where
  "encode serialize message =
     (case serialize message of Inl e \<Rightarrow> Inl e | Inr encoded \<Rightarrow> Inr encoded)"

definition decode :: "(u8 list \<Rightarrow> string + network_message) \<Rightarrow> u8 list \<Rightarrow> string + network_message" where
  "decode deserialize encoded =
     (case deserialize encoded of Inl e \<Rightarrow> Inl e | Inr message \<Rightarrow> Inr message)"

text \<open>The system clock gives the nanoseconds since the epoch, or an error before it; the count is cut
  to 64 bits.\<close>

definition current_time_ns :: "nat option \<Rightarrow> u64" where
  "current_time_ns since_epoch =
     word_of_nat (case since_epoch of None \<Rightarrow> 0 | Some nanos \<Rightarrow> nanos)"

text \<open>\<open>now\<close> is \<open>current_time_ns\<close>; a clock that went backwards gives zero.\<close>

definition calculate_rtt :: "u64 \<Rightarrow> u64 \<Rightarrow> f32" where
  "calculate_rtt now ping_sent_ns =
     (if now \<le> ping_sent_ns then literal binary32 0 1
      else (let elapsed_ns = now - ping_sent_ns
            in narrow binary32
                 (fdiv binary64 (of_unsigned binary64 (unat elapsed_ns))
                    (literal binary64 1000000 1))))"

section \<open>Nodes\<close>

text \<open>\<open>{:02x}\<close> of a byte.\<close>

definition hex_byte :: "u8 \<Rightarrow> string" where
  "hex_byte b = [digit_char (unat b div 16), digit_char (unat b mod 16)]"

definition peer_id_of :: "u8 list \<Rightarrow> string" where
  "peer_id_of raw_peer = ''Qm'' @ concat (map hex_byte raw_peer)"

record omni_node =
  bind_address :: string
  node_peer_id :: string
  routing_table :: "string \<rightharpoonup> worker_node"
  tx_queue :: "network_message list"

definition node_new :: "string \<Rightarrow> u8 list \<Rightarrow> omni_node" where
  "node_new address raw_peer =
     \<lparr>bind_address = address, node_peer_id = peer_id_of raw_peer,
      routing_table = Map.empty, tx_queue = []\<rparr>"

text \<open>\<open>send\<close> on the channel of 1024 messages waits while it is full: then there is no step (None).\<close>

definition offload_task :: "network_message \<Rightarrow> omni_node \<Rightarrow> omni_node option" where
  "offload_task message n =
     (if length (tx_queue n) < 1024 then Some (n\<lparr>tx_queue := tx_queue n @ [message]\<rparr>) else None)"

definition register_peer :: "string \<Rightarrow> worker_node \<Rightarrow> omni_node \<Rightarrow> omni_node" where
  "register_peer peer profile n = n\<lparr>routing_table := (routing_table n)(peer \<mapsto> profile)\<rparr>"

text \<open>The workers in an iteration order of the table.\<close>

definition get_active_workers :: "string list \<Rightarrow> omni_node \<Rightarrow> worker_node list" where
  "get_active_workers order n = map (the \<circ> routing_table n) order"

definition iteration_order :: "string list \<Rightarrow> omni_node \<Rightarrow> bool" where
  "iteration_order order n \<longleftrightarrow> distinct order \<and> set order = dom (routing_table n)"

fun handle_message :: "network_message \<Rightarrow> (string \<rightharpoonup> worker_node) \<Rightarrow> string \<rightharpoonup> worker_node" where
  "handle_message (Heartbeat profile uptime_secs) rt = rt(worker_peer_id profile \<mapsto> profile)"
| "handle_message (TaskRequest task input_data) rt = rt"
| "handle_message _ rt = rt"

text \<open>One round of the event loop: take a message, handle it; it waits while the queue is empty.\<close>

definition swarm_step :: "omni_node \<Rightarrow> omni_node option" where
  "swarm_step n =
     (case tx_queue n of
        [] \<Rightarrow> None
      | message # rest \<Rightarrow>
          Some (n\<lparr>tx_queue := rest, routing_table := handle_message message (routing_table n)\<rparr>))"

text \<open>The loop until it waits on an empty queue.\<close>

function swarm_event_loop :: "omni_node \<Rightarrow> omni_node" where
  "swarm_event_loop n = (case swarm_step n of None \<Rightarrow> n | Some n' \<Rightarrow> swarm_event_loop n')"
  by pat_completeness auto
termination
  by (relation "measure (length \<circ> tx_queue)") (auto simp: swarm_step_def split: list.splits)

declare swarm_event_loop.simps [simp del]

text \<open>\<open>start\<close> only logs.\<close>

definition node_begin :: "omni_node \<Rightarrow> string + unit" where
  "node_begin n = Inr ()"

text \<open>What happens to a node: clients queue messages and register workers under any name, and the event loop
  handles messages. A run is recorded with its events.\<close>

datatype node_event =
    Offloaded network_message
  | Registered string worker_node
  | Handled

inductive node_step :: "node_event \<Rightarrow> omni_node \<Rightarrow> omni_node \<Rightarrow> bool" where
  node_offload: "offload_task message n = Some n' \<Longrightarrow> node_step (Offloaded message) n n'"
| node_register: "node_step (Registered peer profile) n (register_peer peer profile n)"
| node_swarm: "swarm_step n = Some n' \<Longrightarrow> node_step Handled n n'"

inductive node_run :: "omni_node \<Rightarrow> node_event list \<Rightarrow> omni_node \<Rightarrow> bool" for n where
  node_start: "node_run n [] n"
| node_next: "node_run n es m \<Longrightarrow> node_step e m m' \<Longrightarrow> node_run n (es @ [e]) m'"

section \<open>Lemmas\<close>

lemma nonneg_narrow: "nonneg x \<Longrightarrow> nonneg (narrow F x)"
  by (cases x) auto

lemma hex_byte_inject: "hex_byte a = hex_byte b \<longleftrightarrow> a = b"
proof
  assume "hex_byte a = hex_byte b"
  moreover have "unat c div 16 < 36" "unat c mod 16 < 36" for c :: u8
    using unsigned_less [of c, where 'a = nat] by (simp_all add: less_mult_imp_div_less)
  ultimately have "unat a div 16 = unat b div 16" "unat a mod 16 = unat b mod 16"
    unfolding hex_byte_def by (metis digit_val_digit_char list.inject)+
  then have "unat a = unat b" by (metis div_mult_mod_eq)
  then show "a = b" by (simp add: word_unat_eq_iff)
qed simp

lemma hex_bytes_inject: "concat (map hex_byte as) = concat (map hex_byte bs) \<longleftrightarrow> as = bs"
proof (induction as arbitrary: bs)
  case Nil
  then show ?case by (cases bs) (simp_all add: hex_byte_def)
next
  case (Cons a as)
  show ?case
  proof (cases bs)
    case (Cons b bs')
    have "length (hex_byte a) = length (hex_byte b)" by (simp add: hex_byte_def)
    then show ?thesis using Cons.IH Cons by (simp add: hex_byte_inject)
  qed (simp add: hex_byte_def)
qed

text \<open>An entry of the table stands under the name that its profile carries, unless a client has registered
  it under another one; the queue is within its bound.\<close>

definition node_inv :: "node_event list \<Rightarrow> omni_node \<Rightarrow> bool" where
  "node_inv es n \<longleftrightarrow>
     length (tx_queue n) \<le> 1024 \<and> finite (dom (routing_table n)) \<and>
     (\<forall>k w. routing_table n k = Some w \<longrightarrow> worker_peer_id w = k \<or> Registered k w \<in> set es)"

lemma handle_message_entry:
  "handle_message msg rt k = Some w \<Longrightarrow> rt k = Some w \<or> worker_peer_id w = k"
  by (cases msg) (auto split: if_splits)

lemma handle_message_finite: "finite (dom rt) \<Longrightarrow> finite (dom (handle_message msg rt))"
  by (cases msg) auto

lemma node_inv_step:
  assumes "node_step e n m" and inv: "node_inv es n"
  shows "node_inv (es @ [e]) m"
  using assms(1)
proof (cases rule: node_step.cases)
  case (node_offload message)
  then have "m = n\<lparr>tx_queue := tx_queue n @ [message]\<rparr>" "length (tx_queue n) < 1024"
    by (auto simp: offload_task_def split: if_splits)
  then show ?thesis using inv unfolding node_inv_def by simp blast
next
  case (node_register peer profile)
  then show ?thesis using inv by (auto simp: register_peer_def node_inv_def)
next
  case node_swarm
  then obtain msg rest where q: "tx_queue n = msg # rest"
    "m = n\<lparr>tx_queue := rest, routing_table := handle_message msg (routing_table n)\<rparr>"
    by (auto simp: swarm_step_def split: list.splits)
  have "worker_peer_id w = k \<or> Registered k w \<in> set es" if "handle_message msg (routing_table n) k = Some w" for k w
    using handle_message_entry [OF that] inv by (auto simp: node_inv_def)
  then show ?thesis using inv q by (auto simp: node_inv_def handle_message_finite)
qed

lemma node_inv_run: "node_run (node_new address raw) es n \<Longrightarrow> node_inv es n"
proof (induction rule: node_run.induct)
  case node_start
  show ?case by (simp add: node_inv_def node_new_def)
next
  case node_next
  then show ?case by (blast intro: node_inv_step)
qed

section \<open>Properties\<close>

text \<open>C39: Whatever messages clients queue and whatever workers they register, every task that the router makes of
  the active workers, in any iteration order of the table, names a worker whose profile is in the table. The table
  knows that worker under this name, unless a client has registered it under a different one. And the message queue
  never exceeds its bound.\<close>

theorem dispatch_names_known_worker:
  assumes "node_run (node_new address raw) es n" and "iteration_order order n"
    and "schedule_global_ops ps (get_active_workers order n) = Inr ds" and "d \<in> set ds"
  shows "(\<exists>k w. routing_table n k = Some w \<and> worker_peer_id w = target_peer_id d \<and>
      (k = target_peer_id d \<or> Registered k w \<in> set es)) \<and>
    length (tx_queue n) \<le> 1024"
proof -
  note inv = node_inv_run [OF assms(1)]
  let ?ws = "get_active_workers order n"
  have ne: "?ws \<noteq> []" and ds: "ds = dispatch_all ?ws 0 ps"
    using assms(3) by (auto simp: schedule_global_ops_def split: if_splits)
  obtain b s where bs: "best_of ?ws = (b, s)" by fastforce
  from best_loop_bound [OF bs [unfolded best_of_def]] ne have "b \<in> set ?ws" by auto
  then obtain k where "routing_table n k = Some b"
    using assms(2) by (auto simp: get_active_workers_def iteration_order_def)
  moreover have "target_peer_id d = worker_peer_id b"
    using assms(4) bs by (auto simp: ds dispatch_all_map dispatch_def)
  ultimately show ?thesis using inv unfolding node_inv_def by metis
qed

theorem dispatch_names_known_worker_witness:
  "\<forall>p. \<exists>ds. schedule_global_ops [p] [slow_worker] = Inr ds \<and> map target_peer_id ds = [''a'']"
proof
  fix p
  let ?n = "register_peer ''a'' slow_worker (node_new [] [])"
  have r: "node_run (node_new [] []) [Registered ''a'' slow_worker] ?n"
    using node_next [OF node_start node_register] by simp
  have t: "routing_table ?n = [''a'' \<mapsto> slow_worker]"
    by (simp add: register_peer_def node_new_def)
  have o: "iteration_order [''a''] ?n" by (simp add: iteration_order_def t)
  have w: "get_active_workers [''a''] ?n = [slow_worker]" by (simp add: get_active_workers_def t)
  have "schedule_global_ops [p] [slow_worker] = Inr [dispatch [slow_worker] 0 p]"
    by (simp add: schedule_global_ops_def)
  moreover have "target_peer_id (dispatch [slow_worker] 0 p) = ''a''"
  proof -
    from dispatch_names_known_worker [OF r o, of "[p]" "[dispatch [slow_worker] 0 p]" "dispatch [slow_worker] 0 p"]
    obtain k w where "routing_table ?n k = Some w" "worker_peer_id w = target_peer_id (dispatch [slow_worker] 0 p)"
      using calculation w by auto
    then have "worker_peer_id slow_worker = target_peer_id (dispatch [slow_worker] 0 p)"
      unfolding t by (simp split: if_splits)
    then show ?thesis by (simp add: slow_worker_def)
  qed
  ultimately show "\<exists>ds. schedule_global_ops [p] [slow_worker] = Inr ds \<and> map target_peer_id ds = [''a'']"
    by simp
qed

text \<open>The name and the profile of a registration are independent: a worker that is registered under another name
  gets tasks under a name that the table does not have.\<close>

lemma registered_under_other_name:
  "let n = register_peer ''b'' slow_worker (node_new [] []) in
     iteration_order [''b''] n \<and>
     (\<exists>d. schedule_global_ops [p] (get_active_workers [''b''] n) = Inr [d] \<and> target_peer_id d \<notin> dom (routing_table n))"
  by (simp add: iteration_order_def register_peer_def node_new_def get_active_workers_def schedule_global_ops_def
      dispatch_def best_of_def slow_worker_def Let_def)

text \<open>A measured round trip time is neither a NaN nor negative, whatever the two clock readings
  are, and zero when the clock went backwards.\<close>

theorem rtt_nonneg:
  "nonneg (calculate_rtt now sent) \<and>
   (now \<le> sent \<longrightarrow> calculate_rtt now sent = literal binary32 0 1)"
proof -
  have l: "nonneg (literal binary32 0 1)" by (simp add: literal_def)
  have d: "literal binary64 1000000 1 = Finite False 8589934592000000 (- 33)"
    by (simp add: float_eval)
  have "nonneg (fdiv binary64 x (literal binary64 1000000 1))" if "nonneg x" for x
    using that unfolding d by (cases x) auto
  then have "nonneg (narrow binary32 (fdiv binary64 (of_unsigned binary64 k) (literal binary64 1000000 1)))" for k
    by (intro nonneg_narrow) (simp add: of_unsigned_def)
  with l show ?thesis by (simp add: calculate_rtt_def Let_def)
qed

theorem rtt_nonneg_witness: "calculate_rtt 5 7 = literal binary32 0 1"
  using rtt_nonneg [of 5 7] by simp

text \<open>Peer identities are injective in the random bytes.\<close>

lemma peer_id_inject: "peer_id_of raw = peer_id_of raw' \<longleftrightarrow> raw = raw'"
  by (simp add: peer_id_of_def hex_bytes_inject)

text \<open>A task request that is offloaded reaches the node's own event loop and is dropped there.\<close>

lemma offloaded_request_is_dropped:
  "tx_queue n = [] \<Longrightarrow> Option.bind (offload_task (TaskRequest task input) n) swarm_step = Some n"
  by (simp add: offload_task_def swarm_step_def)


text \<open>What is encoded can be decoded, as bincode documents.\<close>

lemma message_roundtrip:
  assumes "\<And>msg encoded. serialize msg = Inr encoded \<Longrightarrow> deserialize encoded = Inr msg"
    and "encode serialize message = Inr bytes"
  shows "decode deserialize bytes = Inr message"
  using assms by (simp add: encode_def decode_def split: sum.splits)

section \<open>Heartbeats\<close>

definition heartbeats_of :: "string \<Rightarrow> network_message list \<Rightarrow> worker_node list" where
  "heartbeats_of k msgs = List.map_filter (\<lambda>msg. case msg of
     Heartbeat w uptime \<Rightarrow> if worker_peer_id w = k then Some w else None | _ \<Rightarrow> None) msgs"

lemma heartbeats_of_simps:
  "heartbeats_of k [] = []"
  "heartbeats_of k (Heartbeat w u # msgs) =
     (if worker_peer_id w = k then w # heartbeats_of k msgs else heartbeats_of k msgs)"
  "(\<And>w u. msg \<noteq> Heartbeat w u) \<Longrightarrow> heartbeats_of k (msg # msgs) = heartbeats_of k msgs"
  by (auto simp: heartbeats_of_def map_filter_def split: network_message.split)

lemma handle_other: "(\<And>w u. msg \<noteq> Heartbeat w u) \<Longrightarrow> handle_message msg rt = rt"
  by (cases msg) auto

text \<open>C40: The event loop empties the queue, and then the routing table has for every peer the profile of
  its last queued heartbeat, or what it had before if there was none; no other message has an
  effect.\<close>

theorem last_heartbeat_wins:
  "tx_queue (swarm_event_loop n) = [] \<and>
   routing_table (swarm_event_loop n) k =
     (if heartbeats_of k (tx_queue n) = [] then routing_table n k
      else Some (last (heartbeats_of k (tx_queue n))))"
proof (induction n rule: swarm_event_loop.induct)
  case (1 n)
  show ?case
  proof (cases "tx_queue n")
    case Nil
    then show ?thesis
      by (simp add: swarm_event_loop.simps [of n] swarm_step_def heartbeats_of_simps)
  next
    case (Cons msg rest)
    let ?n = "n\<lparr>tx_queue := rest, routing_table := handle_message msg (routing_table n)\<rparr>"
    have step: "swarm_step n = Some ?n" using Cons by (simp add: swarm_step_def)
    have loop: "swarm_event_loop n = swarm_event_loop ?n"
      by (simp add: swarm_event_loop.simps [of n] step)
    note ih = "1.IH" [OF step]
    show ?thesis
    proof (cases "\<exists>w u. msg = Heartbeat w u")
      case True
      then obtain w u where "msg = Heartbeat w u" by blast
      then show ?thesis unfolding loop using ih Cons by (simp add: heartbeats_of_simps)
    next
      case False
      then show ?thesis unfolding loop using ih Cons by (simp add: heartbeats_of_simps handle_other)
    qed
  qed
qed

end
