(* ===== verification/Tee.thy ===== *)
theory Tee
  imports Prelude
begin

text \<open>
  The TEE sandbox of \<open>omni-net/src/crypto/tee.rs\<close>: initialisation, attestation reports and their
  verification, and the encryption of device data. AES-256-GCM and the random generator are not
  part of the repository: the cipher is a pair of functions that the operations take as arguments,
  the random bytes are arguments as well.
\<close>

section \<open>State and errors\<close>

datatype tee_type = AmdSevSnp | IntelTdx | Simulation

record tee_sandbox =
  tee_type :: tee_type
  enclave_key :: "u8 list"

datatype tee_error =
    InvalidReportSize | InvalidHeader | UnknownPlatform | InvalidCiphertextSize
  | EncryptionFailed | DecryptionFailed

text \<open>Key, nonce, and plaintext or ciphertext; None is the error of the library.\<close>

type_synonym cipher = "u8 list \<Rightarrow> u8 list \<Rightarrow> u8 list \<Rightarrow> u8 list option"

section \<open>Operations\<close>

text \<open>The two Cargo features select the technology; \<open>key\<close> are the 32 random bytes.\<close>

definition tee_init :: "bool \<Rightarrow> bool \<Rightarrow> u8 list \<Rightarrow> tee_error + tee_sandbox" where
  "tee_init feature_amd_sev feature_intel_tdx key =
     (if feature_amd_sev then Inr \<lparr>tee_type = AmdSevSnp, enclave_key = key\<rparr>
      else if feature_intel_tdx then Inr \<lparr>tee_type = IntelTdx, enclave_key = key\<rparr>
      else Inr \<lparr>tee_type = Simulation, enclave_key = key\<rparr>)"

definition report_header :: "u8 list" where
  "report_header = bytes_of ''TEE_REPORT_HEADER''"

fun platform_id :: "tee_type \<Rightarrow> u8" where
  "platform_id AmdSevSnp = 0x01"
| "platform_id IntelTdx = 0x02"
| "platform_id Simulation = 0x03"

definition generate_attestation_report :: "tee_sandbox \<Rightarrow> u8 list \<Rightarrow> tee_error + u8 list" where
  "generate_attestation_report t user_nonce =
     Inr (report_header @ [platform_id (tee_type t)] @ user_nonce)"

definition verify_report :: "u8 list \<Rightarrow> tee_error + bool" where
  "verify_report report =
     (if length report < 18 then Inl InvalidReportSize
      else if take 17 report \<noteq> report_header then Inl InvalidHeader
      else if report ! 17 \<in> {0x01, 0x02, 0x03} then Inr True
      else Inl UnknownPlatform)"

definition encrypt_device_data ::
  "cipher \<Rightarrow> u8 list \<Rightarrow> tee_sandbox \<Rightarrow> u8 list \<Rightarrow> tee_error + u8 list" where
  "encrypt_device_data aes_encrypt nonce_bytes t plaintext =
     (case aes_encrypt (enclave_key t) nonce_bytes plaintext of
        None \<Rightarrow> Inl EncryptionFailed
      | Some ciphertext \<Rightarrow> Inr (nonce_bytes @ ciphertext))"

definition decrypt_device_data :: "cipher \<Rightarrow> tee_sandbox \<Rightarrow> u8 list \<Rightarrow> tee_error + u8 list" where
  "decrypt_device_data aes_decrypt t payload =
     (if length payload < 12 then Inl InvalidCiphertextSize
      else (case aes_decrypt (enclave_key t) (take 12 payload) (drop 12 payload) of
              None \<Rightarrow> Inl DecryptionFailed
            | Some plaintext \<Rightarrow> Inr plaintext))"

text \<open>What the code relies on of AES-GCM: decryption inverts encryption under the same key and nonce.\<close>

definition aead_inverse :: "cipher \<Rightarrow> cipher \<Rightarrow> bool" where
  "aead_inverse aes_encrypt aes_decrypt \<longleftrightarrow>
     (\<forall>k n p c. aes_encrypt k n p = Some c \<longrightarrow> aes_decrypt k n c = Some p)"

section \<open>Properties\<close>

lemma length_report_header: "length report_header = 17"
  by (simp add: report_header_def)

text \<open>Device data round trip: what the sandbox encrypts it decrypts to the same bytes, for every
  nonce of twelve bytes; the payload starts with the nonce; and anything shorter than a nonce is
  refused before the cipher is called.\<close>

theorem device_data_roundtrip:
  assumes "aead_inverse aes_encrypt aes_decrypt" and "length nonce = 12"
    and "encrypt_device_data aes_encrypt nonce t plaintext = Inr data"
  shows "decrypt_device_data aes_decrypt t data = Inr plaintext \<and> take 12 data = nonce \<and>
    (\<forall>short. length short < 12 \<longrightarrow> decrypt_device_data aes_decrypt t short = Inl InvalidCiphertextSize)"
  using assms
  by (auto simp: encrypt_device_data_def decrypt_device_data_def aead_inverse_def
      split: option.splits)

definition xor_cipher :: cipher where
  "xor_cipher k n p = Some (map (\<lambda>b. b XOR (if k = [] then 0 else hd k)) p)"

theorem device_data_roundtrip_witness:
  "decrypt_device_data xor_cipher \<lparr>tee_type = Simulation, enclave_key = [7]\<rparr>
     (replicate 12 0 @ [1 XOR 7, 2 XOR 7]) = Inr [1, 2]"
proof -
  have "aead_inverse xor_cipher xor_cipher"
    by (auto simp: aead_inverse_def xor_cipher_def xor.assoc comp_def)
  then show ?thesis
    using device_data_roundtrip [of xor_cipher xor_cipher "replicate 12 0"
        "\<lparr>tee_type = Simulation, enclave_key = [7]\<rparr>" "[1, 2]"
        "replicate 12 0 @ [1 XOR 7, 2 XOR 7]"]
    by (simp add: encrypt_device_data_def xor_cipher_def)
qed

text \<open>C38: Verification of attestation reports, exactly: it accepts every report that a sandbox
  generates, and it accepts a byte string if and only if it starts with the header and a known
  platform number. What follows is not looked at, so a report for another nonce, or one made up
  without any sandbox, is accepted as well; and the answer is never false, but true or an error.\<close>

theorem verify_report_exact:
  "(\<exists>r. generate_attestation_report t nonce = Inr r \<and> verify_report r = Inr True) \<and>
   (verify_report r = Inr True \<longleftrightarrow>
      (\<exists>p rest. p \<in> {1, 2, 3} \<and> r = report_header @ p # rest)) \<and>
   verify_report r \<noteq> Inr False"
proof (intro conjI)
  show "\<exists>r. generate_attestation_report t nonce = Inr r \<and> verify_report r = Inr True"
    by (cases "tee_type t")
      (simp_all add: generate_attestation_report_def verify_report_def length_report_header nth_append)
  show "verify_report r = Inr True \<longleftrightarrow> (\<exists>p rest. p \<in> {1, 2, 3} \<and> r = report_header @ p # rest)"
  proof
    assume v: "verify_report r = Inr True"
    then have "17 < length r" "take 17 r = report_header" "r ! 17 \<in> {1, 2, 3}"
      by (auto simp: verify_report_def split: if_splits)
    then show "\<exists>p rest. p \<in> {1, 2, 3} \<and> r = report_header @ p # rest"
      using id_take_nth_drop [of 17 r] by metis
  next
    assume "\<exists>p rest. p \<in> {1, 2, 3} \<and> r = report_header @ p # rest"
    then show "verify_report r = Inr True"
      by (auto simp: verify_report_def length_report_header nth_append)
  qed
  show "verify_report r \<noteq> Inr False" by (simp add: verify_report_def)
qed

end
