(* ===== verification/Obfuscator.thy ===== *)
theory Obfuscator
  imports Complex_Main Ieee_Float
begin

text \<open>
  Tensor obfuscation of \<open>omni-net/src/crypto/obfuscator.rs\<close>: the random matrix with its inverse by
  Gauss-Jordan elimination on a flat augmented array, obfuscation and restoration of tensors, and
  the line injection of \<open>flatten_control_flow\<close>. The elimination is written over a record of
  arithmetic operations: \<open>f32_arith\<close> is what the code computes with, \<open>rat_arith\<close> is the exact
  arithmetic in which its correctness is stated (rounding errors are not bounded).
\<close>

section \<open>Arithmetic\<close>

record 'a arith =
  a_zero :: 'a
  a_one :: 'a
  a_add :: "'a \<Rightarrow> 'a \<Rightarrow> 'a"
  a_sub :: "'a \<Rightarrow> 'a \<Rightarrow> 'a"
  a_mul :: "'a \<Rightarrow> 'a \<Rightarrow> 'a"
  a_div :: "'a \<Rightarrow> 'a \<Rightarrow> 'a"
  abs_gt :: "'a \<Rightarrow> 'a \<Rightarrow> bool"
  abs_tiny :: "'a \<Rightarrow> bool"

definition f32_arith :: "f32 arith" where
  "f32_arith =
     \<lparr>a_zero = literal binary32 0 1, a_one = literal binary32 1 1,
      a_add = fadd binary32, a_sub = fsub binary32, a_mul = fmul binary32, a_div = fdiv binary32,
      abs_gt = (\<lambda>x y. flt (fabs y) (fabs x)),
      abs_tiny = (\<lambda>x. flt (fabs x) (literal binary32 1 1000000))\<rparr>"

definition rat_arith :: "rat arith" where
  "rat_arith =
     \<lparr>a_zero = 0, a_one = 1, a_add = (+), a_sub = (-), a_mul = (*), a_div = (/),
      abs_gt = (\<lambda>x y. \<bar>y\<bar> < \<bar>x\<bar>), abs_tiny = (\<lambda>x. \<bar>x\<bar> < 1 / 1000000)\<rparr>"

section \<open>Inversion\<close>

text \<open>The augmented array \<open>[A | I]\<close>, in rows of \<open>2 * d\<close>.\<close>

definition augmented :: "'a arith \<Rightarrow> 'a list \<Rightarrow> nat \<Rightarrow> 'a list" where
  "augmented R matrix d =
     fold (\<lambda>i aug.
         (fold (\<lambda>j aug. aug[i * (2 * d) + j := matrix ! (i * d + j)]) [0..<d] aug)
           [i * (2 * d) + d + i := a_one R])
       [0..<d] (replicate (d * d * 2) (a_zero R))"

definition find_pivot :: "'a arith \<Rightarrow> nat \<Rightarrow> nat \<Rightarrow> 'a list \<Rightarrow> nat" where
  "find_pivot R d i aug =
     fold (\<lambda>r pivot_row.
         if abs_gt R (aug ! (r * (2 * d) + i)) (aug ! (pivot_row * (2 * d) + i))
         then r else pivot_row)
       [i + 1..<d] i"

definition swap_rows :: "nat \<Rightarrow> nat \<Rightarrow> nat \<Rightarrow> 'a list \<Rightarrow> 'a list" where
  "swap_rows d i pivot_row aug =
     (if pivot_row \<noteq> i
      then fold (\<lambda>col aug.
               let temp = aug ! (i * (2 * d) + col);
                   aug = aug[i * (2 * d) + col := aug ! (pivot_row * (2 * d) + col)]
               in aug[pivot_row * (2 * d) + col := temp])
             [0..<2 * d] aug
      else aug)"

definition scale_row :: "'a arith \<Rightarrow> nat \<Rightarrow> nat \<Rightarrow> 'a list \<Rightarrow> 'a list" where
  "scale_row R d i aug =
     (let factor = aug ! (i * (2 * d) + i) in
      fold (\<lambda>col aug.
          aug[i * (2 * d) + col := a_div R (aug ! (i * (2 * d) + col)) factor])
        [0..<2 * d] aug)"

definition eliminate_row :: "'a arith \<Rightarrow> nat \<Rightarrow> nat \<Rightarrow> nat \<Rightarrow> 'a list \<Rightarrow> 'a list" where
  "eliminate_row R d i r aug =
     (if r \<noteq> i
      then (let scale = aug ! (r * (2 * d) + i) in
            fold (\<lambda>col aug.
                aug[r * (2 * d) + col :=
                  a_sub R (aug ! (r * (2 * d) + col))
                    (a_mul R scale (aug ! (i * (2 * d) + col)))])
              [0..<2 * d] aug)
      else aug)"

definition eliminate :: "'a arith \<Rightarrow> nat \<Rightarrow> nat \<Rightarrow> 'a list \<Rightarrow> 'a list" where
  "eliminate R d i aug = fold (eliminate_row R d i) [0..<d] aug"

text \<open>One round of the outer loop; None is the early return for a singular matrix.\<close>

definition gauss_step :: "'a arith \<Rightarrow> nat \<Rightarrow> nat \<Rightarrow> 'a list \<Rightarrow> 'a list option" where
  "gauss_step R d i aug =
     (let pivot_row = find_pivot R d i aug in
      if abs_tiny R (aug ! (pivot_row * (2 * d) + i)) then None
      else Some (eliminate R d i (scale_row R d i (swap_rows d i pivot_row aug))))"

fun gauss_loop :: "'a arith \<Rightarrow> nat \<Rightarrow> nat list \<Rightarrow> 'a list \<Rightarrow> 'a list option" where
  "gauss_loop R d [] aug = Some aug"
| "gauss_loop R d (i # is) aug =
     (case gauss_step R d i aug of None \<Rightarrow> None | Some aug' \<Rightarrow> gauss_loop R d is aug')"

definition extract_inverse :: "'a arith \<Rightarrow> nat \<Rightarrow> 'a list \<Rightarrow> 'a list" where
  "extract_inverse R d aug =
     fold (\<lambda>i out. fold (\<lambda>j out. out[i * d + j := aug ! (i * (2 * d) + d + j)]) [0..<d] out)
       [0..<d] (replicate (d * d) (a_zero R))"

definition invert :: "'a arith \<Rightarrow> 'a list \<Rightarrow> nat \<Rightarrow> 'a list option" where
  "invert R matrix d =
     map_option (extract_inverse R d) (gauss_loop R d [0..<d] (augmented R matrix d))"

section \<open>Obfuscation\<close>

record 'a obfuscation_matrix =
  mat_dim :: nat
  data :: "'a list"
  mat_inverse :: "'a list"

datatype obfuscator_error = ShapeMismatch nat nat

text \<open>The product of a tensor of \<open>rows\<close> rows with a square matrix, as both operations compute it.\<close>

definition times_matrix :: "'a arith \<Rightarrow> nat \<Rightarrow> 'a list \<Rightarrow> 'a list \<Rightarrow> nat \<Rightarrow> 'a list" where
  "times_matrix R d tensor matrix rows =
     fold (\<lambda>r out. fold (\<lambda>col out.
           let total = fold (\<lambda>k total. a_add R total
                 (a_mul R (tensor ! (r * d + k)) (matrix ! (k * d + col)))) [0..<d] (a_zero R)
           in out[r * d + col := total])
         [0..<d] out)
       [0..<rows] (replicate (rows * d) (a_zero R))"

definition obfuscate ::
  "'a arith \<Rightarrow> 'a obfuscation_matrix \<Rightarrow> 'a list \<Rightarrow> nat \<Rightarrow> obfuscator_error + 'a list" where
  "obfuscate R p tensor rows =
     (if length tensor \<noteq> rows * mat_dim p then Inl (ShapeMismatch (rows * mat_dim p) (length tensor))
      else Inr (times_matrix R (mat_dim p) tensor (data p) rows))"

definition restore ::
  "'a arith \<Rightarrow> 'a obfuscation_matrix \<Rightarrow> 'a list \<Rightarrow> nat \<Rightarrow> obfuscator_error + 'a list" where
  "restore R p obfuscated_tensor rows =
     (if length obfuscated_tensor \<noteq> rows * mat_dim p
      then Inl (ShapeMismatch (rows * mat_dim p) (length obfuscated_tensor))
      else Inr (times_matrix R (mat_dim p) obfuscated_tensor (mat_inverse p) rows))"

text \<open>
  \<open>draw\<close> gives the rounded random entries of one attempt and \<open>diagonal\<close> is 15 in the arithmetic.
  The loop over the attempts has no bound in the code; \<open>fuel\<close> bounds it here, None means that
  all the attempts were singular.
\<close>

definition random_matrix :: "'a arith \<Rightarrow> 'a \<Rightarrow> nat \<Rightarrow> (nat \<Rightarrow> nat \<Rightarrow> 'a) \<Rightarrow> 'a list" where
  "random_matrix R diagonal d draw =
     fold (\<lambda>i m.
         let m = fold (\<lambda>j m. m[i * d + j := draw i j]) [0..<d] m
         in m[i * d + i := a_add R (m ! (i * d + i)) diagonal])
       [0..<d] (replicate (d * d) (a_zero R))"

fun generate ::
  "nat \<Rightarrow> 'a arith \<Rightarrow> 'a \<Rightarrow> nat \<Rightarrow> (nat \<Rightarrow> nat \<Rightarrow> nat \<Rightarrow> 'a) \<Rightarrow> 'a obfuscation_matrix option" where
  "generate 0 R diagonal d draws = None"
| "generate (Suc fuel) R diagonal d draws =
     (let m = random_matrix R diagonal d (draws 0) in
      case invert R m d of
        Some inv_m \<Rightarrow> Some \<lparr>mat_dim = d, data = m, mat_inverse = inv_m\<rparr>
      | None \<Rightarrow> generate fuel R diagonal d (\<lambda>n. draws (Suc n)))"

section \<open>Control flow flattening\<close>

text \<open>\<open>str::lines\<close>: the parts between line feeds, those that are terminated without one trailing
  carriage return, and no final empty part.\<close>

definition strip_cr :: "string \<Rightarrow> string" where
  "strip_cr l = (if l \<noteq> [] \<and> last l = CHR 0x0D then butlast l else l)"

definition str_lines :: "string \<Rightarrow> string list" where
  "str_lines s =
     (let parts = split_on (CHR 0x0A) s
      in map strip_cr (butlast parts) @ (if last parts = [] then [] else [last parts]))"

fun join_lines :: "string list \<Rightarrow> string" where
  "join_lines [] = []"
| "join_lines [l] = l"
| "join_lines (l # ls) = l @ nl @ join_lines ls"

definition injected_lines :: "string list" where
  "injected_lines =
     [tab @ ''// Opaque predicates for obfuscation'',
      tab @ ''int dummy_pred = 0;'',
      tab @ ''for(int dummy_i=0; dummy_i < 10; ++dummy_i) { dummy_pred += dummy_i * 3; }'']"

definition flatten_line :: "string \<Rightarrow> string list" where
  "flatten_line l =
     l # (if contains_str l ''void'' \<or> contains_str l ''kernel'' then injected_lines else [])"

definition flatten_lines :: "string \<Rightarrow> string list" where
  "flatten_lines code =
     ''// Flat control flow obfuscated by Omni-Net'' # concat (map flatten_line (str_lines code))"

definition flatten_control_flow :: "string \<Rightarrow> string" where
  "flatten_control_flow code = join_lines (flatten_lines code)"

section \<open>Loops over the rows of a flat array\<close>

text \<open>
  A loop that updates the cells \<open>b\<close> to \<open>b + n - 1\<close> one after the other, each from its own old
  value and from cells outside this range.
\<close>

lemma fold_row:
  assumes "b + n \<le> length xs"
    and "\<And>c ys. c < n \<Longrightarrow> length ys = length xs \<Longrightarrow>
      (\<And>k. k < length xs \<Longrightarrow> k < b \<or> b + n \<le> k \<Longrightarrow> ys ! k = xs ! k) \<Longrightarrow> f c ys = g c (ys ! (b + c))"
    and "m \<le> n"
  shows "length (fold (\<lambda>c ys. ys[b + c := f c ys]) [0..<m] xs) = length xs \<and>
    (\<forall>k < length xs. fold (\<lambda>c ys. ys[b + c := f c ys]) [0..<m] xs ! k =
       (if b \<le> k \<and> k < b + m then g (k - b) (xs ! k) else xs ! k))"
  using assms(3)
proof (induction m)
  case (Suc m)
  let ?ys = "fold (\<lambda>c ys. ys[b + c := f c ys]) [0..<m] xs"
  have len: "length ?ys = length xs"
    and nth: "\<And>k. k < length xs \<Longrightarrow>
      ?ys ! k = (if b \<le> k \<and> k < b + m then g (k - b) (xs ! k) else xs ! k)"
    using Suc by auto
  have "f m ?ys = g m (?ys ! (b + m))"
  proof (rule assms(2))
    show "?ys ! k = xs ! k" if "k < length xs" "k < b \<or> b + n \<le> k" for k
      using that Suc.prems nth by auto
  qed (use Suc.prems len in auto)
  also have "?ys ! (b + m) = xs ! (b + m)" using nth [of "b + m"] Suc.prems assms(1) by simp
  finally have f: "f m ?ys = g m (xs ! (b + m))" .
  show ?case
    using Suc.prems assms(1) len nth f by (auto simp: nth_list_update less_Suc_eq)
qed auto

text \<open>The entries of the augmented array.\<close>

definition ent :: "nat \<Rightarrow> 'a list \<Rightarrow> nat \<Rightarrow> nat \<Rightarrow> 'a" where
  "ent d aug r c = aug ! (r * (2 * d) + c)"

lemma row_index: "r < d \<Longrightarrow> c < w \<Longrightarrow> r * w + c < d * (w::nat)"
proof -
  assume "r < d" "c < w"
  then have "r * w + c < Suc r * w" by simp
  also have "\<dots> \<le> d * w" using \<open>r < d\<close> by (intro mult_le_mono1) simp
  finally show ?thesis .
qed

lemma row_range: "c < w \<Longrightarrow> (i * w \<le> r * w + c \<and> r * w + c < i * w + w) \<longleftrightarrow> r = (i::nat)"
proof
  assume c: "c < w" and h: "i * w \<le> r * w + c \<and> r * w + c < i * w + w"
  then have "i * w < Suc r * w" "r * w < Suc i * w" by auto
  with c have "i < Suc r" "r < Suc i" by (simp_all only: mult_less_cancel2)
  then show "r = i" by simp
qed auto

lemma row_end: "i < d \<Longrightarrow> i * w + w \<le> d * (w::nat)"
  by (metis Suc_leI add.commute mult_Suc mult_le_mono1)

lemma row_distinct: "c < w \<Longrightarrow> c' < w \<Longrightarrow> r * w + c = r' * w + c' \<longleftrightarrow> r = (r'::nat) \<and> c = c'"
  using row_range [of c w r' r] by auto

lemma scale_row_ent:
  assumes "length aug = d * (2 * d)" and "i < d"
  shows "length (scale_row R d i aug) = d * (2 * d) \<and>
    (\<forall>r < d. \<forall>c < 2 * d. ent d (scale_row R d i aug) r c =
       (if r = i then a_div R (ent d aug i c) (ent d aug i i) else ent d aug r c))"
proof -
  let ?w = "2 * d" and ?f = "aug ! (i * (2 * d) + i)"
  have "length (scale_row R d i aug) = length aug \<and>
    (\<forall>k < length aug. scale_row R d i aug ! k =
       (if i * ?w \<le> k \<and> k < i * ?w + ?w then a_div R (aug ! k) ?f else aug ! k))"
    unfolding scale_row_def Let_def
    using fold_row [of "i * ?w" ?w aug "\<lambda>c ys. a_div R (ys ! (i * ?w + c)) ?f" "\<lambda>c x. a_div R x ?f" ?w]
      row_end [OF assms(2), of ?w] assms(1) by simp
  then show ?thesis
    using assms row_index [of _ d _ ?w] row_range [of _ ?w i] by (auto simp: ent_def)
qed

lemma eliminate_row_ent:
  assumes "length aug = d * (2 * d)" and "i < d" and "j < d"
  shows "length (eliminate_row R d i j aug) = d * (2 * d) \<and>
    (\<forall>r < d. \<forall>c < 2 * d. ent d (eliminate_row R d i j aug) r c =
       (if r = j \<and> j \<noteq> i then a_sub R (ent d aug r c) (a_mul R (ent d aug r i) (ent d aug i c))
        else ent d aug r c))"
proof (cases "j = i")
  case False
  let ?w = "2 * d" and ?s = "aug ! (j * (2 * d) + i)"
  let ?g = "\<lambda>c x. a_sub R x (a_mul R ?s (aug ! (i * ?w + c)))"
  have "length (eliminate_row R d i j aug) = length aug \<and>
    (\<forall>k < length aug. eliminate_row R d i j aug ! k =
       (if j * ?w \<le> k \<and> k < j * ?w + ?w then ?g (k - j * ?w) (aug ! k) else aug ! k))"
  proof -
    have "a_sub R (ys ! (j * ?w + c)) (a_mul R ?s (ys ! (i * ?w + c))) = ?g c (ys ! (j * ?w + c))"
      if "c < ?w" "\<And>k. k < length aug \<Longrightarrow> k < j * ?w \<or> j * ?w + ?w \<le> k \<Longrightarrow> ys ! k = aug ! k" for c ys
    proof -
      have "i * ?w + c < length aug" using row_index [OF assms(2) that(1)] assms(1) by simp
      moreover have "\<not> (j * ?w \<le> i * ?w + c \<and> i * ?w + c < j * ?w + ?w)"
        using row_range [OF that(1), of j i] False by auto
      ultimately show ?thesis using that(2) by (simp add: not_le not_less)
    qed
    then show ?thesis
      unfolding eliminate_row_def Let_def
      using fold_row [of "j * ?w" ?w aug
          "\<lambda>c ys. a_sub R (ys ! (j * ?w + c)) (a_mul R ?s (ys ! (i * ?w + c)))" ?g ?w]
        row_end [OF assms(3), of ?w] assms(1) False by simp
  qed
  then show ?thesis
    using assms False row_index [of _ d _ ?w] row_range [of _ ?w j] by (auto simp: ent_def)
qed (simp add: eliminate_row_def assms)

lemma eliminate_ent:
  assumes "length aug = d * (2 * d)" and "i < d"
  shows "length (eliminate R d i aug) = d * (2 * d) \<and>
    (\<forall>r < d. \<forall>c < 2 * d. ent d (eliminate R d i aug) r c =
       (if r \<noteq> i then a_sub R (ent d aug r c) (a_mul R (ent d aug r i) (ent d aug i c))
        else ent d aug r c))"
proof -
  have "length (fold (eliminate_row R d i) [0..<m] aug) = d * (2 * d) \<and>
    (\<forall>r < d. \<forall>c < 2 * d. ent d (fold (eliminate_row R d i) [0..<m] aug) r c =
       (if r < m \<and> r \<noteq> i then a_sub R (ent d aug r c) (a_mul R (ent d aug r i) (ent d aug i c))
        else ent d aug r c))" if "m \<le> d" for m
    using that
  proof (induction m)
    case (Suc m)
    let ?ys = "fold (eliminate_row R d i) [0..<m] aug"
    have len: "length ?ys = d * (2 * d)" and IH: "\<forall>r < d. \<forall>c < 2 * d. ent d ?ys r c =
       (if r < m \<and> r \<noteq> i then a_sub R (ent d aug r c) (a_mul R (ent d aug r i) (ent d aug i c))
        else ent d aug r c)"
      using Suc by simp_all
    from eliminate_row_ent [OF len assms(2), of m R] Suc.prems IH assms(2) show ?case
      by (auto simp: less_Suc_eq)
  qed (simp add: assms)
  from this [of d] show ?thesis by (simp add: eliminate_def)
qed

lemma nth_swap:
  "a < length ys \<Longrightarrow> b < length ys \<Longrightarrow>
     ys[a := x, b := y] ! k = (if k = b then y else if k = a then x else ys ! k)"
  by (simp add: nth_list_update)

lemma swap_rows_ent:
  assumes "length aug = d * (2 * d)" and "i < d" and "p < d"
  shows "length (swap_rows d i p aug) = d * (2 * d) \<and>
    (\<forall>r < d. \<forall>c < 2 * d. ent d (swap_rows d i p aug) r c =
       ent d aug (if r = i then p else if r = p then i else r) c)"
proof (cases "p = i")
  case False
  let ?w = "2 * d"
  let ?step = "\<lambda>col aug. aug[i * ?w + col := aug ! (p * ?w + col), p * ?w + col := aug ! (i * ?w + col)]"
  have "length (fold ?step [0..<m] aug) = d * ?w \<and>
    (\<forall>r < d. \<forall>c < ?w. ent d (fold ?step [0..<m] aug) r c =
       (if c < m then ent d aug (if r = i then p else if r = p then i else r) c else ent d aug r c))"
    if "m \<le> ?w" for m
    using that
  proof (induction m)
    case (Suc m)
    let ?ys = "fold ?step [0..<m] aug"
    have len: "length ?ys = d * ?w" and IH: "\<And>r c. r < d \<Longrightarrow> c < ?w \<Longrightarrow> ?ys ! (r * ?w + c) =
       (if c < m then ent d aug (if r = i then p else if r = p then i else r) c else ent d aug r c)"
      using Suc by (simp_all add: ent_def)
    have b: "i * ?w + m < d * ?w" "p * ?w + m < d * ?w"
      using row_index assms Suc.prems by simp_all
    show ?case
    proof (intro conjI allI impI)
      fix r c assume r: "r < d" and c: "c < ?w"
      have m: "m < ?w" using Suc.prems by simp
      have ys: "?ys ! (i * ?w + m) = ent d aug i m" "?ys ! (p * ?w + m) = ent d aug p m"
        using IH [OF assms(2) m] IH [OF assms(3) m] by simp_all
      have "fold ?step [0..<Suc m] aug =
          ?ys[i * ?w + m := ent d aug p m, p * ?w + m := ent d aug i m]"
        by (simp only: upt_Suc_append zero_le fold_append fold_simps comp_apply ys)
      then have "fold ?step [0..<Suc m] aug ! (r * ?w + c) =
          (if r * ?w + c = p * ?w + m then ent d aug i m
           else if r * ?w + c = i * ?w + m then ent d aug p m else ?ys ! (r * ?w + c))"
        using b len by (simp only: nth_swap)
      then have "fold ?step [0..<Suc m] aug ! (r * ?w + c) =
          (if r = p \<and> c = m then ent d aug i m else if r = i \<and> c = m then ent d aug p m
           else ?ys ! (r * ?w + c))"
        by (simp only: row_distinct [OF c m])
      then show "ent d (fold ?step [0..<Suc m] aug) r c =
          (if c < Suc m then ent d aug (if r = i then p else if r = p then i else r) c
           else ent d aug r c)"
        unfolding ent_def [of d "fold ?step [0..<Suc m] aug"] using IH [OF r c] False
        by (cases "c = m") (simp_all add: less_Suc_eq)
    qed (simp add: len)
  qed (simp add: assms)
  from this [of ?w] False show ?thesis by (simp add: swap_rows_def Let_def)
qed (simp add: swap_rows_def assms)

text \<open>Filling a flat array row by row with values that do not depend on it.\<close>

lemma fold_matrix:
  assumes "length xs = n * w"
  shows "length (fold (\<lambda>r out. fold (\<lambda>c out. out[r * w + c := h r c]) [0..<w] out) [0..<n] xs) = n * w \<and>
    (\<forall>r < n. \<forall>c < w. fold (\<lambda>r out. fold (\<lambda>c out. out[r * w + c := h r c]) [0..<w] out) [0..<n] xs
       ! (r * w + c) = h r c)"
proof -
  let ?F = "\<lambda>m. fold (\<lambda>r out. fold (\<lambda>c out. out[r * w + c := h r c]) [0..<w] out) [0..<m] xs"
  have "length (?F m) = n * w \<and> (\<forall>r < m. \<forall>c < w. ?F m ! (r * w + c) = h r c)" if "m \<le> n" for m
    using that
  proof (induction m)
    case (Suc m)
    have len: "length (?F m) = n * w" using Suc by simp
    have "m * w + w \<le> length (?F m)" unfolding len by (rule row_end) (use Suc.prems in simp)
    from fold_row [OF this, of "\<lambda>c ys. h m c" "\<lambda>c x. h m c" w]
    have row: "length (?F (Suc m)) = n * w" "\<And>k. k < n * w \<Longrightarrow> ?F (Suc m) ! k =
        (if m * w \<le> k \<and> k < m * w + w then h m (k - m * w) else ?F m ! k)"
      by (simp_all add: len)
    show ?case
    proof (intro conjI allI impI row(1))
      fix r c assume r: "r < Suc m" and c: "c < w"
      have "r * w + c < n * w" by (rule row_index) (use r c Suc.prems in auto)
      from row(2) [OF this] show "?F (Suc m) ! (r * w + c) = h r c"
        using row_range [OF c, of m r] r c Suc by (auto simp: less_Suc_eq)
    qed
  qed (simp add: assms)
  from this [of n] show ?thesis by simp
qed

lemma row_part:
  "c < w \<Longrightarrow> n \<le> w \<Longrightarrow> (i * w \<le> r * w + c \<and> r * w + c < i * w + n) \<longleftrightarrow> r = (i::nat) \<and> c < n"
  using row_range [of c w i r] by auto

lemma augmented_ent:
  "length (augmented R matrix d) = d * (2 * d) \<and>
   (\<forall>r < d. \<forall>c < 2 * d. ent d (augmented R matrix d) r c =
      (if c < d then matrix ! (r * d + c) else if c = d + r then a_one R else a_zero R))"
proof -
  let ?w = "2 * d"
  let ?row = "\<lambda>i aug. fold (\<lambda>j aug. aug[i * ?w + j := matrix ! (i * d + j)]) [0..<d] aug"
  let ?F = "\<lambda>m. fold (\<lambda>i aug. (?row i aug)[i * ?w + d + i := a_one R]) [0..<m]
    (replicate (d * d * 2) (a_zero R))"
  let ?v = "\<lambda>r c. if c < d then matrix ! (r * d + c) else if c = d + r then a_one R else a_zero R"
  have "length (?F m) = d * ?w \<and>
      (\<forall>r < d. \<forall>c < ?w. ent d (?F m) r c = (if r < m then ?v r c else a_zero R))" if "m \<le> d" for m
    using that
  proof (induction m)
    case 0
    have "r * ?w + c < d * d * 2" if "r < d" "c < ?w" for r c
      using row_index [OF that] by simp
    then show ?case by (simp add: ent_def)
  next
    case (Suc m)
    let ?ys = "?F m"
    have m: "m < d" and len: "length ?ys = d * ?w" using Suc by simp_all
    have "m * ?w + d \<le> length ?ys" using row_end [OF m, of ?w] unfolding len by simp
    from fold_row [OF this, of "\<lambda>c ys. matrix ! (m * d + c)" "\<lambda>c x. matrix ! (m * d + c)" d]
    have row: "length (?row m ?ys) = d * ?w" "\<And>k. k < d * ?w \<Longrightarrow> ?row m ?ys ! k =
        (if m * ?w \<le> k \<and> k < m * ?w + d then matrix ! (m * d + (k - m * ?w)) else ?ys ! k)"
      by (simp_all only: len simp_thms HOL.all_simps order_refl)
    have one: "m * ?w + (d + m) < d * ?w" by (rule row_index [OF m]) (use m in simp)
    show ?case
    proof (intro conjI allI impI)
      fix r c assume r: "r < d" and c: "c < ?w"
      have "d + m < ?w" using m by simp
      note distinct = row_distinct [OF c this, of r m]
      have "ent d (?F (Suc m)) r c =
          (if r * ?w + c = m * ?w + (d + m) then a_one R else ?row m ?ys ! (r * ?w + c))"
        unfolding ent_def using row(1) one
        by (simp only: upt_Suc_append zero_le fold_append fold_simps comp_apply add.assoc) (simp add: nth_list_update)
      also have "\<dots> = (if r = m \<and> c = d + m then a_one R
          else if r = m \<and> c < d then matrix ! (m * d + c) else ?ys ! (r * ?w + c))"
        using row(2) [OF row_index [OF r c]] row_part [OF c, of d m r] distinct by auto
      also have "\<dots> = (if r < Suc m then ?v r c else a_zero R)"
        using Suc.IH Suc.prems r c by (auto simp: ent_def less_Suc_eq)
      finally show "ent d (?F (Suc m)) r c = (if r < Suc m then ?v r c else a_zero R)" .
    qed (simp add: row(1))
  qed
  from this [of d] show ?thesis by (simp add: augmented_def)
qed

lemma find_pivot_range: "i < d \<Longrightarrow> i \<le> find_pivot R d i aug \<and> find_pivot R d i aug < d"
proof -
  assume "i < d"
  have "i \<le> fold (\<lambda>r pivot_row. if abs_gt R (aug ! (r * (2 * d) + i)) (aug ! (pivot_row * (2 * d) + i))
         then r else pivot_row) rs p \<and> fold (\<lambda>r pivot_row. if abs_gt R (aug ! (r * (2 * d) + i)) (aug ! (pivot_row * (2 * d) + i))
         then r else pivot_row) rs p < d"
    if "\<forall>r \<in> set rs. i \<le> r \<and> r < d" "i \<le> p" "p < d" for rs p
    using that by (induction rs arbitrary: p) auto
  from this [of "[i + 1..<d]" i] \<open>i < d\<close> show ?thesis by (simp add: find_pivot_def)
qed

section \<open>Correctness of the elimination in exact arithmetic\<close>

text \<open>
  The invariant of the outer loop: the rows of the original augmented matrix are combinations of
  the rows of the current one, and the first columns are unit vectors.
\<close>

definition spans :: "nat \<Rightarrow> (nat \<Rightarrow> nat \<Rightarrow> rat) \<Rightarrow> (nat \<Rightarrow> nat \<Rightarrow> rat) \<Rightarrow> bool" where
  "spans d A M \<longleftrightarrow>
     (\<exists>S. \<forall>r < d. \<forall>c < 2 * d. (\<Sum>k < d. S r k * M k c) = A r c)"

definition unit_columns :: "nat \<Rightarrow> nat \<Rightarrow> (nat \<Rightarrow> nat \<Rightarrow> rat) \<Rightarrow> bool" where
  "unit_columns d i M \<longleftrightarrow> (\<forall>r < d. \<forall>j < i. M r j = (if r = j then 1 else 0))"

lemma spans_cong:
  assumes "spans d A M" and "\<And>k c. k < d \<Longrightarrow> c < 2 * d \<Longrightarrow> N k c = M k c"
  shows "spans d A N"
  using assms by (simp add: spans_def)

lemma spans_swap:
  assumes "spans d A M" and "i < d" and "p < d"
  shows "spans d A (\<lambda>r. M (if r = i then p else if r = p then i else r))"
proof -
  let ?\<pi> = "\<lambda>r. if r = i then p else if r = p then i else (r :: nat)"
  obtain S where S: "\<And>r c. r < d \<Longrightarrow> c < 2 * d \<Longrightarrow> (\<Sum>k < d. S r k * M k c) = A r c"
    using assms(1) by (auto simp: spans_def)
  have bij: "bij_betw ?\<pi> {..<d} {..<d}"
    using assms(2,3) by (intro bij_betw_byWitness [where f' = ?\<pi>]) auto
  have "(\<Sum>k < d. S r (?\<pi> k) * M (?\<pi> k) c) = A r c" if "r < d" "c < 2 * d" for r c
    using sum.reindex_bij_betw [OF bij, of "\<lambda>k. S r k * M k c"] S [OF that] by simp
  then show ?thesis unfolding spans_def by (intro exI [of _ "\<lambda>r k. S r (?\<pi> k)"]) blast
qed

lemma sum_split: "i < d \<Longrightarrow> (\<Sum>k < (d :: nat). f k) = f i + (\<Sum>k \<in> {..<d} - {i}. (f k :: rat))"
  by (rule sum.remove) auto

lemma spans_scale:
  assumes "spans d A M" and "i < d" and "f \<noteq> 0"
  shows "spans d A (\<lambda>r c. if r = i then M i c / f else M r c)"
proof -
  obtain S where S: "\<And>r c. r < d \<Longrightarrow> c < 2 * d \<Longrightarrow> (\<Sum>k < d. S r k * M k c) = A r c"
    using assms(1) by (auto simp: spans_def)
  have "(\<Sum>k < d. (if k = i then S r i * f else S r k) * (if k = i then M i c / f else M k c)) = A r c"
    if "r < d" "c < 2 * d" for r c
    unfolding S [OF that, symmetric] using assms(3) by (intro sum.cong) auto
  then show ?thesis
    unfolding spans_def by (intro exI [of _ "\<lambda>r k. if k = i then S r i * f else S r k"]) simp
qed

lemma spans_eliminate:
  assumes "spans d A M" and "i < d"
  shows "spans d A (\<lambda>r c. if r \<noteq> i then M r c - M r i * M i c else M r c)"
proof -
  obtain S where S: "\<And>r c. r < d \<Longrightarrow> c < 2 * d \<Longrightarrow> (\<Sum>k < d. S r k * M k c) = A r c"
    using assms(1) by (auto simp: spans_def)
  let ?D = "{..<d} - {i}"
  let ?S = "\<lambda>r k. if k = i then S r i + (\<Sum>l \<in> ?D. S r l * M l i) else S r k"
  let ?N = "\<lambda>r c. if r \<noteq> i then M r c - M r i * M i c else M r c"
  have "(\<Sum>k < d. ?S r k * ?N k c) = A r c" if "r < d" "c < 2 * d" for r c
  proof -
    have "(\<Sum>k < d. ?S r k * ?N k c) =
        (S r i + (\<Sum>l \<in> ?D. S r l * M l i)) * M i c + (\<Sum>k \<in> ?D. S r k * (M k c - M k i * M i c))"
      by (simp add: sum_split [OF assms(2)])
    also have "(\<Sum>k \<in> ?D. S r k * (M k c - M k i * M i c)) =
        (\<Sum>k \<in> ?D. S r k * M k c) - (\<Sum>k \<in> ?D. S r k * M k i) * M i c"
      by (simp add: right_diff_distrib sum_subtractf sum_distrib_right mult.assoc)
    also have "(S r i + (\<Sum>l \<in> ?D. S r l * M l i)) * M i c +
        ((\<Sum>k \<in> ?D. S r k * M k c) - (\<Sum>k \<in> ?D. S r k * M k i) * M i c) =
        S r i * M i c + (\<Sum>k \<in> ?D. S r k * M k c)"
      by (simp add: algebra_simps)
    finally show ?thesis using S [OF that] by (simp add: sum_split [OF assms(2)])
  qed
  then show ?thesis unfolding spans_def by (intro exI [of _ ?S]) blast
qed

definition gauss_inv :: "nat \<Rightarrow> (nat \<Rightarrow> nat \<Rightarrow> rat) \<Rightarrow> nat \<Rightarrow> rat list \<Rightarrow> bool" where
  "gauss_inv d A i aug \<longleftrightarrow>
     length aug = d * (2 * d) \<and> spans d A (ent d aug) \<and> unit_columns d i (ent d aug)"

lemma gauss_step_inv:
  assumes "gauss_inv d A i aug" and "i < d" and "gauss_step rat_arith d i aug = Some aug'"
  shows "gauss_inv d A (Suc i) aug'"
proof -
  define p where "p = find_pivot rat_arith d i aug"
  define M where "M = ent d aug"
  have p: "i \<le> p" "p < d" using find_pivot_range [OF assms(2), of rat_arith aug] by (simp_all add: p_def)
  have len: "length aug = d * (2 * d)" and sp: "spans d A M" and un: "unit_columns d i M"
    using assms(1) by (simp_all add: gauss_inv_def M_def)
  have nz: "M p i \<noteq> 0" and aug': "aug' = eliminate rat_arith d i (scale_row rat_arith d i (swap_rows d i p aug))"
    using assms(3) by (auto simp: gauss_step_def Let_def p_def M_def ent_def rat_arith_def split: if_splits)
  define M1 where "M1 = (\<lambda>r. M (if r = i then p else if r = p then i else r))"
  define M2 where "M2 = (\<lambda>r c. if r = i then M1 i c / M1 i i else M1 r c)"
  define M3 where "M3 = (\<lambda>r c. if r \<noteq> i then M2 r c - M2 r i * M2 i c else M2 r c)"
  note e1 = swap_rows_ent [OF len assms(2) p(2)]
  note e2 = scale_row_ent [OF conjunct1 [OF e1] assms(2), of rat_arith]
  note e3 = eliminate_ent [OF conjunct1 [OF e2] assms(2), of rat_arith]
  have "ent d aug' r c = M3 r c" if "r < d" "c < 2 * d" for r c
    using e1 e2 e3 that assms(2) unfolding aug'
    by (simp add: M1_def M2_def M3_def M_def rat_arith_def)
  moreover have "spans d A M3"
  proof -
    have "spans d A M1" unfolding M1_def by (rule spans_swap [OF sp assms(2) p(2)])
    then have "spans d A M2" unfolding M2_def
      by (rule spans_scale [OF _ assms(2)]) (simp add: M1_def nz)
    then show ?thesis unfolding M3_def by (rule spans_eliminate [OF _ assms(2)])
  qed
  moreover have "unit_columns d (Suc i) M3"
  proof -
    have "M1 r j = (if r = j then 1 else 0)" if "r < d" "j < i" for r j
      using un that p assms(2) by (auto simp: M1_def unit_columns_def)
    moreover have "M1 i i \<noteq> 0" using nz by (simp add: M1_def)
    ultimately show ?thesis
      using assms(2) by (auto simp: unit_columns_def M3_def M2_def less_Suc_eq)
  qed
  moreover have "length aug' = d * (2 * d)" using e3 by (simp add: aug')
  ultimately show ?thesis
    using assms(2) by (auto simp: gauss_inv_def unit_columns_def intro: spans_cong)
qed

lemma gauss_loop_inv:
  "gauss_loop rat_arith d [i..<d] aug = Some aug' \<Longrightarrow> gauss_inv d A i aug \<Longrightarrow> i \<le> d \<Longrightarrow>
     gauss_inv d A d aug'"
proof (induction "d - i" arbitrary: i aug)
  case 0
  then show ?case by simp
next
  case (Suc n)
  then have i: "i < d" by simp
  with Suc.prems obtain aug1 where "gauss_step rat_arith d i aug = Some aug1"
    "gauss_loop rat_arith d [Suc i..<d] aug1 = Some aug'"
    by (auto simp: upt_conv_Cons split: option.splits)
  with Suc.hyps(1) [of "Suc i" aug1] Suc.hyps(2) Suc.prems(2) i gauss_step_inv [of d A i aug aug1]
  show ?case by simp
qed

text \<open>Entry of a square matrix in a flat array.\<close>

definition sq :: "nat \<Rightarrow> 'a list \<Rightarrow> nat \<Rightarrow> nat \<Rightarrow> 'a" where
  "sq d m r c = m ! (r * d + c)"

lemma extract_inverse_sq:
  "i < d \<Longrightarrow> j < d \<Longrightarrow> sq d (extract_inverse R d aug) i j = ent d aug i (d + j)"
  using fold_matrix [of "replicate (d * d) (a_zero R)" d d "\<lambda>i j. aug ! (i * (2 * d) + d + j)"]
  by (simp add: extract_inverse_def sq_def ent_def add.assoc)

text \<open>What the elimination returns is a right inverse.\<close>

lemma invert_right_inverse:
  assumes "invert rat_arith matrix d = Some inv_m" and "r < d" and "c < d"
  shows "(\<Sum>k < d. sq d matrix r k * sq d inv_m k c) = (if r = c then 1 else 0)"
proof -
  let ?A = "ent d (augmented rat_arith matrix d)"
  obtain aug where aug: "gauss_loop rat_arith d [0..<d] (augmented rat_arith matrix d) = Some aug"
    and inv_m: "inv_m = extract_inverse rat_arith d aug"
    using assms(1) by (auto simp: invert_def)
  note A = augmented_ent [of rat_arith matrix d]
  have "spans d ?A ?A"
    unfolding spans_def
    by (intro exI [of _ "\<lambda>r k. if k = r then 1 else 0"]) (simp add: if_distrib [of "\<lambda>x. x * _"] cong: if_cong)
  then have "gauss_inv d ?A 0 (augmented rat_arith matrix d)"
    using A by (simp add: gauss_inv_def unit_columns_def)
  from gauss_loop_inv [OF aug this] have inv_d: "gauss_inv d ?A d aug" by simp
  then obtain S where S: "\<And>r c. r < d \<Longrightarrow> c < 2 * d \<Longrightarrow> (\<Sum>k < d. S r k * ent d aug k c) = ?A r c"
    by (auto simp: gauss_inv_def spans_def)
  have unit: "ent d aug k j = (if k = j then 1 else 0)" if "k < d" "j < d" for k j
    using inv_d that by (auto simp: gauss_inv_def unit_columns_def)
  have SA: "S r j = sq d matrix r j" if "j < d" for j
  proof -
    have "S r j = (\<Sum>k < d. S r k * ent d aug k j)"
      using that unit by (simp add: if_distrib [of "\<lambda>x. _ * x"] cong: if_cong sum.cong_simp)
    also have "\<dots> = sq d matrix r j" using S [OF assms(2)] A assms(2) that by (simp add: sq_def)
    finally show ?thesis .
  qed
  have "(\<Sum>k < d. sq d matrix r k * sq d inv_m k c) = (\<Sum>k < d. S r k * ent d aug k (d + c))"
    using SA assms(3) by (simp add: inv_m extract_inverse_sq)
  also have "\<dots> = ?A r (d + c)" using S [OF assms(2), of "d + c"] assms(3) by simp
  also have "\<dots> = (if r = c then 1 else 0)"
    using A assms(2,3) by (auto simp: rat_arith_def)
  finally show ?thesis .
qed

section \<open>Products\<close>

lemma fold_sum: "fold (\<lambda>k total. total + f k) [0..<n] (0 :: rat) = (\<Sum>k < n. f k)"
  by (induction n) simp_all

lemma times_matrix_sq:
  "length (times_matrix rat_arith d t m rows) = rows * d \<and>
   (\<forall>r < rows. \<forall>c < d. sq d (times_matrix rat_arith d t m rows) r c = (\<Sum>k < d. sq d t r k * sq d m k c))"
  using fold_matrix [of "replicate (rows * d) 0" rows d
      "\<lambda>r c. fold (\<lambda>k total. total + t ! (r * d + k) * m ! (k * d + c)) [0..<d] 0"]
  by (simp add: times_matrix_def rat_arith_def sq_def fold_sum Let_def)

lemma flat_eqI:
  assumes "length xs = n * d" and "length ys = n * d"
    and "\<And>r c. r < n \<Longrightarrow> c < d \<Longrightarrow> sq d xs r c = sq d ys r c"
  shows "xs = ys"
proof (rule nth_equalityI)
  fix k assume "k < length xs"
  then have k: "k < n * d" using assms(1) by simp
  then have "0 < d" by (cases d) auto
  then have "k div d < n" "k mod d < d"
    using k by (simp_all add: less_mult_imp_div_less)
  from assms(3) [OF this] show "xs ! k = ys ! k" by (simp add: sq_def)
qed (simp add: assms)

lemma restore_obfuscate:
  assumes right: "\<And>r c. r < d \<Longrightarrow> c < d \<Longrightarrow> (\<Sum>k < d. sq d m r k * sq d n k c) = (if r = c then 1 else 0)"
    and len: "length t = rows * d"
  shows "times_matrix rat_arith d (times_matrix rat_arith d t m rows) n rows = t"
proof (rule flat_eqI)
  fix r c assume r: "r < rows" and c: "c < d"
  let ?o = "times_matrix rat_arith d t m rows"
  have "sq d (times_matrix rat_arith d ?o n rows) r c = (\<Sum>k < d. sq d ?o r k * sq d n k c)"
    using times_matrix_sq [of d ?o n rows] r c by simp
  also have "\<dots> = (\<Sum>k < d. (\<Sum>l < d. sq d t r l * sq d m l k) * sq d n k c)"
    using times_matrix_sq [of d t m rows] r by simp
  also have "\<dots> = (\<Sum>l < d. sq d t r l * (\<Sum>k < d. sq d m l k * sq d n k c))"
    by (simp add: sum_distrib_left sum_distrib_right mult.assoc) (rule sum.swap)
  also have "\<dots> = (\<Sum>l < d. if l = c then sq d t r l else 0)"
    using right c by (intro sum.cong) auto
  also have "\<dots> = sq d t r c" using c by simp
  finally show "sq d (times_matrix rat_arith d ?o n rows) r c = sq d t r c" .
qed (use len times_matrix_sq in auto)

lemma generate_inverse:
  "generate fuel R diagonal d draws = Some p \<Longrightarrow>
     mat_dim p = d \<and> invert R (data p) d = Some (mat_inverse p)"
  by (induction fuel arbitrary: draws) (auto simp: Let_def split: option.splits)

section \<open>Lines\<close>

lemma split_on_no_sep: "l \<in> set (split_on c s) \<Longrightarrow> c \<notin> set l"
  by (induction c s arbitrary: l rule: split_on.induct) (auto split: if_splits list.splits)

lemma str_lines_no_nl: "l \<in> set (str_lines s) \<Longrightarrow> CHR 0x0A \<notin> set l"
  using split_on_no_sep [of _ "CHR 0x0A" s] split_on_nonempty [of "CHR 0x0A" s]
  by (auto simp: str_lines_def Let_def strip_cr_def split: if_splits
      dest: in_set_butlastD intro: last_in_set)

lemma split_join_lines:
  "ls \<noteq> [] \<Longrightarrow> \<forall>l \<in> set ls. CHR 0x0A \<notin> set l \<Longrightarrow> split_on (CHR 0x0A) (join_lines ls) = ls"
  by (induction ls rule: join_lines.induct) auto

lemma flatten_lines_no_nl: "l \<in> set (flatten_lines s) \<Longrightarrow> CHR 0x0A \<notin> set l"
  using str_lines_no_nl [of _ s]
  by (auto simp: flatten_lines_def flatten_line_def injected_lines_def split: if_splits)

lemma subseq_flatten_line: "subseq ls (concat (map flatten_line ls))"
proof (induction ls)
  case (Cons l ls)
  then have "subseq ls (injected_lines @ concat (map flatten_line ls))"
    by (rule subseq_drop_many)
  with Cons show ?case by (auto simp: flatten_line_def)
qed simp

section \<open>Properties\<close>

text \<open>C11: In exact arithmetic restoring undoes obfuscation: whatever the random draws were, a generated
  matrix times its stored inverse is the identity, and every tensor of the right shape comes
  back unchanged.\<close>

theorem obfuscation_roundtrip_exact:
  assumes "generate fuel rat_arith diagonal d draws = Some p" and "length tensor = rows * d"
  shows "(\<exists>hidden. obfuscate rat_arith p tensor rows = Inr hidden \<and>
      restore rat_arith p hidden rows = Inr tensor) \<and>
    (\<forall>r < d. \<forall>c < d. (\<Sum>k < d. sq d (data p) r k * sq d (mat_inverse p) k c) = (if r = c then 1 else 0))"
proof -
  note g = generate_inverse [OF assms(1)]
  have right: "(\<Sum>k < d. sq d (data p) r k * sq d (mat_inverse p) k c) = (if r = c then 1 else 0)"
    if "r < d" "c < d" for r c
    using invert_right_inverse [OF conjunct2 [OF g] that] .
  have "restore rat_arith p (times_matrix rat_arith d tensor (data p) rows) rows = Inr tensor"
    using restore_obfuscate [OF right assms(2)] times_matrix_sq [of d tensor "data p" rows] g
    by (simp add: restore_def)
  then show ?thesis using right g assms(2) by (auto simp: obfuscate_def)
qed

lemma invert_16: "invert rat_arith [16] (Suc 0) = Some [1 / 16]"
  by (simp add: invert_def augmented_def gauss_step_def find_pivot_def swap_rows_def scale_row_def
      eliminate_def eliminate_row_def extract_inverse_def rat_arith_def Let_def upt_rec)

theorem obfuscation_roundtrip_exact_witness:
  "\<exists>p. generate 1 rat_arith 15 1 (\<lambda>n i j. 1) = Some p \<and>
     (\<exists>hidden. obfuscate rat_arith p [5, 7] 2 = Inr hidden \<and> restore rat_arith p hidden 2 = Inr [5, 7])"
proof -
  have "random_matrix rat_arith 15 1 (\<lambda>i j. 1) = [16]"
    by (simp add: random_matrix_def rat_arith_def Let_def upt_rec)
  then obtain p where p: "generate 1 rat_arith 15 1 (\<lambda>n i j. 1) = Some p"
    by (simp add: invert_16 Let_def)
  from obfuscation_roundtrip_exact [OF p, of "[5, 7]" 2] p show ?thesis by auto
qed

text \<open>In every arithmetic, single precision included, obfuscation and restoration fail exactly on
  tensors of the wrong size, with both sizes in the error, and keep the shape otherwise.\<close>

theorem obfuscation_shapes:
  "(length tensor \<noteq> rows * mat_dim p \<longrightarrow>
      obfuscate R p tensor rows = Inl (ShapeMismatch (rows * mat_dim p) (length tensor)) \<and>
      restore R p tensor rows = Inl (ShapeMismatch (rows * mat_dim p) (length tensor))) \<and>
   (length tensor = rows * mat_dim p \<longrightarrow>
      map_sum id length (obfuscate R p tensor rows) = Inr (rows * mat_dim p) \<and>
      map_sum id length (restore R p tensor rows) = Inr (rows * mat_dim p))"
proof -
  have "length (times_matrix R d t m n) = n * d" for d t m n
    unfolding times_matrix_def Let_def
    using fold_matrix [of "replicate (n * d) (a_zero R)" n d] by simp
  then show ?thesis by (simp add: obfuscate_def restore_def)
qed

theorem obfuscation_shapes_witness:
  "obfuscate f32_arith \<lparr>mat_dim = 2, data = [], mat_inverse = []\<rparr> [NaN] 3 = Inl (ShapeMismatch 6 1)"
  using obfuscation_shapes [of "[NaN]" 3 "\<lparr>mat_dim = 2, data = [], mat_inverse = []\<rparr>" f32_arith]
  by simp

text \<open>Flattening keeps every line of the code in order: the lines of the result are the comment,
  the lines of the code, and three injected lines after each line that mentions \<open>void\<close> or
  \<open>kernel\<close>.\<close>

theorem flatten_keeps_lines:
  "split_on (CHR 0x0A) (flatten_control_flow code) = flatten_lines code \<and>
   subseq (str_lines code) (flatten_lines code) \<and>
   length (flatten_lines code) =
     1 + length (str_lines code) +
     3 * length (filter (\<lambda>l. contains_str l ''void'' \<or> contains_str l ''kernel'') (str_lines code))"
proof (intro conjI)
  show "split_on (CHR 0x0A) (flatten_control_flow code) = flatten_lines code"
    unfolding flatten_control_flow_def
    using flatten_lines_no_nl by (intro split_join_lines) (auto simp: flatten_lines_def)
  show "subseq (str_lines code) (flatten_lines code)"
    by (simp add: flatten_lines_def subseq_flatten_line list_emb_Cons)
  have "length (concat (map flatten_line ls)) = length ls +
      3 * length (filter (\<lambda>l. contains_str l ''void'' \<or> contains_str l ''kernel'') ls)" for ls
    by (induction ls) (simp_all add: flatten_line_def injected_lines_def)
  then show "length (flatten_lines code) = 1 + length (str_lines code) +
      3 * length (filter (\<lambda>l. contains_str l ''void'' \<or> contains_str l ''kernel'') (str_lines code))"
    by (simp add: flatten_lines_def)
qed

text \<open>
  The offset on the diagonal does not make the matrix strictly dominant from dimension three on:
  entries of \<open>-5\<close> give a singular matrix, which the loop draws again.
\<close>

lemma offset_matrix_singular:
  "random_matrix rat_arith 15 3 (\<lambda>i j. - 5) = [10, - 5, - 5, - 5, 10, - 5, - 5, - 5, 10] \<and>
   invert rat_arith [10, - 5, - 5, - 5, 10, - 5, - 5, - 5, 10] 3 = None"
  by (simp add: random_matrix_def invert_def augmented_def gauss_step_def find_pivot_def swap_rows_def
      scale_row_def eliminate_def eliminate_row_def rat_arith_def Let_def upt_rec
      list_update_code nth_Cons_numeral numeral_eq_Suc)

text \<open>
  The injected statements land inside a parameter list that spans lines, as in the kernels of the
  AMD and Metal generators.
\<close>

lemma flatten_breaks_parameter_list:
  "flatten_lines (''kernel void f('' @ nl @ ''int n) {}'' @ nl) =
     [''// Flat control flow obfuscated by Omni-Net'', ''kernel void f(''] @ injected_lines @ [''int n) {}'']"
  by (simp add: flatten_lines_def str_lines_def flatten_line_def strip_cr_def Let_def)

end
