(* ===== verification/Obfuscator_Return.thy ===== *)
theory Obfuscator_Return
  imports Obfuscator
begin

text \<open>
  When the retry loop of \<open>ObfuscationMatrix::generate\<close> returns: with the first attempt whose matrix can be
  inverted. In the binary32 arithmetic of the code, a draw of zeros off the diagonal gives such a matrix in every
  dimension; every attempt has the same chance of it. In exact arithmetic it is enough that the
  diagonal dominates the columns, since such a matrix is inverted without exchanging rows; this is the guarantee
  that the source claims for the diagonal offset.
\<close>

section \<open>Entries of the drawn matrix\<close>

lemma random_matrix_entries:
  "length (random_matrix R diagonal d draw) = d * d \<and>
   (\<forall>r < d. \<forall>c < d. sq d (random_matrix R diagonal d draw) r c =
      (if r = c then a_add R (draw r c) diagonal else draw r c))"
proof -
  let ?row = "\<lambda>i m. fold (\<lambda>j m. m[i * d + j := draw i j]) [0..<d] m"
  let ?diag = "\<lambda>i m. m[i * d + i := a_add R (m ! (i * d + i)) diagonal]"
  let ?F = "\<lambda>n. fold (\<lambda>i m. ?diag i (?row i m)) [0..<n] (replicate (d * d) (a_zero R))"
  let ?v = "\<lambda>r c. if r = c then a_add R (draw r c) diagonal else draw r c"
  have "length (?F n) = d * d \<and> (\<forall>r < n. \<forall>c < d. ?F n ! (r * d + c) = ?v r c)" if "n \<le> d" for n
    using that
  proof (induction n)
    case (Suc n)
    have n: "n < d" and len: "length (?F n) = d * d" using Suc by simp_all
    have "n * d + d \<le> length (?F n)" unfolding len by (rule row_end [OF n])
    from fold_row [OF this, of "\<lambda>c ys. draw n c" "\<lambda>c x. draw n c" d]
    have row: "length (?row n (?F n)) = d * d" "\<And>k. k < d * d \<Longrightarrow> ?row n (?F n) ! k =
        (if n * d \<le> k \<and> k < n * d + d then draw n (k - n * d) else ?F n ! k)"
      by (simp_all only: len simp_thms HOL.all_simps order_refl)
    have diag: "?row n (?F n) ! (n * d + n) = draw n n"
      using row(2) [OF row_index [OF n n]] n by simp
    show ?case
    proof (intro conjI allI impI)
      fix r c assume r: "r < Suc n" and c: "c < d"
      have k: "r * d + c < d * d" using r n by (intro row_index c) simp
      have "?F (Suc n) ! (r * d + c) =
          (if r * d + c = n * d + n then a_add R (draw n n) diagonal else ?row n (?F n) ! (r * d + c))"
        using row(1) diag k row_index [OF n n]
        by (simp only: upt_Suc_append zero_le fold_append fold_simps comp_apply) (simp add: nth_list_update)
      also have "\<dots> = ?v r c"
        using row(2) [OF k] row_range [OF c, of n r] row_distinct [OF c n, of r n] r c Suc
        by (auto simp: less_Suc_eq)
      finally show "?F (Suc n) ! (r * d + c) = ?v r c" .
    qed (simp add: row(1))
  qed simp
  from this [of d] show ?thesis by (simp add: random_matrix_def sq_def Let_def)
qed

lemma random_matrix_sq:
  "length (random_matrix rat_arith diagonal d draw) = d * d \<and>
   (\<forall>r < d. \<forall>c < d. sq d (random_matrix rat_arith diagonal d draw) r c =
      draw r c + (if r = c then diagonal else 0))"
  using random_matrix_entries [of rat_arith diagonal d draw] by (simp add: rat_arith_def)

section \<open>Dominated columns\<close>

text \<open>In the rows from \<open>i\<close> on, every remaining diagonal entry exceeds the sum of its column by the
  threshold of the pivot test.\<close>

definition dominant :: "nat \<Rightarrow> nat \<Rightarrow> (nat \<Rightarrow> nat \<Rightarrow> rat) \<Rightarrow> bool" where
  "dominant d i M \<longleftrightarrow>
     (\<forall>c \<in> {i..<d}. (\<Sum>r \<in> {i..<d} - {c}. \<bar>M r c\<bar>) + 1 / 1000000 \<le> \<bar>M c c\<bar>)"

lemma dominantD:
  "dominant d i M \<Longrightarrow> i \<le> c \<Longrightarrow> c < d \<Longrightarrow>
     (\<Sum>r \<in> {i..<d} - {c}. \<bar>M r c\<bar>) + 1 / 1000000 \<le> \<bar>M c c\<bar>"
  by (simp add: dominant_def)

lemma dominant_entry:
  assumes "dominant d i M" and "i < d" and "r \<in> {i..<d} - {i}"
  shows "\<bar>M r i\<bar> < \<bar>M i i\<bar>"
proof -
  have "\<bar>M r i\<bar> \<le> (\<Sum>r \<in> {i..<d} - {i}. \<bar>M r i\<bar>)"
    using assms(3) by (intro member_le_sum) auto
  with dominantD [OF assms(1) order_refl assms(2)] show ?thesis by linarith
qed

lemma dominant_pivot:
  assumes "dominant d i (ent d aug)" and "i < d"
  shows "find_pivot rat_arith d i aug = i"
proof -
  have "fold (\<lambda>r pivot_row. if abs_gt rat_arith (aug ! (r * (2 * d) + i)) (aug ! (pivot_row * (2 * d) + i))
         then r else pivot_row) rs i = i" if "set rs \<subseteq> {i..<d} - {i}" for rs
    using that
  proof (induction rs)
    case (Cons r rs)
    then have "\<bar>ent d aug r i\<bar> < \<bar>ent d aug i i\<bar>" using dominant_entry [OF assms] by simp
    then show ?case using Cons by (simp add: rat_arith_def ent_def)
  qed simp
  moreover have "set [i + 1..<d] \<subseteq> {i..<d} - {i}" by auto
  ultimately show ?thesis unfolding find_pivot_def by blast
qed

text \<open>One elimination step keeps the dominance in the remaining rows.\<close>

lemma dominant_step:
  assumes dom: "dominant d i M" and i: "i < d"
  shows "dominant d (Suc i) (\<lambda>r c. M r c - M r i * (M i c / M i i))"
  unfolding dominant_def
proof
  fix c assume c: "c \<in> {Suc i..<d}"
  let ?D = "{Suc i..<d} - {c}" and ?q = "\<bar>M i c\<bar> / \<bar>M i i\<bar>"
  let ?N = "\<lambda>r c. M r c - M r i * (M i c / M i i)"
  have di: "(\<Sum>r \<in> {Suc i..<d}. \<bar>M r i\<bar>) < \<bar>M i i\<bar>"
  proof -
    have "{i..<d} - {i} = {Suc i..<d}" by auto
    with dominantD [OF dom order_refl i] show ?thesis by simp
  qed
  then have pos: "0 < \<bar>M i i\<bar>" using sum_nonneg [of "{Suc i..<d}" "\<lambda>r. \<bar>M r i\<bar>"] by linarith
  have "{i..<d} - {c} = insert i ?D" using c i by auto
  then have dc: "\<bar>M i c\<bar> + (\<Sum>r \<in> ?D. \<bar>M r c\<bar>) + 1 / 1000000 \<le> \<bar>M c c\<bar>"
    using dominantD [OF dom, of c] c by simp
  have entry: "\<bar>?N r c\<bar> \<le> \<bar>M r c\<bar> + \<bar>M r i\<bar> * ?q" for r
    using abs_triangle_ineq4 [of "M r c" "M r i * (M i c / M i i)"] by (simp add: abs_mult)
  have "(\<Sum>r \<in> ?D. \<bar>?N r c\<bar>) \<le> (\<Sum>r \<in> ?D. \<bar>M r c\<bar> + \<bar>M r i\<bar> * ?q)"
    by (intro sum_mono entry)
  also have "\<dots> = (\<Sum>r \<in> ?D. \<bar>M r c\<bar>) + (\<Sum>r \<in> ?D. \<bar>M r i\<bar>) * ?q"
    by (simp only: sum.distrib sum_distrib_right)
  finally have "(\<Sum>r \<in> ?D. \<bar>?N r c\<bar>) + \<bar>M c i\<bar> * ?q \<le>
      (\<Sum>r \<in> ?D. \<bar>M r c\<bar>) + (\<bar>M c i\<bar> + (\<Sum>r \<in> ?D. \<bar>M r i\<bar>)) * ?q"
    unfolding distrib_right by linarith
  moreover have "\<bar>M c i\<bar> + (\<Sum>r \<in> ?D. \<bar>M r i\<bar>) = (\<Sum>r \<in> {Suc i..<d}. \<bar>M r i\<bar>)"
    using c by (simp add: sum.remove [of "{Suc i..<d}" c])
  ultimately have "(\<Sum>r \<in> ?D. \<bar>?N r c\<bar>) + \<bar>M c i\<bar> * ?q \<le>
      (\<Sum>r \<in> ?D. \<bar>M r c\<bar>) + (\<Sum>r \<in> {Suc i..<d}. \<bar>M r i\<bar>) * ?q"
    by (simp only:)
  moreover have "(\<Sum>r \<in> {Suc i..<d}. \<bar>M r i\<bar>) * ?q \<le> \<bar>M i c\<bar>"
  proof -
    have "(\<Sum>r \<in> {Suc i..<d}. \<bar>M r i\<bar>) * ?q \<le> \<bar>M i i\<bar> * ?q"
      using di by (intro mult_right_mono) simp_all
    also have "\<dots> = \<bar>M i c\<bar>" using pos by simp
    finally show ?thesis .
  qed
  moreover have "\<bar>M c c\<bar> - \<bar>M c i\<bar> * ?q \<le> \<bar>?N c c\<bar>"
    using abs_triangle_ineq2 [of "M c c" "M c i * (M i c / M i i)"] by (simp add: abs_mult)
  ultimately show "(\<Sum>r \<in> ?D. \<bar>?N r c\<bar>) + 1 / 1000000 \<le> \<bar>?N c c\<bar>"
    using dc by linarith
qed


lemma dominant_cong:
  assumes "dominant d i M" and "\<And>r c. i \<le> r \<Longrightarrow> r < d \<Longrightarrow> i \<le> c \<Longrightarrow> c < d \<Longrightarrow> N r c = M r c"
  shows "dominant d i N"
  unfolding dominant_def
proof
  fix c assume c: "c \<in> {i..<d}"
  then have "(\<Sum>r \<in> {i..<d} - {c}. \<bar>N r c\<bar>) = (\<Sum>r \<in> {i..<d} - {c}. \<bar>M r c\<bar>)"
    by (intro sum.cong) (auto simp: assms(2))
  then show "(\<Sum>r \<in> {i..<d} - {c}. \<bar>N r c\<bar>) + 1 / 1000000 \<le> \<bar>N c c\<bar>"
    using dominantD [OF assms(1), of c] assms(2) [of c c] c by simp
qed

lemma gauss_step_dominant:
  assumes dom: "dominant d i (ent d aug)" and len: "length aug = d * (2 * d)" and i: "i < d"
  shows "\<exists>aug'. gauss_step rat_arith d i aug = Some aug' \<and> length aug' = d * (2 * d) \<and>
    dominant d (Suc i) (ent d aug')"
proof -
  let ?s = "scale_row rat_arith d i aug" and ?aug' = "eliminate rat_arith d i (scale_row rat_arith d i aug)"
  note pivot = dominant_pivot [OF dom i]
  have "1 / 1000000 \<le> \<bar>ent d aug i i\<bar>"
    using dominantD [OF dom order_refl i] sum_nonneg [of "{i..<d} - {i}" "\<lambda>r. \<bar>ent d aug r i\<bar>"] by linarith
  then have step: "gauss_step rat_arith d i aug = Some ?aug'"
    by (simp add: gauss_step_def pivot swap_rows_def) (simp add: rat_arith_def ent_def)
  note e2 = scale_row_ent [OF len i, of rat_arith]
  note e3 = eliminate_ent [OF conjunct1 [OF e2] i, of rat_arith]
  have "ent d ?aug' r c = ent d aug r c - ent d aug r i * (ent d aug i c / ent d aug i i)"
    if "Suc i \<le> r" "r < d" "Suc i \<le> c" "c < d" for r c
    using e2 e3 that i by (simp add: rat_arith_def)
  with dominant_cong [OF dominant_step [OF dom i]] have "dominant d (Suc i) (ent d ?aug')" by blast
  with step e3 show ?thesis by blast
qed

lemma gauss_loop_dominant:
  "dominant d i (ent d aug) \<Longrightarrow> length aug = d * (2 * d) \<Longrightarrow> i \<le> d \<Longrightarrow>
     gauss_loop rat_arith d [i..<d] aug \<noteq> None"
proof (induction "d - i" arbitrary: i aug)
  case (Suc n)
  then have i: "i < d" by simp
  obtain aug' where "gauss_step rat_arith d i aug = Some aug'" "length aug' = d * (2 * d)"
    "dominant d (Suc i) (ent d aug')" using gauss_step_dominant [OF Suc.prems(1,2) i] by blast
  with Suc.hyps(1) [of "Suc i" aug'] Suc.hyps(2) i show ?case by (simp add: upt_conv_Cons)
qed simp

lemma invert_dominant:
  assumes "dominant d 0 (sq d m)"
  shows "invert rat_arith m d \<noteq> None"
proof -
  note A = augmented_ent [of rat_arith m d]
  have "dominant d 0 (ent d (augmented rat_arith m d))"
    using assms by (rule dominant_cong) (use A in \<open>simp add: sq_def\<close>)
  from gauss_loop_dominant [OF this] A show ?thesis by (simp add: invert_def)
qed

text \<open>The loop ends with the first attempt whose matrix can be inverted, whatever the arithmetic.\<close>

lemma generate_returns_iff:
  "generate fuel R diagonal d draws \<noteq> None \<longleftrightarrow>
     (\<exists>n < fuel. invert R (random_matrix R diagonal d (draws n)) d \<noteq> None)"
proof (induction fuel arbitrary: draws)
  case (Suc fuel)
  show ?case
  proof (cases "invert R (random_matrix R diagonal d (draws 0)) d")
    case None
    then have "generate (Suc fuel) R diagonal d draws \<noteq> None \<longleftrightarrow>
        (\<exists>n < fuel. invert R (random_matrix R diagonal d (draws (Suc n))) d \<noteq> None)"
      using Suc [of "\<lambda>n. draws (Suc n)"] by (simp add: Let_def)
    also have "\<dots> \<longleftrightarrow> (\<exists>n < Suc fuel. invert R (random_matrix R diagonal d (draws n)) d \<noteq> None)"
      using None by (metis Suc_less_eq less_Suc_eq_0_disj)
    finally show ?thesis .
  qed (auto simp: Let_def)
qed simp

lemma generate_dominant:
  assumes "\<forall>c < d. (\<Sum>r \<in> {..<d} - {c}. \<bar>draws n r c\<bar>) + 1 / 1000000 \<le> \<bar>draws n c c + diagonal\<bar>"
    and "n < fuel"
  shows "generate fuel rat_arith diagonal d draws \<noteq> None"
proof -
  let ?m = "random_matrix rat_arith diagonal d (draws n)"
  let ?M = "\<lambda>r c. draws n r c + (if r = c then diagonal else 0)"
  have "dominant d 0 ?M"
    unfolding dominant_def
  proof
    fix c assume c: "c \<in> {0..<d}"
    have "(\<Sum>r \<in> {0..<d} - {c}. \<bar>?M r c\<bar>) = (\<Sum>r \<in> {..<d} - {c}. \<bar>draws n r c\<bar>)"
      by (intro sum.cong) auto
    with assms(1) c show "(\<Sum>r \<in> {0..<d} - {c}. \<bar>?M r c\<bar>) + 1 / 1000000 \<le> \<bar>?M c c\<bar>" by simp
  qed
  then have "dominant d 0 (sq d ?m)"
    by (rule dominant_cong) (use random_matrix_sq [of diagonal d "draws n"] in simp)
  with invert_dominant assms(2) show ?thesis
    using generate_returns_iff [of fuel rat_arith diagonal d draws] by blast
qed

section \<open>Diagonal draws in binary32\<close>

text \<open>The values that \<open>gen_range(-5.0..5.0).round()\<close> can give, and the zeros among them.\<close>

definition drawn_values :: "f32 list" where
  "drawn_values = map (of_unsigned binary32) [0, 1, 2, 3, 4, 5] @ map (fneg \<circ> of_unsigned binary32) [0, 1, 2, 3, 4, 5]"

definition zeros :: "f32 list" where
  "zeros = [Finite False 0 0, Finite True 0 0]"

definition diagonal_draw :: "nat \<Rightarrow> (nat \<Rightarrow> nat \<Rightarrow> f32) \<Rightarrow> bool" where
  "diagonal_draw d draw \<longleftrightarrow> (\<forall>r < d. \<forall>c < d. draw r c \<in> set (if r = c then drawn_values else zeros))"

text \<open>The zeros off the diagonal are drawn values.\<close>

lemma zeros_drawn: "set zeros \<subseteq> set drawn_values"
  by (simp add: zeros_def drawn_values_def float_eval)

text \<open>The values on the diagonal, and their inverses.\<close>

abbreviation (input) one32 :: f32 where "one32 \<equiv> literal binary32 1 1"

definition pivots :: "f32 list" where
  "pivots = map (\<lambda>x. fadd binary32 x (literal binary32 15 1)) drawn_values"

definition pivot_inverses :: "f32 list" where
  "pivot_inverses = map (fdiv binary32 one32) pivots"

lemma pivots_eval:
  "pivots = [Finite False 15728640 (- 20), Finite False 8388608 (- 19), Finite False 8912896 (- 19),
     Finite False 9437184 (- 19), Finite False 9961472 (- 19), Finite False 10485760 (- 19),
     Finite False 15728640 (- 20), Finite False 14680064 (- 20), Finite False 13631488 (- 20),
     Finite False 12582912 (- 20), Finite False 11534336 (- 20), Finite False 10485760 (- 20)]"
  by (simp add: pivots_def drawn_values_def float_eval)

lemma one32_eval: "one32 = Finite False 8388608 (- 23)"
  by (simp add: float_eval)

lemma pivot_inverses_eval:
  "pivot_inverses = [Finite False 8947849 (- 27), Finite False 8388608 (- 27), Finite False 15790321 (- 28),
     Finite False 14913081 (- 28), Finite False 14128182 (- 28), Finite False 13421773 (- 28),
     Finite False 8947849 (- 27), Finite False 9586981 (- 27), Finite False 10324441 (- 27),
     Finite False 11184811 (- 27), Finite False 12201612 (- 27), Finite False 13421773 (- 27)]"
  unfolding pivot_inverses_def pivots_eval one32_eval by (simp add: float_eval)

text \<open>Zeros stay zeros, and subtracting one changes nothing.\<close>

lemma pivot_facts:
  assumes "v \<in> set pivots"
  shows "\<not> abs_tiny f32_arith v" "z \<in> set zeros \<Longrightarrow> \<not> abs_gt f32_arith z v" "fdiv binary32 v v = one32"
    "z \<in> set zeros \<Longrightarrow> fdiv binary32 z v \<in> set zeros" "fdiv binary32 one32 v \<in> set pivot_inverses"
proof -
  show "\<not> abs_tiny f32_arith v"
    using assms by (auto simp: pivots_eval f32_arith_def float_eval)
  show "\<not> abs_gt f32_arith z v" if "z \<in> set zeros"
    using assms that by (auto simp: pivots_eval zeros_def f32_arith_def float_eval)
  show "fdiv binary32 v v = one32"
    unfolding one32_eval using assms by (auto simp: pivots_eval float_eval)
  show "fdiv binary32 z v \<in> set zeros" if "z \<in> set zeros"
    using assms that by (auto simp: pivots_eval zeros_def float_eval)
  show "fdiv binary32 one32 v \<in> set pivot_inverses"
    using assms by (simp add: pivot_inverses_def)
qed

abbreviation (input) finites :: "f32 list" where "finites \<equiv> one32 # pivots @ pivot_inverses"

lemma zero_facts:
  assumes "z \<in> set zeros"
  shows "x \<in> set finites \<union> set zeros \<Longrightarrow> fmul binary32 z x \<in> set zeros"
    and "x \<in> set finites \<Longrightarrow> fsub binary32 x z = x" and "x \<in> set zeros \<Longrightarrow> fsub binary32 x z \<in> set zeros"
proof -
  show "fmul binary32 z x \<in> set zeros" if x: "x \<in> set finites \<union> set zeros"
  proof -
    have "list_all (\<lambda>x. \<exists>s m e. x = Finite s m e) (finites @ zeros)"
      unfolding pivots_eval pivot_inverses_eval one32_eval zeros_def by simp blast
    then obtain s m e where "x = Finite s m e" using x unfolding list_all_iff set_append by blast
    then show ?thesis using assms by (auto simp: zeros_def round_to_def)
  qed
  have "list_all (\<lambda>x. list_all (\<lambda>z. fsub binary32 x z = x) zeros) finites"
    unfolding pivots_eval pivot_inverses_eval one32_eval zeros_def by (simp add: float_eval)
  then show "fsub binary32 x z = x" if "x \<in> set finites"
    using assms that unfolding list_all_iff by blast
  show "fsub binary32 x z \<in> set zeros" if "x \<in> set zeros"
    using assms that by (auto simp: zeros_def float_eval)
qed

text \<open>What the entries of the augmented array can be before round \<open>i\<close>.\<close>

definition diagonal_entry :: "nat \<Rightarrow> nat \<Rightarrow> nat \<Rightarrow> nat \<Rightarrow> f32 list" where
  "diagonal_entry d i r c =
     (if c = r then (if r < i then [one32] else pivots)
      else if c = d + r then (if r < i then pivot_inverses else [one32]) else zeros)"

definition diagonal_form :: "nat \<Rightarrow> nat \<Rightarrow> f32 list \<Rightarrow> bool" where
  "diagonal_form d i aug \<longleftrightarrow>
     length aug = d * (2 * d) \<and> (\<forall>r < d. \<forall>c < 2 * d. ent d aug r c \<in> set (diagonal_entry d i r c))"

lemma diagonal_entries: "set (diagonal_entry d i r c) \<subseteq> set finites \<union> set zeros"
  by (auto simp: diagonal_entry_def)

lemma diagonal_pivot:
  assumes form: "diagonal_form d i aug" and i: "i < d"
  shows "find_pivot f32_arith d i aug = i"
proof -
  have "ent d aug i i \<in> set (diagonal_entry d i i i)" using form i by (simp add: diagonal_form_def)
  then have v: "ent d aug i i \<in> set pivots" by (simp add: diagonal_entry_def)
  have "fold (\<lambda>r pivot_row. if abs_gt f32_arith (aug ! (r * (2 * d) + i)) (aug ! (pivot_row * (2 * d) + i))
         then r else pivot_row) rs i = i" if "set rs \<subseteq> {i + 1..<d}" for rs
    using that
  proof (induction rs)
    case (Cons r rs)
    then have r: "i < r" "r < d" by auto
    then have "ent d aug r i \<in> set (diagonal_entry d i r i)" using form i by (simp add: diagonal_form_def)
    then have "ent d aug r i \<in> set zeros" using r i by (simp add: diagonal_entry_def)
    from pivot_facts(2) [OF v this] have "\<not> abs_gt f32_arith (aug ! (r * (2 * d) + i)) (aug ! (i * (2 * d) + i))"
      by (simp add: ent_def)
    then show ?case using Cons by simp
  qed simp
  then show ?thesis by (simp add: find_pivot_def)
qed

lemma gauss_step_diagonal:
  assumes form: "diagonal_form d i aug" and i: "i < d"
  shows "\<exists>aug'. gauss_step f32_arith d i aug = Some aug' \<and> diagonal_form d (Suc i) aug'"
proof -
  let ?s = "scale_row f32_arith d i aug"
  have len: "length aug = d * (2 * d)"
    and e: "ent d aug r c \<in> set (diagonal_entry d i r c)" if "r < d" "c < 2 * d" for r c
    using form that by (auto simp: diagonal_form_def)
  have len: "length aug = d * (2 * d)" using form by (simp add: diagonal_form_def)
  have v: "ent d aug i i \<in> set pivots" using e [of i i] i by (simp add: diagonal_entry_def)
  have step: "gauss_step f32_arith d i aug = Some (eliminate f32_arith d i ?s)"
    using pivot_facts(1) [OF v] by (simp add: gauss_step_def diagonal_pivot [OF form i] swap_rows_def ent_def)
  note S = scale_row_ent [OF len i, of f32_arith]
  note E = eliminate_ent [OF conjunct1 [OF S] i, of f32_arith]
  have ops: "a_div f32_arith = fdiv binary32" "a_sub f32_arith = fsub binary32" "a_mul f32_arith = fmul binary32"
    by (simp_all add: f32_arith_def)
  have scaled: "ent d ?s i c \<in> set (diagonal_entry d (Suc i) i c)" if c: "c < 2 * d" for c
  proof -
    have "ent d ?s i c = fdiv binary32 (ent d aug i c) (ent d aug i i)" using S i c by (simp add: ops)
    then show ?thesis
      using e [OF i c] pivot_facts(3,5) [OF v] pivot_facts(4) [OF v, of "ent d aug i c"]
      by (cases "c = i"; cases "c = d + i") (simp_all add: diagonal_entry_def)
  qed
  have others: "ent d (eliminate f32_arith d i ?s) r c \<in> set (diagonal_entry d (Suc i) r c)"
    if rc: "r < d" "c < 2 * d" "r \<noteq> i" for r c
  proof -
    have same: "diagonal_entry d (Suc i) r c = diagonal_entry d i r c" using rc(3) by (simp add: diagonal_entry_def)
    have "ent d aug r i \<in> set zeros" using e [OF rc(1), of i] i rc(3) by (simp add: diagonal_entry_def)
    from zero_facts(1) [OF this, of "ent d ?s i c"] scaled [OF rc(2)] diagonal_entries [of d "Suc i" i c]
    have z: "fmul binary32 (ent d aug r i) (ent d ?s i c) \<in> set zeros" by blast
    have "ent d (eliminate f32_arith d i ?s) r c =
        fsub binary32 (ent d aug r c) (fmul binary32 (ent d aug r i) (ent d ?s i c))"
      using E S rc i by (simp add: ops)
    moreover have "ent d aug r c \<in> set finites \<union> set zeros"
      using e [OF rc(1,2)] diagonal_entries [of d i r c] by blast
    moreover have "ent d aug r c \<in> set zeros \<Longrightarrow> ent d aug r c \<in> set finites \<Longrightarrow> False"
      unfolding pivots_eval pivot_inverses_eval one32_eval zeros_def by auto
    moreover have "set (diagonal_entry d i r c) = set zeros \<or> set (diagonal_entry d i r c) \<subseteq> set finites"
      by (auto simp: diagonal_entry_def)
    ultimately show ?thesis
      using zero_facts(2,3) [OF z] e [OF rc(1,2)] unfolding same by auto
  qed
  have "diagonal_form d (Suc i) (eliminate f32_arith d i ?s)"
    unfolding diagonal_form_def
  proof (intro conjI allI impI)
    show "length (eliminate f32_arith d i ?s) = d * (2 * d)" using E by blast
    fix r c assume rc: "r < d" "c < 2 * d"
    show "ent d (eliminate f32_arith d i ?s) r c \<in> set (diagonal_entry d (Suc i) r c)"
    proof (cases "r = i")
      case True
      then show ?thesis using E i rc scaled [OF rc(2)] by simp
    qed (rule others [OF rc])
  qed
  with step show ?thesis by blast
qed

lemma gauss_loop_diagonal:
  "diagonal_form d i aug \<Longrightarrow> i \<le> d \<Longrightarrow> gauss_loop f32_arith d [i..<d] aug \<noteq> None"
proof (induction "d - i" arbitrary: i aug)
  case (Suc n)
  then have i: "i < d" by simp
  obtain aug' where "gauss_step f32_arith d i aug = Some aug'" "diagonal_form d (Suc i) aug'"
    using gauss_step_diagonal [OF Suc.prems(1) i] by blast
  with Suc.hyps(1) [of "Suc i" aug'] Suc.hyps(2) i show ?case by (simp add: upt_conv_Cons)
qed simp

lemma invert_diagonal:
  assumes "diagonal_draw d draw"
  shows "invert f32_arith (random_matrix f32_arith (literal binary32 15 1) d draw) d \<noteq> None"
proof -
  let ?m = "random_matrix f32_arith (literal binary32 15 1) d draw"
  note A = augmented_ent [of f32_arith ?m d]
  note M = random_matrix_entries [of f32_arith "literal binary32 15 1" d draw]
  have "diagonal_form d 0 (augmented f32_arith ?m d)"
    unfolding diagonal_form_def
  proof (intro conjI allI impI)
    show "length (augmented f32_arith ?m d) = d * (2 * d)" using A by blast
    fix r c assume rc: "r < d" "c < 2 * d"
    show "ent d (augmented f32_arith ?m d) r c \<in> set (diagonal_entry d 0 r c)"
    proof (cases "c < d")
      case True
      then have "draw r c \<in> set (if r = c then drawn_values else zeros)" using assms rc by (simp add: diagonal_draw_def)
      moreover have "ent d (augmented f32_arith ?m d) r c = (if r = c then fadd binary32 (draw r c) (literal binary32 15 1) else draw r c)"
        using A M rc True by (simp add: sq_def f32_arith_def)
      ultimately show ?thesis using True by (auto simp: diagonal_entry_def pivots_def)
    next
      case False
      then have "ent d (augmented f32_arith ?m d) r c = (if c = d + r then one32 else literal binary32 0 1)"
        using A rc by (simp add: f32_arith_def)
      moreover have "literal binary32 0 1 \<in> set zeros" by (simp add: zeros_def float_eval)
      ultimately show ?thesis using False rc by (auto simp: diagonal_entry_def)
    qed
  qed
  from gauss_loop_diagonal [OF this] show ?thesis by (simp add: invert_def)
qed

section \<open>Property\<close>

text \<open>C12: Generation returns, in the binary32 arithmetic of the code, at the latest with the first attempt that
  draws zeros everywhere off the diagonal, with a matrix of the requested dimension and its computed inverse: the
  attempts are independent and any of them can draw this, whatever the dimension. In exact arithmetic it
  returns as soon as an attempt draws entries for which every diagonal entry, with the offset, exceeds the
  absolute sum of the other entries of its column by the threshold of the pivot test.\<close>

theorem generate_returns:
  assumes "n < fuel"
  shows "(diagonal_draw d (draws n) \<longrightarrow>
      (\<exists>p. generate fuel f32_arith (literal binary32 15 1) d draws = Some p \<and> mat_dim p = d \<and>
        invert f32_arith (data p) d = Some (mat_inverse p))) \<and>
    ((\<forall>c < d. (\<Sum>r \<in> {..<d} - {c}. \<bar>exact n r c\<bar>) + 1 / 1000000 \<le> \<bar>exact n c c + 15\<bar>) \<longrightarrow>
      (\<exists>p. generate fuel rat_arith 15 d exact = Some p \<and> mat_dim p = d \<and>
        invert rat_arith (data p) d = Some (mat_inverse p)))"
proof (intro conjI impI)
  assume "diagonal_draw d (draws n)"
  then have "generate fuel f32_arith (literal binary32 15 1) d draws \<noteq> None"
    using invert_diagonal assms unfolding generate_returns_iff by blast
  then show "\<exists>p. generate fuel f32_arith (literal binary32 15 1) d draws = Some p \<and> mat_dim p = d \<and>
      invert f32_arith (data p) d = Some (mat_inverse p)"
    using generate_inverse by fast
next
  assume "\<forall>c < d. (\<Sum>r \<in> {..<d} - {c}. \<bar>exact n r c\<bar>) + 1 / 1000000 \<le> \<bar>exact n c c + 15\<bar>"
  from generate_dominant [where draws = exact, OF this assms] show "\<exists>p. generate fuel rat_arith 15 d exact = Some p \<and> mat_dim p = d \<and>
      invert rat_arith (data p) d = Some (mat_inverse p)"
    using generate_inverse by fast
qed

text \<open>In dimension 1 and 2 the offset 15 makes every draw from -5 to 5 such an attempt, so the first
  one succeeds.\<close>

lemma generate_small_dimension:
  assumes "0 < fuel" and "d \<le> 2" and small: "\<And>r c. \<bar>draws 0 r c\<bar> \<le> 5"
  shows "generate fuel rat_arith 15 d draws \<noteq> None"
proof (rule generate_dominant [where n = 0])
  show "\<forall>c < d. (\<Sum>r \<in> {..<d} - {c}. \<bar>draws 0 r c\<bar>) + 1 / 1000000 \<le> \<bar>draws 0 c c + 15\<bar>"
  proof (intro allI impI)
    fix c assume c: "c < d"
    have "(\<Sum>r \<in> {..<d} - {c}. \<bar>draws 0 r c\<bar>) \<le> of_nat (card ({..<d} - {c})) * 5"
      by (rule sum_bounded_above) (rule small)
    also have "\<dots> \<le> 5" using c assms(2) by simp
    finally show "(\<Sum>r \<in> {..<d} - {c}. \<bar>draws 0 r c\<bar>) + 1 / 1000000 \<le> \<bar>draws 0 c c + 15\<bar>"
      using small [of c c] by linarith
  qed
qed (rule assms(1))

theorem generate_returns_witness:
  "\<exists>p. generate 2 f32_arith (literal binary32 15 1) 3 (\<lambda>n r c. if n = 1 then Finite (r < c) 0 0 else literal binary32 5 1) = Some p \<and>
     mat_dim p = 3"
proof -
  let ?draws = "\<lambda>n r c. if n = (1 :: nat) then Finite (r < (c :: nat)) 0 0 else literal binary32 5 1"
  have "Finite False 0 0 \<in> set drawn_values" "Finite b 0 0 \<in> set zeros" for b
    by (cases b; simp add: drawn_values_def zeros_def float_eval)+
  then have "diagonal_draw 3 (?draws 1)" by (auto simp: diagonal_draw_def)
  then show ?thesis using generate_returns [of 1 2 3 ?draws] by auto
qed

end
