(* ===== verification/Shim_State.thy ===== *)
theory Shim_State
  imports Prelude
begin

text \<open>
  The global state of the CUDA shim, \<open>omni-shim/src/lib.rs\<close>: virtual devices, streams with their
  pending launches and the table of allocations; with it the state that the two API modules keep
  (handle counters, the module registry, the thread-local last error and device) and the part of
  the process they work on (the blocks that the global allocator has handed out, and memory as
  bytes). Every table is a concurrent map whose operations are atomic.
\<close>

section \<open>Types\<close>

datatype hardware_backend =
    NvidiaCuda | AmdRocmBackend | AppleMetalBackend | IntelVulkan | GenericVulkan | CpuFallback
  | RemoteNode string

record virtual_device =
  device_idx :: i32
  device_label :: string
  total_memory :: usize
  compute_capability_major :: i32
  compute_capability_minor :: i32
  backend :: hardware_backend
  warp_size :: i32
  multiprocessor_count :: i32
  max_threads_per_block :: i32
  l2_cache_size :: i32

type_synonym dim3 = "u32 \<times> u32 \<times> u32"

record kernel_launch =
  kernel_id :: u64
  grid_dim :: dim3
  block_dim :: dim3
  shared_mem_bytes :: u32
  launch_args :: "u8 list"

record stream_context =
  handle :: u64
  stream_device :: i32
  synchronized :: bool
  pending_kernels :: "kernel_launch list"

record alloc_entry =
  virtual_ptr :: u64
  alloc_size :: usize
  alloc_device :: i32
  pinned :: bool

datatype cuda_error =
    cudaSuccess | cudaErrorInvalidValue | cudaErrorMemoryAllocation | cudaErrorInitializationError
  | cudaErrorInvalidDevice | cudaErrorInvalidMemcpyDirection | cudaErrorNoDevice
  | cudaErrorNotReady | cudaErrorUnknown

datatype module_source = SourceFile string | SourceData nat | SourceFatbin

record module_entry =
  module_id :: u64
  module_src :: module_source
  module_functions :: "string \<rightharpoonup> u64"
  raw_bytes :: "u8 list"

section \<open>The state\<close>

text \<open>
  \<open>heap\<close> gives the size of each block that the global allocator holds (all with alignment 256);
  \<open>heap_fault\<close> records a deallocation of something that is not such a block with its size, which
  is undefined behaviour. Thread-local variables are functions of a thread number.
\<close>

record shim =
  virtual_devices :: "virtual_device list"
  stream_table :: "u64 \<rightharpoonup> stream_context"
  alloc_table :: "u64 \<rightharpoonup> alloc_entry"
  stream_counter :: u64
  module_registry :: "u64 \<rightharpoonup> module_entry"
  module_counter :: u64
  function_counter :: u64
  last_error :: "nat \<Rightarrow> cuda_error"
  current_device :: "nat \<Rightarrow> i32"
  heap :: "u64 \<rightharpoonup> usize"
  heap_fault :: bool
  bytes_at :: "u64 \<Rightarrow> u8"

definition detect_virtual_devices :: "virtual_device list" where
  "detect_virtual_devices =
     [\<lparr>device_idx = 0, device_label = ''OmniCompute Virtual GPU 0 (Heterogeneous Backend)'',
       total_memory = 24 * 1024 * 1024 * 1024, compute_capability_major = 8,
       compute_capability_minor = 0, backend = CpuFallback, warp_size = 32,
       multiprocessor_count = 108, max_threads_per_block = 1024,
       l2_cache_size = 40 * 1024 * 1024\<rparr>]"

definition shim_init :: "(u64 \<Rightarrow> u8) \<Rightarrow> shim" where
  "shim_init mem =
     \<lparr>virtual_devices = detect_virtual_devices, stream_table = Map.empty, alloc_table = Map.empty,
      stream_counter = 1, module_registry = Map.empty, module_counter = 1000,
      function_counter = 2000, last_error = (\<lambda>t. cudaSuccess), current_device = (\<lambda>t. 0),
      heap = Map.empty, heap_fault = False, bytes_at = mem\<rparr>"

text \<open>\<open>omni_version\<close>, a C string with its terminator.\<close>

definition omni_version :: "u8 list" where
  "omni_version = bytes_of ''OmniCompute/0.1.0'' @ [0]"

section \<open>The process\<close>

text \<open>\<open>Layout::from_size_align(size, 256)\<close> fails when the padded size exceeds \<open>isize::MAX\<close>.\<close>

definition layout_ok :: "usize \<Rightarrow> bool" where
  "layout_ok size_arg \<longleftrightarrow> unat size_arg \<le> 2 ^ 63 - 1 - 255"

text \<open>\<open>dealloc\<close> with the layout of the given size.\<close>

definition dealloc :: "u64 \<Rightarrow> usize \<Rightarrow> shim \<Rightarrow> shim" where
  "dealloc p n st =
     (if heap st p = Some n then st\<lparr>heap := (heap st)(p := None)\<rparr> else st\<lparr>heap_fault := True\<rparr>)"

text \<open>\<open>copy_nonoverlapping\<close> and \<open>write_bytes\<close> on memory.\<close>

definition copy_bytes :: "u64 \<Rightarrow> u64 \<Rightarrow> usize \<Rightarrow> (u64 \<Rightarrow> u8) \<Rightarrow> u64 \<Rightarrow> u8" where
  "copy_bytes dst src count mem =
     (\<lambda>a. if unat (a - dst) < unat count then mem (src + (a - dst)) else mem a)"

definition fill_bytes :: "u64 \<Rightarrow> u8 \<Rightarrow> usize \<Rightarrow> (u64 \<Rightarrow> u8) \<Rightarrow> u64 \<Rightarrow> u8" where
  "fill_bytes dst value count mem = (\<lambda>a. if unat (a - dst) < unat count then value else mem a)"

text \<open>The bytes of a range, and ranges without a common address.\<close>

definition read_bytes :: "u64 \<Rightarrow> nat \<Rightarrow> (u64 \<Rightarrow> u8) \<Rightarrow> u8 list" where
  "read_bytes p n mem = map (\<lambda>i. mem (p + word_of_nat i)) [0..<n]"

definition apart :: "u64 \<Rightarrow> u64 \<Rightarrow> usize \<Rightarrow> bool" where
  "apart p q n \<longleftrightarrow> (\<forall>i < unat n. \<forall>j < unat n. p + word_of_nat i \<noteq> q + word_of_nat j)"

lemma copy_bytes_inside:
  assumes "i < unat n"
  shows "copy_bytes dst src n mem (dst + word_of_nat i) = mem (src + word_of_nat i)"
proof -
  have "i < 2 ^ 64" using order.strict_trans [OF assms u64_bound] by simp
  then have "unat (word_of_nat i :: u64) = i" by (simp add: unat_of_nat)
  then show ?thesis using assms by (simp add: copy_bytes_def)
qed

lemma copy_bytes_outside:
  assumes "\<forall>i < unat n. a \<noteq> dst + word_of_nat i"
  shows "copy_bytes dst src n mem a = mem a"
proof -
  have "a = dst + word_of_nat (unat (a - dst))" by simp
  then have "\<not> unat (a - dst) < unat n" using assms by blast
  then show ?thesis by (simp add: copy_bytes_def)
qed

lemma read_copy_bytes: "read_bytes dst (unat n) (copy_bytes dst src n mem) = read_bytes src (unat n) mem"
  by (simp add: read_bytes_def copy_bytes_inside)

lemma read_copy_apart:
  assumes "apart p dst n"
  shows "read_bytes p (unat n) (copy_bytes dst src n mem) = read_bytes p (unat n) mem"
  using assms by (auto simp: read_bytes_def apart_def intro!: copy_bytes_outside)

end
