(* ===== verification/Cuda_Runtime.thy ===== *)
theory Cuda_Runtime
  imports Shim_State
begin

text \<open>
  The CUDA runtime API of \<open>omni-shim/src/cuda_runtime.rs\<close>. An exported function returns its error
  code; a value that it writes through an out pointer is an optional result, None when nothing is
  written, and the pointer itself is an argument that the code only compares with null. The
  answer of the global allocator is an argument of \<open>cudaMalloc\<close>, the calling thread one of the
  functions with thread-local state.
\<close>

section \<open>Error codes and copy kinds\<close>

fun error_code :: "cuda_error \<Rightarrow> i32" where
  "error_code cudaSuccess = 0"
| "error_code cudaErrorInvalidValue = 1"
| "error_code cudaErrorMemoryAllocation = 2"
| "error_code cudaErrorInitializationError = 3"
| "error_code cudaErrorInvalidDevice = 10"
| "error_code cudaErrorInvalidMemcpyDirection = 21"
| "error_code cudaErrorNoDevice = 100"
| "error_code cudaErrorNotReady = 600"
| "error_code cudaErrorUnknown = 999"

datatype memcpy_kind =
    cudaMemcpyHostToHost | cudaMemcpyHostToDevice | cudaMemcpyDeviceToHost
  | cudaMemcpyDeviceToDevice | cudaMemcpyDefault

section \<open>Devices\<close>

text \<open>The fields of \<open>cudaDeviceProp\<close> that the code fills; all others stay zero.\<close>

record cuda_device_prop =
  prop_name :: "u8 list"
  totalGlobalMem :: usize
  sharedMemPerBlock :: usize
  regsPerBlock :: i32
  warpSize :: i32
  maxThreadsPerBlock :: i32
  maxThreadsDim :: "i32 list"
  maxGridSize :: "i32 list"
  clockRate :: i32
  major :: i32
  minor :: i32
  multiProcessorCount :: i32
  concurrentKernels :: i32
  asyncEngineCount :: i32
  unifiedAddressing :: i32
  memoryClockRate :: i32
  memoryBusWidth :: i32
  l2CacheSize :: i32
  sharedMemPerMultiprocessor :: usize
  managedMemory :: i32
  cooperativeLaunch :: i32
  maxBlocksPerMultiProcessor :: i32

definition cudaGetDeviceCount :: "u64 \<Rightarrow> shim \<Rightarrow> cuda_error \<times> i32 option" where
  "cudaGetDeviceCount count st =
     (if count = 0 then (cudaErrorInvalidValue, None)
      else (cudaSuccess, Some (word_of_nat (length (virtual_devices st)))))"

text \<open>The name in a zeroed array of 256 bytes.\<close>

definition name_array :: "string \<Rightarrow> u8 list" where
  "name_array name =
     (let copy_len = min (length name) 255
      in take copy_len (bytes_of name) @ replicate (256 - copy_len) 0)"

definition fill_properties :: "virtual_device \<Rightarrow> cuda_device_prop" where
  "fill_properties d =
     \<lparr>prop_name = name_array (device_label d),
      totalGlobalMem = total_memory d,
      sharedMemPerBlock = 49152,
      regsPerBlock = 65536,
      warpSize = warp_size d,
      maxThreadsPerBlock = max_threads_per_block d,
      maxThreadsDim = [1024, 1024, 64],
      maxGridSize = [2147483647, 65535, 65535],
      clockRate = 1800000,
      major = compute_capability_major d,
      minor = compute_capability_minor d,
      multiProcessorCount = multiprocessor_count d,
      concurrentKernels = 1,
      asyncEngineCount = 3,
      unifiedAddressing = 1,
      memoryClockRate = 9001000,
      memoryBusWidth = 5120,
      l2CacheSize = l2_cache_size d,
      sharedMemPerMultiprocessor = 102400,
      managedMemory = 1,
      cooperativeLaunch = 1,
      maxBlocksPerMultiProcessor = 32\<rparr>"

text \<open>\<open>device as usize\<close> extends the sign, so a negative index is far out of range.\<close>

definition cudaGetDeviceProperties ::
  "u64 \<Rightarrow> i32 \<Rightarrow> shim \<Rightarrow> cuda_error \<times> cuda_device_prop option" where
  "cudaGetDeviceProperties prop device st =
     (if prop = 0 then (cudaErrorInvalidValue, None)
      else (let i = unat (scast device :: usize) in
            if i < length (virtual_devices st)
            then (cudaSuccess, Some (fill_properties (virtual_devices st ! i)))
            else (cudaErrorInvalidDevice, None)))"

definition cudaSetDevice :: "i32 \<Rightarrow> shim \<Rightarrow> cuda_error \<times> shim" where
  "cudaSetDevice device st =
     (if sint device < 0 \<or> length (virtual_devices st) \<le> unat (scast device :: usize)
      then (cudaErrorInvalidDevice, st) else (cudaSuccess, st))"

definition cudaGetDevice :: "u64 \<Rightarrow> shim \<Rightarrow> cuda_error \<times> i32 option" where
  "cudaGetDevice device st =
     (if device = 0 then (cudaErrorInvalidValue, None) else (cudaSuccess, Some 0))"

section \<open>Memory\<close>

text \<open>
  The atomic steps of allocation and release. \<open>block\<close> is the address that the global allocator
  returns for this request, 0 if it fails.
\<close>

definition heap_alloc :: "usize \<Rightarrow> u64 \<Rightarrow> shim \<Rightarrow> shim" where
  "heap_alloc n block st = st\<lparr>heap := (heap st)(block \<mapsto> n)\<rparr>"

definition track :: "usize \<Rightarrow> u64 \<Rightarrow> shim \<Rightarrow> shim" where
  "track n addr st =
     st\<lparr>alloc_table := (alloc_table st)
          (addr \<mapsto> \<lparr>virtual_ptr = addr, alloc_size = n, alloc_device = 0, pinned = False\<rparr>)\<rparr>"

definition untrack :: "u64 \<Rightarrow> shim \<Rightarrow> alloc_entry option \<times> shim" where
  "untrack addr st = (alloc_table st addr, st\<lparr>alloc_table := (alloc_table st)(addr := None)\<rparr>)"

definition cudaMalloc :: "u64 \<Rightarrow> usize \<Rightarrow> u64 \<Rightarrow> shim \<Rightarrow> cuda_error \<times> u64 option \<times> shim" where
  "cudaMalloc dev_ptr n block st =
     (if dev_ptr = 0 \<or> n = 0 then (cudaErrorInvalidValue, None, st)
      else if \<not> layout_ok n then (cudaErrorMemoryAllocation, None, st)
      else if block = 0 then (cudaErrorMemoryAllocation, None, st)
      else (cudaSuccess, Some block, track n block (heap_alloc n block st)))"

text \<open>The first component is None when \<open>expect\<close> panics on the layout.\<close>

definition cudaFree :: "u64 \<Rightarrow> shim \<Rightarrow> cuda_error option \<times> shim" where
  "cudaFree dev_ptr st =
     (if dev_ptr = 0 then (Some cudaSuccess, st)
      else (case untrack dev_ptr st of
              (Some entry, st) \<Rightarrow>
                if layout_ok (alloc_size entry)
                then (Some cudaSuccess, dealloc dev_ptr (alloc_size entry) st)
                else (None, st)
            | (None, st) \<Rightarrow> (Some cudaErrorInvalidValue, st)))"

definition cudaMemcpy :: "u64 \<Rightarrow> u64 \<Rightarrow> usize \<Rightarrow> memcpy_kind \<Rightarrow> shim \<Rightarrow> cuda_error \<times> shim" where
  "cudaMemcpy dst src count k st =
     (if dst = 0 \<or> src = 0 then (cudaErrorInvalidValue, st)
      else (cudaSuccess, st\<lparr>bytes_at := copy_bytes dst src count (bytes_at st)\<rparr>))"

definition cudaMemcpyAsync ::
  "u64 \<Rightarrow> u64 \<Rightarrow> usize \<Rightarrow> memcpy_kind \<Rightarrow> u64 \<Rightarrow> shim \<Rightarrow> cuda_error \<times> shim" where
  "cudaMemcpyAsync dst src count k stream st = cudaMemcpy dst src count k st"

definition cudaMemset :: "u64 \<Rightarrow> i32 \<Rightarrow> usize \<Rightarrow> shim \<Rightarrow> cuda_error \<times> shim" where
  "cudaMemset dev_ptr val count st =
     (if dev_ptr = 0 then (cudaErrorInvalidValue, st)
      else (cudaSuccess, st\<lparr>bytes_at := fill_bytes dev_ptr (ucast val) count (bytes_at st)\<rparr>))"

section \<open>Streams and launches\<close>

definition cudaStreamCreate :: "u64 \<Rightarrow> shim \<Rightarrow> cuda_error \<times> u64 option \<times> shim" where
  "cudaStreamCreate p_stream st =
     (if p_stream = 0 then (cudaErrorInvalidValue, None, st)
      else (let h = stream_counter st;
                st = st\<lparr>stream_counter := stream_counter st + 1\<rparr>;
                ctx = \<lparr>handle = h, stream_device = 0, synchronized = True, pending_kernels = []\<rparr>;
                st = st\<lparr>stream_table := (stream_table st)(h \<mapsto> ctx)\<rparr>
            in (cudaSuccess, Some h, st)))"

definition cudaStreamDestroy :: "u64 \<Rightarrow> shim \<Rightarrow> cuda_error \<times> shim" where
  "cudaStreamDestroy stream st =
     (cudaSuccess, st\<lparr>stream_table := (stream_table st)(stream := None)\<rparr>)"

definition cudaStreamSynchronize :: "u64 \<Rightarrow> shim \<Rightarrow> cuda_error \<times> shim" where
  "cudaStreamSynchronize stream st =
     (case stream_table st stream of
        Some ctx \<Rightarrow>
          (cudaSuccess, st\<lparr>stream_table := (stream_table st)
             (stream \<mapsto> ctx\<lparr>pending_kernels := [], synchronized := True\<rparr>)\<rparr>)
      | None \<Rightarrow> (cudaSuccess, st))"

text \<open>The end of both launch functions: queue on the stream if there is one.\<close>

definition queue_launch :: "u64 \<Rightarrow> kernel_launch \<Rightarrow> shim \<Rightarrow> shim" where
  "queue_launch stream_handle l st =
     (if stream_handle \<noteq> 0 then
        (case stream_table st stream_handle of
           Some ctx \<Rightarrow>
             st\<lparr>stream_table := (stream_table st)(stream_handle \<mapsto>
                  ctx\<lparr>pending_kernels := pending_kernels ctx @ [l], synchronized := False\<rparr>)\<rparr>
         | None \<Rightarrow> st)
      else st)"

definition cudaLaunchKernel ::
  "u64 \<Rightarrow> dim3 \<Rightarrow> dim3 \<Rightarrow> usize \<Rightarrow> u64 \<Rightarrow> shim \<Rightarrow> cuda_error \<times> shim" where
  "cudaLaunchKernel func grid blk shared_mem stream st =
     (let l = \<lparr>kernel_id = func, grid_dim = grid, block_dim = blk,
               shared_mem_bytes = ucast shared_mem, launch_args = []\<rparr>
      in (cudaSuccess, queue_launch stream l st))"

section \<open>Errors and versions\<close>

definition cudaGetLastError :: "nat \<Rightarrow> shim \<Rightarrow> cuda_error \<times> shim" where
  "cudaGetLastError t st = (last_error st t, st\<lparr>last_error := (last_error st)(t := cudaSuccess)\<rparr>)"

fun cudaGetErrorString :: "cuda_error \<Rightarrow> string" where
  "cudaGetErrorString cudaSuccess = ''cudaSuccess''"
| "cudaGetErrorString cudaErrorInvalidValue = ''invalid argument''"
| "cudaGetErrorString cudaErrorMemoryAllocation = ''device-side assert triggered / out of memory''"
| "cudaGetErrorString cudaErrorInvalidDevice = ''invalid device ordinal''"
| "cudaGetErrorString _ = ''unknown error''"

fun cudaGetErrorName :: "cuda_error \<Rightarrow> string" where
  "cudaGetErrorName cudaSuccess = ''cudaSuccess''"
| "cudaGetErrorName cudaErrorInvalidValue = ''cudaErrorInvalidValue''"
| "cudaGetErrorName cudaErrorMemoryAllocation = ''cudaErrorMemoryAllocation''"
| "cudaGetErrorName _ = ''cudaErrorUnknown''"

definition cudaDeviceSynchronize :: "shim \<Rightarrow> cuda_error \<times> shim" where
  "cudaDeviceSynchronize st = (cudaSuccess, st)"

definition cudaRuntimeGetVersion :: "u64 \<Rightarrow> cuda_error \<times> i32 option" where
  "cudaRuntimeGetVersion version =
     (if version = 0 then (cudaErrorInvalidValue, None) else (cudaSuccess, Some 12040))"

end
