(* ===== verification/Cuda_Driver.thy ===== *)
theory Cuda_Driver
  imports Cuda_Runtime Dialect
begin

text \<open>
  The CUDA driver API of \<open>omni-shim/src/cuda_driver.rs\<close>, in the conventions of the runtime API.
  A C string argument is None for a null pointer and otherwise its bytes up to the terminator; the
  file system is a parameter that gives the contents of a readable path.
\<close>

datatype cu_result =
    CUDA_SUCCESS | CUDA_ERROR_INVALID_VALUE | CUDA_ERROR_OUT_OF_MEMORY | CUDA_ERROR_NOT_INITIALIZED
  | CUDA_ERROR_INVALID_CONTEXT | CUDA_ERROR_INVALID_MODULE | CUDA_ERROR_INVALID_IMAGE
  | CUDA_ERROR_NOT_FOUND | CUDA_ERROR_INVALID_HANDLE | CUDA_ERROR_NO_DEVICE | CUDA_ERROR_UNKNOWN

fun result_code :: "cu_result \<Rightarrow> i32" where
  "result_code CUDA_SUCCESS = 0"
| "result_code CUDA_ERROR_INVALID_VALUE = 1"
| "result_code CUDA_ERROR_OUT_OF_MEMORY = 2"
| "result_code CUDA_ERROR_NOT_INITIALIZED = 3"
| "result_code CUDA_ERROR_INVALID_CONTEXT = 201"
| "result_code CUDA_ERROR_INVALID_MODULE = 301"
| "result_code CUDA_ERROR_INVALID_IMAGE = 200"
| "result_code CUDA_ERROR_NOT_FOUND = 500"
| "result_code CUDA_ERROR_INVALID_HANDLE = 400"
| "result_code CUDA_ERROR_NO_DEVICE = 100"
| "result_code CUDA_ERROR_UNKNOWN = 999"

section \<open>Driver and devices\<close>

definition cuInit :: "u32 \<Rightarrow> cu_result" where
  "cuInit flags = CUDA_SUCCESS"

definition cuDriverGetVersion :: "u64 \<Rightarrow> cu_result \<times> i32 option" where
  "cuDriverGetVersion version =
     (if version = 0 then (CUDA_ERROR_INVALID_VALUE, None) else (CUDA_SUCCESS, Some 12040))"

definition cuDeviceGetCount :: "u64 \<Rightarrow> shim \<Rightarrow> cu_result \<times> i32 option" where
  "cuDeviceGetCount count st =
     (if count = 0 then (CUDA_ERROR_INVALID_VALUE, None)
      else (CUDA_SUCCESS, Some (word_of_nat (length (virtual_devices st)))))"

definition cuDeviceGet :: "u64 \<Rightarrow> i32 \<Rightarrow> shim \<Rightarrow> cu_result \<times> i32 option" where
  "cuDeviceGet device ordinal st =
     (if device = 0 then (CUDA_ERROR_INVALID_VALUE, None)
      else if sint ordinal < 0 \<or> length (virtual_devices st) \<le> unat (scast ordinal :: usize)
      then (CUDA_ERROR_NO_DEVICE, None)
      else (CUDA_SUCCESS, Some ordinal))"

definition attribute_value :: "i32 \<Rightarrow> virtual_device \<Rightarrow> i32" where
  "attribute_value attrib d =
     (if attrib = 1 then max_threads_per_block d
      else if attrib = 4 then warp_size d
      else if attrib = 14 then multiprocessor_count d
      else if attrib = 16 then compute_capability_major d
      else if attrib = 17 then compute_capability_minor d
      else if attrib = 39 then 1
      else if attrib = 75 then 32
      else 0)"

definition cuDeviceGetAttribute :: "u64 \<Rightarrow> i32 \<Rightarrow> i32 \<Rightarrow> shim \<Rightarrow> cu_result \<times> i32 option" where
  "cuDeviceGetAttribute pi attrib dev st =
     (if pi = 0 then (CUDA_ERROR_INVALID_VALUE, None)
      else (case virtual_devices st of
              d # _ \<Rightarrow> (CUDA_SUCCESS, Some (attribute_value attrib d))
            | [] \<Rightarrow> (CUDA_ERROR_NO_DEVICE, None)))"

section \<open>Contexts\<close>

text \<open>\<open>ctx_handle\<close> is the address of the static behind the dummy handle of the function.\<close>

definition cuCtxCreate :: "u64 \<Rightarrow> u64 \<Rightarrow> u32 \<Rightarrow> i32 \<Rightarrow> cu_result \<times> u64 option" where
  "cuCtxCreate ctx_handle pctx flags dev =
     (if pctx = 0 then (CUDA_ERROR_INVALID_VALUE, None) else (CUDA_SUCCESS, Some ctx_handle))"

definition cuCtxGetCurrent :: "u64 \<Rightarrow> u64 \<Rightarrow> cu_result \<times> u64 option" where
  "cuCtxGetCurrent ctx_handle pctx =
     (if pctx = 0 then (CUDA_ERROR_INVALID_VALUE, None) else (CUDA_SUCCESS, Some ctx_handle))"

definition cuCtxSynchronize :: cu_result where
  "cuCtxSynchronize = CUDA_SUCCESS"

section \<open>Modules\<close>

text \<open>\<open>MODULE_COUNTER.fetch_add\<close> and the insertion of a module without functions.\<close>

definition add_module :: "module_source \<Rightarrow> u8 list \<Rightarrow> shim \<Rightarrow> u64 \<times> shim" where
  "add_module src raw st =
     (let id = module_counter st;
          st = st\<lparr>module_counter := id + 1\<rparr>;
          entry = \<lparr>module_id = id, module_src = src, module_functions = Map.empty, raw_bytes = raw\<rparr>
      in (id, st\<lparr>module_registry := (module_registry st)(id \<mapsto> entry)\<rparr>))"

definition cuModuleLoad ::
  "(string \<Rightarrow> u8 list option) \<Rightarrow> u64 \<Rightarrow> u8 list option \<Rightarrow> shim \<Rightarrow> cu_result \<times> u64 option \<times> shim" where
  "cuModuleLoad fs_read module fname st =
     (case fname of
        None \<Rightarrow> (CUDA_ERROR_INVALID_VALUE, None, st)
      | Some name \<Rightarrow>
          if module = 0 then (CUDA_ERROR_INVALID_VALUE, None, st)
          else if \<not> utf8_valid name then (CUDA_ERROR_INVALID_VALUE, None, st)
          else (let path = string_of_bytes name in
                case fs_read path of
                  None \<Rightarrow> (CUDA_ERROR_INVALID_IMAGE, None, st)
                | Some raw \<Rightarrow>
                    (let (id, st) = add_module (SourceFile path) raw st
                     in (CUDA_SUCCESS, Some id, st))))"

definition cuModuleLoadData ::
  "u64 \<Rightarrow> u8 list option \<Rightarrow> shim \<Rightarrow> cu_result \<times> u64 option \<times> shim" where
  "cuModuleLoadData module image_data st =
     (case image_data of
        None \<Rightarrow> (CUDA_ERROR_INVALID_VALUE, None, st)
      | Some ptx \<Rightarrow>
          if module = 0 then (CUDA_ERROR_INVALID_VALUE, None, st)
          else (let raw = takeWhile (\<lambda>b. b \<noteq> 0) ptx;
                    (id, st) = add_module (SourceData (length raw)) raw st
                in (CUDA_SUCCESS, Some id, st)))"

definition cuModuleGetFunction ::
  "u64 \<Rightarrow> u64 \<Rightarrow> u8 list option \<Rightarrow> shim \<Rightarrow> cu_result \<times> u64 option \<times> shim" where
  "cuModuleGetFunction hfunc hmod name st =
     (case name of
        None \<Rightarrow> (CUDA_ERROR_INVALID_VALUE, None, st)
      | Some bs \<Rightarrow>
          if hfunc = 0 then (CUDA_ERROR_INVALID_VALUE, None, st)
          else if \<not> utf8_valid bs then (CUDA_ERROR_INVALID_VALUE, None, st)
          else (let func_name = string_of_bytes bs;
                    func_id = function_counter st;
                    st = st\<lparr>function_counter := func_id + 1\<rparr>;
                    st = (case module_registry st hmod of
                            Some entry \<Rightarrow>
                              st\<lparr>module_registry := (module_registry st)(hmod \<mapsto>
                                 entry\<lparr>module_functions :=
                                         (module_functions entry)(func_name \<mapsto> func_id)\<rparr>)\<rparr>
                          | None \<Rightarrow> st)
                in (CUDA_SUCCESS, Some func_id, st)))"

definition cuModuleUnload :: "u64 \<Rightarrow> shim \<Rightarrow> cu_result \<times> shim" where
  "cuModuleUnload hmod st =
     (CUDA_SUCCESS, st\<lparr>module_registry := (module_registry st)(hmod := None)\<rparr>)"

section \<open>Launches\<close>

definition cuLaunchKernel ::
  "u64 \<Rightarrow> dim3 \<Rightarrow> dim3 \<Rightarrow> u32 \<Rightarrow> u64 \<Rightarrow> shim \<Rightarrow> cu_result \<times> shim" where
  "cuLaunchKernel func grid blk shared_mem h_stream st =
     (let l = \<lparr>kernel_id = func, grid_dim = grid, block_dim = blk,
               shared_mem_bytes = shared_mem, launch_args = []\<rparr>
      in (CUDA_SUCCESS, queue_launch h_stream l st))"

section \<open>Memory\<close>

text \<open>The out pointer passed on is that of a local variable, which is not null.\<close>

definition cuMemAlloc :: "u64 \<Rightarrow> usize \<Rightarrow> u64 \<Rightarrow> shim \<Rightarrow> cu_result \<times> u64 option \<times> shim" where
  "cuMemAlloc dptr bytesize block st =
     (if dptr = 0 \<or> bytesize = 0 then (CUDA_ERROR_INVALID_VALUE, None, st)
      else (case cudaMalloc 1 bytesize block st of
              (err, raw_ptr, st) \<Rightarrow>
                if err \<noteq> cudaSuccess then (CUDA_ERROR_OUT_OF_MEMORY, None, st)
                else (CUDA_SUCCESS, raw_ptr, st)))"

definition cuMemFree :: "u64 \<Rightarrow> shim \<Rightarrow> cu_result option \<times> shim" where
  "cuMemFree dptr st =
     (case cudaFree dptr st of
        (None, st) \<Rightarrow> (None, st)
      | (Some err, st) \<Rightarrow>
          if err \<noteq> cudaSuccess then (Some CUDA_ERROR_INVALID_VALUE, st)
          else (Some CUDA_SUCCESS, st))"

definition cuMemcpyHtoD :: "u64 \<Rightarrow> u64 \<Rightarrow> usize \<Rightarrow> shim \<Rightarrow> cu_result \<times> shim" where
  "cuMemcpyHtoD dst_device src_host byte_count st =
     (if src_host = 0 then (CUDA_ERROR_INVALID_VALUE, st)
      else (CUDA_SUCCESS,
            st\<lparr>bytes_at := copy_bytes dst_device src_host byte_count (bytes_at st)\<rparr>))"

definition cuMemcpyDtoH :: "u64 \<Rightarrow> u64 \<Rightarrow> usize \<Rightarrow> shim \<Rightarrow> cu_result \<times> shim" where
  "cuMemcpyDtoH dst_host src_device byte_count st =
     (if dst_host = 0 then (CUDA_ERROR_INVALID_VALUE, st)
      else (CUDA_SUCCESS,
            st\<lparr>bytes_at := copy_bytes dst_host src_device byte_count (bytes_at st)\<rparr>))"

end
