(* ===== verification/Interceptor.thy ===== *)
theory Interceptor
  imports Shim_State
begin

text \<open>
  \<open>omni-shim/src/interceptor.rs\<close>: the thread-local device, the table of hooked symbols and the
  call statistics. A handler is the address of the exported function, a parameter that the linker
  determines.
\<close>

section \<open>The device of a thread\<close>

definition get_current_device :: "nat \<Rightarrow> shim \<Rightarrow> i32" where
  "get_current_device t st = current_device st t"

definition set_current_device :: "nat \<Rightarrow> i32 \<Rightarrow> shim \<Rightarrow> shim" where
  "set_current_device t i st = st\<lparr>current_device := (current_device st)(t := i)\<rparr>"

section \<open>The dispatch table\<close>

record hook_entry =
  hook_symbol :: string
  handler :: u64
  validated :: bool

definition runtime_hooks :: "string list" where
  "runtime_hooks =
     [''cudaGetDeviceCount'', ''cudaGetDeviceProperties'', ''cudaSetDevice'', ''cudaGetDevice'',
      ''cudaMalloc'', ''cudaFree'', ''cudaMemcpy'', ''cudaMemcpyAsync'', ''cudaMemset'',
      ''cudaStreamCreate'', ''cudaStreamDestroy'', ''cudaStreamSynchronize'', ''cudaLaunchKernel'',
      ''cudaGetLastError'', ''cudaGetErrorString'', ''cudaGetErrorName'',
      ''cudaDeviceSynchronize'', ''cudaRuntimeGetVersion'']"

definition driver_hooks :: "string list" where
  "driver_hooks =
     [''cuInit'', ''cuDriverGetVersion'', ''cuDeviceGetCount'', ''cuDeviceGet'',
      ''cuDeviceGetAttribute'', ''cuCtxCreate'', ''cuCtxGetCurrent'', ''cuCtxSynchronize'',
      ''cuModuleLoad'', ''cuModuleLoadData'', ''cuModuleGetFunction'', ''cuModuleUnload'',
      ''cuLaunchKernel'', ''cuMemAlloc'', ''cuMemFree'', ''cuMemcpyHtoD'', ''cuMemcpyDtoH'']"

definition register_hook ::
  "(string \<Rightarrow> u64) \<Rightarrow> string \<Rightarrow> (string \<rightharpoonup> hook_entry) \<Rightarrow> (string \<rightharpoonup> hook_entry)" where
  "register_hook addr_of name table =
     table(name \<mapsto> \<lparr>hook_symbol = name, handler = addr_of name, validated = False\<rparr>)"

definition dispatch_table :: "(string \<Rightarrow> u64) \<Rightarrow> string \<rightharpoonup> hook_entry" where
  "dispatch_table addr_of = fold (register_hook addr_of) (runtime_hooks @ driver_hooks) Map.empty"

lemma fold_register_hook:
  "fold (register_hook addr_of) syms table s =
     (if s \<in> set syms
      then Some \<lparr>hook_symbol = s, handler = addr_of s, validated = False\<rparr> else table s)"
  by (induction syms arbitrary: table) (auto simp: register_hook_def)

text \<open>The table has one entry for each hooked symbol, with its own handler, and no other.\<close>

lemma dispatch_table_entries:
  "dispatch_table addr_of s =
     (if s \<in> set (runtime_hooks @ driver_hooks)
      then Some \<lparr>hook_symbol = s, handler = addr_of s, validated = False\<rparr> else None)"
  unfolding dispatch_table_def fold_register_hook by simp

lemma distinct_hooks: "distinct (runtime_hooks @ driver_hooks)"
  by code_simp

lemma dispatch_table_size: "card (dom (dispatch_table addr_of)) = 35"
proof -
  have "dom (dispatch_table addr_of) = set (runtime_hooks @ driver_hooks)"
    by (auto simp: dispatch_table_entries split: if_splits)
  then show ?thesis
    using distinct_card [OF distinct_hooks] by (simp add: runtime_hooks_def driver_hooks_def)
qed

section \<open>Statistics\<close>

record intercept_stats =
  total_calls :: u64
  malloc_calls :: u64
  launch_calls :: u64
  memcpy_calls :: u64
  bytes_allocated :: u64
  bytes_transferred :: u64

datatype call_type = Malloc | Launch | Memcpy | Other

definition stats_new :: intercept_stats where
  "stats_new = \<lparr>total_calls = 0, malloc_calls = 0, launch_calls = 0, memcpy_calls = 0,
                bytes_allocated = 0, bytes_transferred = 0\<rparr>"

fun record_call :: "call_type \<Rightarrow> u64 \<Rightarrow> intercept_stats \<Rightarrow> intercept_stats" where
  "record_call Malloc bytes s =
     s\<lparr>total_calls := total_calls s + 1, malloc_calls := malloc_calls s + 1,
       bytes_allocated := bytes_allocated s + bytes\<rparr>"
| "record_call Launch bytes s =
     s\<lparr>total_calls := total_calls s + 1, launch_calls := launch_calls s + 1\<rparr>"
| "record_call Memcpy bytes s =
     s\<lparr>total_calls := total_calls s + 1, memcpy_calls := memcpy_calls s + 1,
       bytes_transferred := bytes_transferred s + bytes\<rparr>"
| "record_call Other bytes s = s\<lparr>total_calls := total_calls s + 1\<rparr>"

text \<open>After any sequence of calls the counters are the counts of the sequence, modulo \<open>2^64\<close>.\<close>

lemma record_calls_counts:
  "fold (\<lambda>(c, b). record_call c b) calls s =
     s\<lparr>total_calls := total_calls s + word_of_nat (length calls),
       malloc_calls := malloc_calls s + word_of_nat (length (filter (\<lambda>(c, b). c = Malloc) calls)),
       launch_calls := launch_calls s + word_of_nat (length (filter (\<lambda>(c, b). c = Launch) calls)),
       memcpy_calls := memcpy_calls s + word_of_nat (length (filter (\<lambda>(c, b). c = Memcpy) calls)),
       bytes_allocated := bytes_allocated s + sum_list (map snd (filter (\<lambda>(c, b). c = Malloc) calls)),
       bytes_transferred := bytes_transferred s + sum_list (map snd (filter (\<lambda>(c, b). c = Memcpy) calls))\<rparr>"
proof (induction calls arbitrary: s)
  case (Cons x calls)
  obtain c b where "x = (c, b)" by (cases x)
  then show ?case by (cases c) (simp_all add: Cons.IH ac_simps)
qed simp

end
