(* ===== verification/Shim_Calls.thy ===== *)
theory Shim_Calls
  imports Cuda_Driver Interceptor
begin

text \<open>
  The shim as a library that an application calls: the calls that change its state, the states
  that sequences of calls reach, and what holds in all of them. The operating system is assumed
  to hand out blocks as \<open>GlobalAlloc\<close> documents: a block is null or an address that is not
  currently allocated.
\<close>

section \<open>Calls and reachable states\<close>

datatype shim_call =
    CudaMalloc u64 usize u64
  | CudaFree u64
  | CudaMemcpy u64 u64 usize memcpy_kind
  | CudaMemset u64 i32 usize
  | CudaStreamCreate u64
  | CudaStreamDestroy u64
  | CudaStreamSynchronize u64
  | CudaLaunchKernel u64 dim3 dim3 usize u64
  | CudaGetLastError nat
  | CuModuleLoad u64 "u8 list option"
  | CuModuleLoadData u64 "u8 list option"
  | CuModuleGetFunction u64 u64 "u8 list option"
  | CuModuleUnload u64
  | CuLaunchKernel u64 dim3 dim3 u32 u64
  | CuMemAlloc u64 usize u64
  | CuMemFree u64
  | CuMemcpyHtoD u64 u64 usize
  | CuMemcpyDtoH u64 u64 usize
  | SetCurrentDevice nat i32

fun perform :: "(string \<Rightarrow> u8 list option) \<Rightarrow> shim_call \<Rightarrow> shim \<Rightarrow> shim" where
  "perform fs (CudaMalloc p n b) st = snd (snd (cudaMalloc p n b st))"
| "perform fs (CudaFree p) st = snd (cudaFree p st)"
| "perform fs (CudaMemcpy d s n k) st = snd (cudaMemcpy d s n k st)"
| "perform fs (CudaMemset d v n) st = snd (cudaMemset d v n st)"
| "perform fs (CudaStreamCreate p) st = snd (snd (cudaStreamCreate p st))"
| "perform fs (CudaStreamDestroy h) st = snd (cudaStreamDestroy h st)"
| "perform fs (CudaStreamSynchronize h) st = snd (cudaStreamSynchronize h st)"
| "perform fs (CudaLaunchKernel f g b m h) st = snd (cudaLaunchKernel f g b m h st)"
| "perform fs (CudaGetLastError t) st = snd (cudaGetLastError t st)"
| "perform fs (CuModuleLoad p n) st = snd (snd (cuModuleLoad fs p n st))"
| "perform fs (CuModuleLoadData p i) st = snd (snd (cuModuleLoadData p i st))"
| "perform fs (CuModuleGetFunction p m n) st = snd (snd (cuModuleGetFunction p m n st))"
| "perform fs (CuModuleUnload m) st = snd (cuModuleUnload m st)"
| "perform fs (CuLaunchKernel f g b m h) st = snd (cuLaunchKernel f g b m h st)"
| "perform fs (CuMemAlloc p n b) st = snd (snd (cuMemAlloc p n b st))"
| "perform fs (CuMemFree p) st = snd (cuMemFree p st)"
| "perform fs (CuMemcpyHtoD d s n) st = snd (cuMemcpyHtoD d s n st)"
| "perform fs (CuMemcpyDtoH d s n) st = snd (cuMemcpyDtoH d s n st)"
| "perform fs (SetCurrentDevice t i) st = set_current_device t i st"

text \<open>What the system allocator may answer.\<close>

fun granted :: "shim_call \<Rightarrow> shim \<Rightarrow> bool" where
  "granted (CudaMalloc p n b) st \<longleftrightarrow> b = 0 \<or> heap st b = None"
| "granted (CuMemAlloc p n b) st \<longleftrightarrow> b = 0 \<or> heap st b = None"
| "granted _ st \<longleftrightarrow> True"

inductive shim_reach :: "(string \<Rightarrow> u8 list option) \<Rightarrow> (u64 \<Rightarrow> u8) \<Rightarrow> nat \<Rightarrow> shim \<Rightarrow> bool"
  for fs :: "string \<Rightarrow> u8 list option" and mem :: "u64 \<Rightarrow> u8" where
  shim_start: "shim_reach fs mem 0 (shim_init mem)"
| shim_call: "shim_reach fs mem n st \<Longrightarrow> granted c st \<Longrightarrow> shim_reach fs mem (Suc n) (perform fs c st)"

section \<open>Invariant\<close>

text \<open>
  The allocation table describes exactly the blocks that the process holds, with their sizes; no
  block was ever released wrongly; tables agree with the handles stored in them; and a stream is
  synchronized exactly if nothing is pending on it.
\<close>

definition entry_ok :: "u64 \<Rightarrow> alloc_entry \<Rightarrow> bool" where
  "entry_ok p e \<longleftrightarrow> virtual_ptr e = p \<and> p \<noteq> 0 \<and> alloc_size e \<noteq> 0 \<and> layout_ok (alloc_size e)"

definition stream_ok :: "u64 \<Rightarrow> stream_context \<Rightarrow> bool" where
  "stream_ok h c \<longleftrightarrow> handle c = h \<and> (synchronized c \<longleftrightarrow> pending_kernels c = [])"

definition shim_inv :: "shim \<Rightarrow> bool" where
  "shim_inv st \<longleftrightarrow>
     heap st = map_option alloc_size \<circ> alloc_table st \<and>
     \<not> heap_fault st \<and>
     (\<forall>p e. alloc_table st p = Some e \<longrightarrow> entry_ok p e) \<and>
     (\<forall>h c. stream_table st h = Some c \<longrightarrow> stream_ok h c) \<and>
     (\<forall>m e. module_registry st m = Some e \<longrightarrow> module_id e = m)"

text \<open>Counters as natural numbers, while they have not wrapped around: handles are fresh.\<close>

definition counters_ok :: "nat \<Rightarrow> shim \<Rightarrow> bool" where
  "counters_ok n st \<longleftrightarrow>
     1 \<le> unat (stream_counter st) \<and> unat (stream_counter st) \<le> 1 + n \<and>
     unat (module_counter st) \<le> 1000 + n \<and>
     (\<forall>h. stream_table st h \<noteq> None \<longrightarrow> unat h < unat (stream_counter st)) \<and>
     (\<forall>m. module_registry st m \<noteq> None \<longrightarrow> unat m < unat (module_counter st))"

lemma shim_inv_init: "shim_inv (shim_init mem)"
  by (simp add: shim_inv_def shim_init_def fun_eq_iff)

lemma shim_inv_cong:
  "alloc_table st' = alloc_table st \<Longrightarrow> heap st' = heap st \<Longrightarrow> heap_fault st' = heap_fault st \<Longrightarrow>
   stream_table st' = stream_table st \<Longrightarrow> module_registry st' = module_registry st \<Longrightarrow>
   shim_inv st' = shim_inv st"
  by (simp add: shim_inv_def)

lemma shim_inv_malloc:
  assumes "shim_inv st" and "block = 0 \<or> heap st block = None"
  shows "shim_inv (snd (snd (cudaMalloc p n block st)))"
  using assms
  by (auto simp: shim_inv_def entry_ok_def cudaMalloc_def heap_alloc_def track_def fun_eq_iff)

lemma free_known:
  assumes inv: "shim_inv st" and e: "alloc_table st p = Some e"
  shows "cudaFree p st =
     (Some cudaSuccess,
      st\<lparr>alloc_table := (alloc_table st)(p := None), heap := (heap st)(p := None)\<rparr>)"
proof -
  from inv e have "entry_ok p e" and "heap st p = Some (alloc_size e)"
    by (auto simp: shim_inv_def)
  with e show ?thesis by (simp add: cudaFree_def untrack_def dealloc_def entry_ok_def)
qed

lemma free_unknown:
  assumes "alloc_table st p = None" and "p \<noteq> 0"
  shows "cudaFree p st = (Some cudaErrorInvalidValue, st)"
  using assms by (simp add: cudaFree_def untrack_def fun_upd_idem)

lemma free_null: "cudaFree 0 st = (Some cudaSuccess, st)"
  by (simp add: cudaFree_def)

lemma shim_inv_free:
  assumes inv: "shim_inv st"
  shows "shim_inv (snd (cudaFree p st))"
proof (cases "p = 0 \<or> alloc_table st p = None")
  case True
  then show ?thesis using inv by (cases "p = 0") (simp_all add: free_null free_unknown)
next
  case False
  then obtain e where "alloc_table st p = Some e" by auto
  then show ?thesis using inv
    by (auto simp: free_known shim_inv_def fun_eq_iff)
qed

lemma free_never_panics:
  assumes inv: "shim_inv st"
  shows "fst (cudaFree p st) \<noteq> None"
proof (cases "p = 0 \<or> alloc_table st p = None")
  case True
  then show ?thesis by (cases "p = 0") (simp_all add: free_null free_unknown)
next
  case False
  then obtain e where "alloc_table st p = Some e" by auto
  then show ?thesis using inv by (simp add: free_known)
qed

lemma shim_inv_streams:
  assumes "shim_inv st" and "\<And>h c. t h = Some c \<Longrightarrow> stream_ok h c"
  shows "shim_inv (st\<lparr>stream_table := t\<rparr>)"
  using assms by (simp add: shim_inv_def)

lemma shim_inv_stream: "shim_inv st \<Longrightarrow> stream_table st h = Some c \<Longrightarrow> stream_ok h c"
  by (simp add: shim_inv_def)

lemma shim_inv_queue_launch:
  assumes "shim_inv st"
  shows "shim_inv (queue_launch h l st)"
  using assms shim_inv_stream [OF assms]
  by (auto simp: queue_launch_def stream_ok_def intro!: shim_inv_streams
        split: option.split if_splits)

lemma shim_inv_stream_calls:
  assumes "shim_inv st"
  shows "shim_inv (snd (snd (cudaStreamCreate p st)))"
    and "shim_inv (snd (cudaStreamDestroy h st))"
    and "shim_inv (snd (cudaStreamSynchronize h st))"
  using assms shim_inv_stream [OF assms]
  by (auto simp: cudaStreamCreate_def cudaStreamDestroy_def cudaStreamSynchronize_def stream_ok_def
        Let_def shim_inv_def split: option.split if_splits)

lemma shim_inv_add_module: "shim_inv st \<Longrightarrow> shim_inv (snd (add_module src raw st))"
  by (simp add: add_module_def shim_inv_def Let_def)

lemma shim_inv_module_calls:
  assumes "shim_inv st"
  shows "shim_inv (snd (snd (cuModuleLoad fs m n st)))"
    and "shim_inv (snd (snd (cuModuleLoadData m i st)))"
    and "shim_inv (snd (snd (cuModuleGetFunction f m n st)))"
    and "shim_inv (snd (cuModuleUnload m st))"
proof -
  show "shim_inv (snd (snd (cuModuleLoad fs m n st)))"
    using assms shim_inv_add_module [OF assms]
    by (auto simp: cuModuleLoad_def Let_def split: option.split prod.split)
       (metis snd_conv)
  show "shim_inv (snd (snd (cuModuleLoadData m i st)))"
    using assms shim_inv_add_module [OF assms]
    by (auto simp: cuModuleLoadData_def Let_def split: option.split prod.split)
       (metis snd_conv)
  show "shim_inv (snd (snd (cuModuleGetFunction f m n st)))"
    using assms by (auto simp: cuModuleGetFunction_def Let_def shim_inv_def split: option.split)
  show "shim_inv (snd (cuModuleUnload m st))"
    using assms by (auto simp: cuModuleUnload_def shim_inv_def)
qed

lemma snd_cuMemFree: "snd (cuMemFree p st) = snd (cudaFree p st)"
  by (auto simp: cuMemFree_def split: prod.split option.split)

lemma snd_cuMemAlloc:
  "snd (snd (cuMemAlloc p n b st)) = (if p = 0 \<or> n = 0 then st else snd (snd (cudaMalloc 1 n b st)))"
  by (auto simp: cuMemAlloc_def split: prod.split)

lemma shim_inv_perform:
  assumes "shim_inv st" and "granted c st"
  shows "shim_inv (perform fs c st)"
  using assms
  by (cases c)
     (auto simp: shim_inv_malloc shim_inv_free shim_inv_stream_calls shim_inv_module_calls
        snd_cuMemFree snd_cuMemAlloc shim_inv_queue_launch cudaLaunchKernel_def cuLaunchKernel_def
        cudaMemcpy_def cudaMemset_def cudaGetLastError_def cuMemcpyHtoD_def cuMemcpyDtoH_def
        set_current_device_def Let_def simp del: One_nat_def
        intro: shim_inv_cong [THEN iffD2])

lemma shim_inv_reach: "shim_reach fs mem n st \<Longrightarrow> shim_inv st"
  by (induction rule: shim_reach.induct) (auto intro: shim_inv_init shim_inv_perform)

text \<open>C13: In every state that calls of the API reach, the allocation table lists exactly the
  blocks that the process holds, with the sizes they were allocated with, and no block was ever
  released twice or with a wrong size. Hence \<open>cudaFree\<close> never panics, succeeds exactly on null
  and on live blocks, releases exactly that block, and otherwise changes nothing.\<close>
theorem shim_memory_safety:
  assumes "shim_reach fs mem n st"
  shows "heap st = map_option alloc_size \<circ> alloc_table st \<and> \<not> heap_fault st \<and>
    cudaFree p st =
      (if p = 0 then (Some cudaSuccess, st)
       else if heap st p = None then (Some cudaErrorInvalidValue, st)
       else (Some cudaSuccess,
             st\<lparr>alloc_table := (alloc_table st)(p := None), heap := (heap st)(p := None)\<rparr>))"
proof -
  have inv: "shim_inv st" using assms by (rule shim_inv_reach)
  then have "heap st = map_option alloc_size \<circ> alloc_table st" and "\<not> heap_fault st"
    by (simp_all add: shim_inv_def)
  moreover from this have "heap st p = None \<longleftrightarrow> alloc_table st p = None" by simp
  ultimately show ?thesis
    using free_known [OF inv] by (auto simp: free_null free_unknown)
qed

text \<open>A first call, for the witnesses: a block of 4096 bytes at address 256.\<close>

definition example_shim :: shim where
  "example_shim = perform (\<lambda>f. None) (CudaMalloc 8 4096 256) (shim_init (\<lambda>a. 0))"

lemma example_reach: "shim_reach (\<lambda>f. None) (\<lambda>a. 0) 1 example_shim"
  using shim_call [OF shim_start, of "CudaMalloc 8 4096 256" "\<lambda>a. 0" "\<lambda>f. None"]
  by (simp add: example_shim_def shim_init_def)

lemma example_heap: "heap example_shim = [256 \<mapsto> 4096]"
  by (simp add: example_shim_def shim_init_def cudaMalloc_def layout_ok_def track_def heap_alloc_def)

lemma shim_memory_safety_witness:
  "fst (cudaFree 256 example_shim) = Some cudaSuccess \<and>
   fst (cudaFree 257 example_shim) = Some cudaErrorInvalidValue"
  using shim_memory_safety [OF example_reach, of 256, THEN conjunct2, THEN conjunct2]
    shim_memory_safety [OF example_reach, of 257, THEN conjunct2, THEN conjunct2]
  by (simp add: example_heap)

section \<open>Fresh handles\<close>

lemma unat_succ_small: "unat (w::u64) < 2 ^ 64 - 1 \<Longrightarrow> unat (w + 1) = unat w + 1"
  by (simp add: unat_add_small)

lemma counters_init: "counters_ok 0 (shim_init mem)"
  by (simp add: counters_ok_def shim_init_def)

lemma counters_cong:
  "stream_counter st' = stream_counter st \<Longrightarrow> module_counter st' = module_counter st \<Longrightarrow>
   dom (stream_table st') \<subseteq> dom (stream_table st) \<Longrightarrow>
   dom (module_registry st') \<subseteq> dom (module_registry st) \<Longrightarrow>
   counters_ok n st \<Longrightarrow> counters_ok (Suc n) st'"
  unfolding counters_ok_def by (auto simp: dom_def subset_iff)

lemma counters_stream_create:
  assumes "counters_ok n st" and "n < 2 ^ 63"
  shows "counters_ok (Suc n) (snd (snd (cudaStreamCreate p st)))"
proof -
  have "unat (stream_counter st + 1) = unat (stream_counter st) + 1"
    using assms by (intro unat_succ_small) (simp add: counters_ok_def)
  then show ?thesis
    using assms by (auto simp: cudaStreamCreate_def counters_ok_def Let_def less_Suc_eq)
qed

lemma counters_add_module:
  assumes "counters_ok n st" and "n < 2 ^ 63"
  shows "counters_ok (Suc n) (snd (add_module src raw st))"
proof -
  have "unat (module_counter st + 1) = unat (module_counter st) + 1"
    using assms by (intro unat_succ_small) (simp add: counters_ok_def)
  then show ?thesis
    using assms by (auto simp: add_module_def counters_ok_def Let_def less_Suc_eq)
qed

lemma counters_Suc: "counters_ok n st \<Longrightarrow> counters_ok (Suc n) st"
  by (auto simp: counters_ok_def)

lemma cuModuleLoad_state:
  "snd (snd (cuModuleLoad fs m n st)) = st \<or>
   (\<exists>src raw. snd (snd (cuModuleLoad fs m n st)) = snd (add_module src raw st))"
  by (auto simp: cuModuleLoad_def Let_def split: option.split prod.split) (metis snd_conv)+

lemma cuModuleLoadData_state:
  "snd (snd (cuModuleLoadData m i st)) = st \<or>
   (\<exists>src raw. snd (snd (cuModuleLoadData m i st)) = snd (add_module src raw st))"
  by (auto simp: cuModuleLoadData_def Let_def split: option.split prod.split) (metis snd_conv)+

text \<open>The fields that the calls on memory, on modules and on streams leave alone.\<close>

lemma malloc_frame [frame_simps]:
  "stream_table (snd (snd (cudaMalloc p n b st))) = stream_table st"
  "stream_counter (snd (snd (cudaMalloc p n b st))) = stream_counter st"
  "module_registry (snd (snd (cudaMalloc p n b st))) = module_registry st"
  "module_counter (snd (snd (cudaMalloc p n b st))) = module_counter st"
  by (simp_all add: cudaMalloc_def track_def heap_alloc_def)

lemma free_frame [frame_simps]:
  "stream_table (snd (cudaFree p st)) = stream_table st"
  "stream_counter (snd (cudaFree p st)) = stream_counter st"
  "module_registry (snd (cudaFree p st)) = module_registry st"
  "module_counter (snd (cudaFree p st)) = module_counter st"
  by (simp_all add: cudaFree_def untrack_def dealloc_def split: option.split)

lemma get_function_frame [frame_simps]:
  "stream_table (snd (snd (cuModuleGetFunction f m n st))) = stream_table st"
  "stream_counter (snd (snd (cuModuleGetFunction f m n st))) = stream_counter st"
  "module_counter (snd (snd (cuModuleGetFunction f m n st))) = module_counter st"
  "dom (module_registry (snd (snd (cuModuleGetFunction f m n st)))) = dom (module_registry st)"
  by (auto simp: cuModuleGetFunction_def Let_def split: option.split)

lemma queue_launch_frame [frame_simps]:
  "stream_counter (queue_launch h l st) = stream_counter st"
  "module_registry (queue_launch h l st) = module_registry st"
  "module_counter (queue_launch h l st) = module_counter st"
  "dom (stream_table (queue_launch h l st)) = dom (stream_table st)"
  by (auto simp: queue_launch_def split: option.split)

lemma stream_sync_frame [frame_simps]:
  "stream_counter (snd (cudaStreamSynchronize h st)) = stream_counter st"
  "module_registry (snd (cudaStreamSynchronize h st)) = module_registry st"
  "module_counter (snd (cudaStreamSynchronize h st)) = module_counter st"
  "dom (stream_table (snd (cudaStreamSynchronize h st))) = dom (stream_table st)"
  by (auto simp: cudaStreamSynchronize_def split: option.split)

lemma add_module_frame [frame_simps]:
  "stream_table (snd (add_module src raw st)) = stream_table st"
  "stream_counter (snd (add_module src raw st)) = stream_counter st"
  by (simp_all add: add_module_def Let_def)

lemma counters_modules:
  assumes "counters_ok n st" and "n < 2 ^ 63"
  shows "counters_ok (Suc n) (snd (snd (cuModuleLoad fs m name st)))"
    and "counters_ok (Suc n) (snd (snd (cuModuleLoadData m img st)))"
  using cuModuleLoad_state [of fs m name st] cuModuleLoadData_state [of m img st]
    counters_add_module [OF assms] counters_Suc [OF assms(1)]
  by metis+

lemma counters_perform:
  assumes c: "counters_ok n st" and n: "n < 2 ^ 63"
  shows "counters_ok (Suc n) (perform fs call st)"
proof (cases "(\<exists>p. call = CudaStreamCreate p) \<or> (\<exists>m nm. call = CuModuleLoad m nm)
               \<or> (\<exists>m i. call = CuModuleLoadData m i)")
  case True
  then show ?thesis using counters_stream_create [OF c n] counters_modules [OF c n] by auto
next
  case False
  then show ?thesis
    by (cases call; intro counters_cong [OF _ _ _ _ c];
        simp add: frame_simps snd_cuMemFree snd_cuMemAlloc cudaMemcpy_def cudaMemset_def
          cudaStreamDestroy_def cuModuleUnload_def cudaLaunchKernel_def cuLaunchKernel_def
          cudaGetLastError_def cuMemcpyHtoD_def cuMemcpyDtoH_def set_current_device_def Let_def)
qed

lemma counters_reach: "shim_reach fs mem n st \<Longrightarrow> n \<le> 2 ^ 63 \<Longrightarrow> counters_ok n st"
  by (induction rule: shim_reach.induct) (auto intro: counters_init counters_perform)

lemma counters_fresh:
  assumes "counters_ok n st"
  shows "stream_counter st \<noteq> 0" and "stream_table st (stream_counter st) = None"
    and "module_registry st (module_counter st) = None"
proof -
  show "stream_counter st \<noteq> 0" using assms by (auto simp: counters_ok_def)
  show "stream_table st (stream_counter st) = None"
    using assms unfolding counters_ok_def by (metis less_irrefl)
  show "module_registry st (module_counter st) = None"
    using assms unfolding counters_ok_def by (metis less_irrefl)
qed

text \<open>For the first \<open>2^63\<close> calls of the process every handle is new: a created stream gets a
  nonzero handle and a loaded module an id that is not in use, the tables gain exactly this entry,
  and the module keeps the image up to its terminator.\<close>
theorem handles_fresh:
  assumes reach: "shim_reach fs mem n st" and n: "n \<le> 2 ^ 63" and out: "p \<noteq> 0"
  shows "\<exists>h id.
    cudaStreamCreate p st =
      (cudaSuccess, Some h,
       st\<lparr>stream_counter := h + 1, stream_table := (stream_table st)(h \<mapsto>
            \<lparr>handle = h, stream_device = 0, synchronized = True, pending_kernels = []\<rparr>)\<rparr>) \<and>
    h \<noteq> 0 \<and> stream_table st h = None \<and>
    cuModuleLoadData p (Some img) st =
      (CUDA_SUCCESS, Some id,
       st\<lparr>module_counter := id + 1, module_registry := (module_registry st)(id \<mapsto>
            \<lparr>module_id = id, module_src = SourceData (length (takeWhile (\<lambda>b. b \<noteq> 0) img)),
             module_functions = Map.empty, raw_bytes = takeWhile (\<lambda>b. b \<noteq> 0) img\<rparr>)\<rparr>) \<and>
    module_registry st id = None"
  using out counters_fresh [OF counters_reach [OF reach n]]
  by (simp add: cudaStreamCreate_def cuModuleLoadData_def add_module_def Let_def)

lemma handles_fresh_witness:
  "fst (snd (cudaStreamCreate 8 example_shim)) \<noteq> None \<and>
   fst (snd (cuModuleLoadData 8 (Some [46, 0, 7]) example_shim)) \<noteq> None"
  using handles_fresh [OF example_reach, of 8 "[46, 0, 7]"] by auto

section \<open>Copies\<close>

text \<open>Ranges one after the other have no address in common.\<close>

lemma apart_after:
  assumes "unat p + unat n \<le> unat q" and "unat q + unat n < 2 ^ 64"
  shows "apart p q n"
proof -
  have "p + word_of_nat i \<noteq> q + word_of_nat j" if i: "i < unat n" and j: "j < unat n" for i j
  proof -
    have "unat (p + word_of_nat i) = unat p + i"
      using assms i by (subst unat_add_small) (simp_all add: unat_of_nat)
    moreover have "unat (q + word_of_nat j) = unat q + j"
      using assms j by (subst unat_add_small) (simp_all add: unat_of_nat)
    ultimately show ?thesis using assms i by auto
  qed
  then show ?thesis by (simp add: apart_def)
qed

lemma apart_sym: "apart p q n \<longleftrightarrow> apart q p n"
  unfolding apart_def by metis

text \<open>C37: Data that is copied into a fresh allocation and back, with either API and with any copy
  kind, arrives unchanged: the target holds the bytes of the source, and where the target lies
  apart from them the source and the device copy still hold them too.\<close>
theorem memcpy_roundtrip:
  assumes alloc: "cudaMalloc d n block st = (cudaSuccess, Some p, st1)"
    and up: "cudaMemcpy p src n k1 st1 = (cudaSuccess, st2)"
    and down: "cudaMemcpy dst p n k2 st2 = (cudaSuccess, st3)"
    and apart: "apart src p n" "apart src dst n" "apart p dst n"
  shows "read_bytes dst (unat n) (bytes_at st3) = read_bytes src (unat n) (bytes_at st) \<and>
         read_bytes p (unat n) (bytes_at st3) = read_bytes src (unat n) (bytes_at st) \<and>
         read_bytes src (unat n) (bytes_at st3) = read_bytes src (unat n) (bytes_at st) \<and>
         p \<noteq> 0 \<and> alloc_table st3 p = alloc_table st1 p \<and> alloc_table st1 p \<noteq> None \<and>
         cuMemcpyHtoD p src n st1 = (CUDA_SUCCESS, st2) \<and>
         cuMemcpyDtoH dst p n st2 = (CUDA_SUCCESS, st3)"
proof -
  from alloc have p: "p \<noteq> 0" "alloc_table st1 p \<noteq> None" "bytes_at st1 = bytes_at st"
    by (auto simp: cudaMalloc_def track_def heap_alloc_def split: if_splits)
  from up have st2: "st2 = st1\<lparr>bytes_at := copy_bytes p src n (bytes_at st1)\<rparr>" and "src \<noteq> 0"
    by (auto simp: cudaMemcpy_def split: if_splits)
  moreover from down have "st3 = st2\<lparr>bytes_at := copy_bytes dst p n (bytes_at st2)\<rparr>" and "dst \<noteq> 0"
    by (auto simp: cudaMemcpy_def split: if_splits)
  ultimately show ?thesis
    using p apart
    by (simp add: read_copy_bytes read_copy_apart cuMemcpyHtoD_def cuMemcpyDtoH_def)
qed

lemma memcpy_roundtrip_witness:
  "\<exists>st1 st2 st3. cudaMalloc 8 16 256 (shim_init (\<lambda>a. ucast a)) = (cudaSuccess, Some 256, st1) \<and>
     cudaMemcpy 256 64 16 cudaMemcpyHostToDevice st1 = (cudaSuccess, st2) \<and>
     cudaMemcpy 512 256 16 cudaMemcpyDeviceToHost st2 = (cudaSuccess, st3) \<and>
     read_bytes 512 16 (bytes_at st3) = read_bytes 64 16 (\<lambda>a. ucast a)"
proof -
  let ?st = "shim_init (\<lambda>a. ucast a)"
  let ?st1 = "snd (snd (cudaMalloc 8 16 256 ?st))"
  let ?st2 = "snd (cudaMemcpy 256 64 16 cudaMemcpyHostToDevice ?st1)"
  let ?st3 = "snd (cudaMemcpy 512 256 16 cudaMemcpyDeviceToHost ?st2)"
  have 1: "cudaMalloc 8 16 256 ?st = (cudaSuccess, Some 256, ?st1)"
    by (simp add: cudaMalloc_def layout_ok_def)
  have 2: "cudaMemcpy 256 64 16 cudaMemcpyHostToDevice ?st1 = (cudaSuccess, ?st2)"
    by (simp add: cudaMemcpy_def)
  have 3: "cudaMemcpy 512 256 16 cudaMemcpyDeviceToHost ?st2 = (cudaSuccess, ?st3)"
    by (simp add: cudaMemcpy_def)
  have "read_bytes 512 (unat (16::usize)) (bytes_at ?st3) =
        read_bytes 64 (unat (16::usize)) (bytes_at ?st)"
    using memcpy_roundtrip [OF 1 2 3] by (simp add: apart_after)
  then have "read_bytes 512 16 (bytes_at ?st3) = read_bytes 64 16 (\<lambda>a. ucast a)"
    by (simp add: shim_init_def)
  with 1 2 3 show ?thesis by blast
qed

section \<open>Streams\<close>

text \<open>What a call launches on a stream, and the calls after the last synchronization of it.\<close>

fun launch_on :: "u64 \<Rightarrow> shim_call \<Rightarrow> kernel_launch option" where
  "launch_on h (CudaLaunchKernel f g b m s) =
     (if s = h then Some \<lparr>kernel_id = f, grid_dim = g, block_dim = b,
                          shared_mem_bytes = ucast m, launch_args = []\<rparr> else None)"
| "launch_on h (CuLaunchKernel f g b m s) =
     (if s = h then Some \<lparr>kernel_id = f, grid_dim = g, block_dim = b,
                          shared_mem_bytes = m, launch_args = []\<rparr> else None)"
| "launch_on h _ = None"

definition launches :: "u64 \<Rightarrow> shim_call list \<Rightarrow> kernel_launch list" where
  "launches h cs = List.map_filter (launch_on h) cs"

definition after_sync :: "u64 \<Rightarrow> shim_call list \<Rightarrow> shim_call list" where
  "after_sync h cs = rev (takeWhile (\<lambda>c. c \<noteq> CudaStreamSynchronize h) (rev cs))"

lemma launches_snoc:
  "launches h (cs @ [c]) = launches h cs @ (case launch_on h c of None \<Rightarrow> [] | Some l \<Rightarrow> [l])"
  by (simp add: launches_def map_filter_def split: option.split)

lemma after_sync_snoc:
  "after_sync h (cs @ [c]) = (if c = CudaStreamSynchronize h then [] else after_sync h cs @ [c])"
  by (simp add: after_sync_def)

lemma load_frame:
  "stream_table (snd (snd (cuModuleLoad fs m nm st))) = stream_table st"
  "stream_table (snd (snd (cuModuleLoadData m i st))) = stream_table st"
  using cuModuleLoad_state [of fs m nm st] cuModuleLoadData_state [of m i st]
  by (metis add_module_frame(1))+

text \<open>The pending launches of a live stream after one call.\<close>

lemma pending_perform:
  assumes ctx: "stream_table st h = Some ctx" and h: "h \<noteq> 0"
    and fresh: "h \<noteq> stream_counter st" and live: "call \<noteq> CudaStreamDestroy h"
  shows "map_option pending_kernels (stream_table (perform fs call st) h) =
    Some (if call = CudaStreamSynchronize h then []
          else pending_kernels ctx @ (case launch_on h call of None \<Rightarrow> [] | Some l \<Rightarrow> [l]))"
  using assms
  by (cases call)
     (auto simp: frame_simps load_frame snd_cuMemFree snd_cuMemAlloc cudaMemcpy_def cudaMemset_def
        cudaStreamCreate_def cudaStreamDestroy_def cudaStreamSynchronize_def
        cuModuleUnload_def cudaLaunchKernel_def cuLaunchKernel_def queue_launch_def
        cudaGetLastError_def cuMemcpyHtoD_def cuMemcpyDtoH_def set_current_device_def Let_def
        split: option.split)

lemma streams_ok_perform:
  assumes "\<forall>h c. stream_table st h = Some c \<longrightarrow> stream_ok h c"
  shows "\<forall>h c. stream_table (perform fs call st) h = Some c \<longrightarrow> stream_ok h c"
  using assms
  by (cases call)
     (auto simp: frame_simps load_frame snd_cuMemFree snd_cuMemAlloc cudaMemcpy_def cudaMemset_def
        cudaStreamCreate_def cudaStreamDestroy_def cudaStreamSynchronize_def
        cuModuleUnload_def cudaLaunchKernel_def cuLaunchKernel_def queue_launch_def stream_ok_def
        cudaGetLastError_def cuMemcpyHtoD_def cuMemcpyDtoH_def set_current_device_def Let_def
        split: option.split if_splits)

lemma stream_run:
  assumes "counters_ok n st" and "\<forall>h c. stream_table st h = Some c \<longrightarrow> stream_ok h c"
    and "n + length cs \<le> 2 ^ 63"
    and "stream_table st h = Some ctx" and "h \<noteq> 0" and "CudaStreamDestroy h \<notin> set cs"
  shows "counters_ok (n + length cs) (fold (perform fs) cs st) \<and>
    (\<exists>ctx'. stream_table (fold (perform fs) cs st) h = Some ctx' \<and> stream_ok h ctx' \<and>
      pending_kernels ctx' =
        (if CudaStreamSynchronize h \<in> set cs then [] else pending_kernels ctx) @
        launches h (after_sync h cs)) \<and>
    (\<forall>h c. stream_table (fold (perform fs) cs st) h = Some c \<longrightarrow> stream_ok h c)"
  using assms(3,6)
proof (induction cs rule: rev_induct)
  case Nil
  then show ?case using assms by (simp add: launches_def after_sync_def)
next
  case (snoc call cs)
  let ?st = "fold (perform fs) cs st"
  from snoc have c: "counters_ok (n + length cs) ?st"
    and ok: "\<forall>h c. stream_table ?st h = Some c \<longrightarrow> stream_ok h c" by auto
  from snoc obtain ctx' where ctx': "stream_table ?st h = Some ctx'"
    and q: "pending_kernels ctx' =
      (if CudaStreamSynchronize h \<in> set cs then [] else pending_kernels ctx) @
      launches h (after_sync h cs)" by auto
  have "counters_ok (n + length (cs @ [call])) (perform fs call ?st)"
    using counters_perform [OF c] snoc.prems by simp
  moreover have ok': "\<forall>h c. stream_table (perform fs call ?st) h = Some c \<longrightarrow> stream_ok h c"
    using ok by (rule streams_ok_perform)
  moreover have "h \<noteq> stream_counter ?st"
    using counters_fresh(2) [OF c] ctx' by auto
  with pending_perform [OF ctx' assms(5), of call fs] snoc.prems
  have "map_option pending_kernels (stream_table (perform fs call ?st) h) =
    Some (if call = CudaStreamSynchronize h then []
          else pending_kernels ctx' @ (case launch_on h call of None \<Rightarrow> [] | Some l \<Rightarrow> [l]))"
    by auto
  then obtain ctx'' where "stream_table (perform fs call ?st) h = Some ctx''"
    and "pending_kernels ctx'' = (if call = CudaStreamSynchronize h then []
          else pending_kernels ctx' @ (case launch_on h call of None \<Rightarrow> [] | Some l \<Rightarrow> [l]))"
    by auto
  moreover have "launches h [] = []" by (simp add: launches_def)
  ultimately show ?case
    by (auto simp: q after_sync_snoc launches_snoc)
qed

text \<open>C15: On a live stream, any further calls that do not destroy it leave exactly those kernels
  pending that were launched on it, through either API and in this order, after its last
  synchronization, on top of the earlier ones if there was none; the stream counts as synchronized
  exactly if nothing is pending.\<close>
theorem stream_pending_launches:
  assumes reach: "shim_reach fs mem n st" and n: "n + length cs \<le> 2 ^ 63"
    and ctx: "stream_table st h = Some ctx" and h: "h \<noteq> 0"
    and live: "CudaStreamDestroy h \<notin> set cs"
  shows "\<exists>ctx'. stream_table (fold (perform fs) cs st) h = Some ctx' \<and>
    pending_kernels ctx' =
      (if CudaStreamSynchronize h \<in> set cs then [] else pending_kernels ctx) @
      launches h (after_sync h cs) \<and>
    (synchronized ctx' \<longleftrightarrow> pending_kernels ctx' = [])"
proof -
  have c0: "counters_ok n st" using counters_reach [OF reach] n by simp
  have s0: "\<forall>h c. stream_table st h = Some c \<longrightarrow> stream_ok h c"
    using shim_inv_reach [OF reach] by (simp add: shim_inv_def)
  show ?thesis
    using stream_run [OF c0 s0 n ctx h live, of fs] unfolding stream_ok_def by blast
qed

definition example_stream :: shim where
  "example_stream = perform (\<lambda>f. None) (CudaStreamCreate 8) (shim_init (\<lambda>a. 0))"

lemma example_stream_reach: "shim_reach (\<lambda>f. None) (\<lambda>a. 0) 1 example_stream"
  using shim_call [OF shim_start, of "CudaStreamCreate 8" "\<lambda>a. 0" "\<lambda>f. None"]
  by (simp add: example_stream_def)

lemma example_stream_ctx:
  "stream_table example_stream 1 =
     Some \<lparr>handle = 1, stream_device = 0, synchronized = True, pending_kernels = []\<rparr>"
  by (simp add: example_stream_def cudaStreamCreate_def shim_init_def Let_def)

lemma stream_pending_launches_witness:
  "\<exists>ctx. stream_table (fold (perform (\<lambda>f. None))
            [CudaLaunchKernel 7 (1, 1, 1) (32, 1, 1) 0 1, CudaStreamSynchronize 1,
             CuLaunchKernel 9 (2, 1, 1) (64, 1, 1) 16 1] example_stream) 1 = Some ctx \<and>
         map kernel_id (pending_kernels ctx) = [9] \<and> \<not> synchronized ctx"
  using stream_pending_launches [OF example_stream_reach _ example_stream_ctx,
      of "[CudaLaunchKernel 7 (1, 1, 1) (32, 1, 1) 0 1, CudaStreamSynchronize 1,
           CuLaunchKernel 9 (2, 1, 1) (64, 1, 1) 16 1]"]
  by (auto simp: launches_def after_sync_def map_filter_def simp del: fold_simps)

section \<open>What the shim accepts silently\<close>

text \<open>A launch on a handle that is no stream succeeds and leaves no trace.\<close>

lemma launch_on_unknown_stream:
  "stream_table st h = None \<Longrightarrow> cudaLaunchKernel f g b m h st = (cudaSuccess, st)"
  by (simp add: cudaLaunchKernel_def queue_launch_def)

text \<open>A function of a module that was never loaded is resolved to a handle.\<close>

lemma get_function_of_unknown_module:
  "module_registry st m = None \<Longrightarrow> f \<noteq> 0 \<Longrightarrow> utf8_valid name \<Longrightarrow>
   cuModuleGetFunction f m (Some name) st =
     (CUDA_SUCCESS, Some (function_counter st), st\<lparr>function_counter := function_counter st + 1\<rparr>)"
  by (simp add: cuModuleGetFunction_def Let_def)

text \<open>No call records an error for \<open>cudaGetLastError\<close>, and selecting a device has no effect.\<close>

lemma last_error_never_set: "shim_reach fs mem n st \<Longrightarrow> last_error st t = cudaSuccess"
proof (induction rule: shim_reach.induct)
  case (shim_call n st c)
  then show ?case
    by (cases c)
       (auto simp: cudaMalloc_def cudaFree_def untrack_def dealloc_def track_def heap_alloc_def
          snd_cuMemFree snd_cuMemAlloc cudaMemcpy_def cudaMemset_def
          cudaStreamCreate_def cudaStreamDestroy_def cudaStreamSynchronize_def
          cuModuleLoad_def cuModuleLoadData_def cuModuleGetFunction_def add_module_def
          cuModuleUnload_def cudaLaunchKernel_def cuLaunchKernel_def queue_launch_def
          cudaGetLastError_def cuMemcpyHtoD_def cuMemcpyDtoH_def set_current_device_def Let_def
          split: option.splits if_splits)
qed (simp add: shim_init_def)

lemma set_device_has_no_effect:
  "snd (cudaSetDevice i st) = st" "p \<noteq> 0 \<Longrightarrow> cudaGetDevice p st = (cudaSuccess, Some 0)"
  by (auto simp: cudaSetDevice_def cudaGetDevice_def)

end
