(* ===== verification/Shim_Threads.thy ===== *)
theory Shim_Threads
  imports Shim_Calls
begin

text \<open>
  \<open>cudaMalloc\<close> and \<open>cudaFree\<close> of several threads at once. Each is two atomic steps: obtaining the
  block and entering it in the concurrent table, and removing it from the table and releasing it.
  Between the two steps of a thread any other thread may run. A configuration is the shared state
  with the blocks that are obtained but not yet entered and the entries that are removed but not
  yet released.
\<close>

section \<open>Interleaved steps\<close>

type_synonym config = "shim \<times> (u64 \<rightharpoonup> usize) \<times> (u64 \<rightharpoonup> alloc_entry)"

inductive thread_step :: "config \<Rightarrow> config \<Rightarrow> bool" where
  obtain_block:
    "n \<noteq> 0 \<Longrightarrow> layout_ok n \<Longrightarrow> b \<noteq> 0 \<Longrightarrow> heap st b = None \<Longrightarrow>
     thread_step (st, A, F) (heap_alloc n b st, A(b \<mapsto> n), F)"
| enter_block:
    "A b = Some n \<Longrightarrow> thread_step (st, A, F) (track n b st, A(b := None), F)"
| remove_block:
    "p \<noteq> 0 \<Longrightarrow> untrack p st = (Some e, st') \<Longrightarrow> thread_step (st, A, F) (st', A, F(p \<mapsto> e))"
| release_block:
    "F p = Some e \<Longrightarrow> layout_ok (alloc_size e) \<Longrightarrow>
     thread_step (st, A, F) (dealloc p (alloc_size e) st, A, F(p := None))"

inductive_cases thread_stepE: "thread_step (st, A, F) c'"

inductive threads_reach :: "(u64 \<Rightarrow> u8) \<Rightarrow> config \<Rightarrow> bool" for mem :: "u64 \<Rightarrow> u8" where
  threads_start: "threads_reach mem (shim_init mem, Map.empty, Map.empty)"
| threads_next: "threads_reach mem c \<Longrightarrow> thread_step c c' \<Longrightarrow> threads_reach mem c'"

text \<open>The two functions are the two steps of a thread that is not interrupted.\<close>

lemma cudaMalloc_steps:
  assumes "cudaMalloc d n b st = (cudaSuccess, Some b, st')" and "heap st b = None" and "A b = None"
  shows "thread_step\<^sup>*\<^sup>* (st, A, F) (st', A, F)"
proof -
  from assms have "n \<noteq> 0" "layout_ok n" "b \<noteq> 0" and st': "st' = track n b (heap_alloc n b st)"
    by (auto simp: cudaMalloc_def split: if_splits)
  then have "thread_step (st, A, F) (heap_alloc n b st, A(b \<mapsto> n), F)"
    using assms by (auto intro: thread_step.intros)
  moreover have "thread_step (heap_alloc n b st, A(b \<mapsto> n), F) (st', A, F)"
    using thread_step.enter_block [of "A(b \<mapsto> n)" b n] assms st' by (simp add: fun_upd_idem)
  ultimately show ?thesis by simp
qed

lemma cudaFree_steps:
  assumes "cudaFree p st = (Some cudaSuccess, st')" and "p \<noteq> 0" and "F p = None"
  shows "thread_step\<^sup>*\<^sup>* (st, A, F) (st', A, F)"
proof -
  from assms obtain e st1 where un: "untrack p st = (Some e, st1)" and "layout_ok (alloc_size e)"
    and st': "st' = dealloc p (alloc_size e) st1"
    by (auto simp: cudaFree_def split: prod.splits option.splits if_splits)
  then have "thread_step (st, A, F) (st1, A, F(p \<mapsto> e))"
    using assms by (auto intro: thread_step.intros)
  moreover have "thread_step (st1, A, F(p \<mapsto> e)) (st', A, F)"
    using thread_step.release_block [of "F(p \<mapsto> e)" p e] assms \<open>layout_ok (alloc_size e)\<close> st'
    by (simp add: fun_upd_idem)
  ultimately show ?thesis by simp
qed

section \<open>Every block has one owner\<close>

text \<open>A block of the process is in the table or held by a thread, never both, with its size.\<close>

definition owner_ok ::
  "u64 \<Rightarrow> usize option \<Rightarrow> alloc_entry option \<Rightarrow> usize option \<Rightarrow> alloc_entry option \<Rightarrow> bool" where
  "owner_ok p blk entry a f =
     ((case (entry, a, f) of
         (None, None, None) \<Rightarrow> blk = None
       | (Some e, None, None) \<Rightarrow> blk = Some (alloc_size e)
       | (None, Some n, None) \<Rightarrow> blk = Some n
       | (None, None, Some e) \<Rightarrow> blk = Some (alloc_size e)
       | _ \<Rightarrow> False) \<and>
      (\<forall>n. blk = Some n \<longrightarrow> p \<noteq> 0 \<and> n \<noteq> 0 \<and> layout_ok n))"

definition owned :: "config \<Rightarrow> bool" where
  "owned c = (case c of (st, A, F) \<Rightarrow>
     \<not> heap_fault st \<and> (\<forall>p. owner_ok p (heap st p) (alloc_table st p) (A p) (F p)))"

lemma owner_ok_cases:
  "owner_ok p None entry a f \<longleftrightarrow> entry = None \<and> a = None \<and> f = None"
  "owner_ok p blk (Some e) a f \<longleftrightarrow> blk = Some (alloc_size e) \<and> a = None \<and> f = None \<and>
     p \<noteq> 0 \<and> alloc_size e \<noteq> 0 \<and> layout_ok (alloc_size e)"
  "owner_ok p blk entry (Some n) f \<longleftrightarrow> blk = Some n \<and> entry = None \<and> f = None \<and>
     p \<noteq> 0 \<and> n \<noteq> 0 \<and> layout_ok n"
  "owner_ok p blk entry a (Some e) \<longleftrightarrow> blk = Some (alloc_size e) \<and> entry = None \<and> a = None \<and>
     p \<noteq> 0 \<and> alloc_size e \<noteq> 0 \<and> layout_ok (alloc_size e)"
  "owner_ok p blk None None None \<longleftrightarrow> blk = None"
  by (auto simp: owner_ok_def split: option.splits)

lemma owned_at: "owned (st, A, F) \<Longrightarrow> owner_ok p (heap st p) (alloc_table st p) (A p) (F p)"
  by (simp add: owned_def)

lemma owned_init: "owned (shim_init mem, Map.empty, Map.empty)"
  by (simp add: owned_def shim_init_def owner_ok_cases)

lemma owned_step:
  assumes o: "owned (st, A, F)" and "thread_step (st, A, F) c'"
  shows "owned c'"
  using assms(2)
proof cases
  case (obtain_block n b)
  then show ?thesis using o owned_at [OF o, of b]
    by (simp add: owned_def heap_alloc_def owner_ok_cases)
next
  case (enter_block b n)
  then show ?thesis using o owned_at [OF o, of b]
    by (simp add: owned_def track_def owner_ok_cases)
next
  case (remove_block p e st')
  then show ?thesis using o owned_at [OF o, of p]
    by (auto simp: owned_def untrack_def owner_ok_cases)
next
  case (release_block p e)
  then show ?thesis using o owned_at [OF o, of p]
    by (simp add: owned_def dealloc_def owner_ok_cases)
qed

lemma owned_reach: "threads_reach mem c \<Longrightarrow> owned c"
proof (induction rule: threads_reach.induct)
  case threads_start
  show ?case by (rule owned_init)
next
  case (threads_next c c')
  obtain st A F where "c = (st, A, F)" by (cases c)
  with threads_next show ?case using owned_step by blast
qed

text \<open>C14: Under every interleaving of allocating and freeing threads, also of threads that free
  the same pointer, no block is released twice or with a wrong size and no layout check can fail;
  a freed pointer is released by exactly one thread, and whenever no thread is between its two
  steps the table describes exactly the blocks of the process.\<close>
theorem threads_never_double_free:
  assumes "threads_reach mem (st, A, F)"
  shows "\<not> heap_fault st \<and>
    (\<forall>p. F p \<noteq> None \<longrightarrow> alloc_table st p = None \<and> A p = None \<and>
           heap st p = map_option alloc_size (F p) \<and> layout_ok (alloc_size (the (F p)))) \<and>
    (A = Map.empty \<and> F = Map.empty \<longrightarrow> heap st = map_option alloc_size \<circ> alloc_table st)"
proof -
  have o: "owned (st, A, F)" using assms by (rule owned_reach)
  have 1: "alloc_table st p = None \<and> A p = None \<and> heap st p = map_option alloc_size (F p) \<and>
        layout_ok (alloc_size (the (F p)))" if "F p \<noteq> None" for p
    using owned_at [OF o, of p] that by (auto simp: owner_ok_cases)
  have 2: "heap st = map_option alloc_size \<circ> alloc_table st" if "A = Map.empty" "F = Map.empty"
  proof
    fix p
    show "heap st p = (map_option alloc_size \<circ> alloc_table st) p"
      using owned_at [OF o, of p] that by (cases "alloc_table st p") (simp_all add: owner_ok_cases)
  qed
  from o 1 2 show ?thesis by (simp add: owned_def)
qed

lemma threads_never_double_free_witness:
  "\<exists>st A F. threads_reach (\<lambda>a. 0) (st, A, F) \<and> F 256 \<noteq> None \<and> heap st 256 = Some 64"
proof -
  let ?s0 = "shim_init (\<lambda>a. 0)"
  let ?s1 = "heap_alloc 64 256 ?s0"
  let ?s2 = "track 64 256 ?s1"
  let ?s3 = "snd (untrack 256 ?s2)"
  let ?e = "the (fst (untrack 256 ?s2))"
  have "threads_reach (\<lambda>a. 0) (?s1, [256 \<mapsto> 64], Map.empty)"
    by (rule threads_next [OF threads_start], rule thread_step.obtain_block)
       (simp_all add: layout_ok_def shim_init_def)
  then have "threads_reach (\<lambda>a. 0) (?s2, [256 \<mapsto> 64](256 := None), Map.empty)"
    by (rule threads_next) (rule thread_step.enter_block, simp)
  then have r: "threads_reach (\<lambda>a. 0) (?s3, [256 \<mapsto> 64](256 := None), [256 \<mapsto> ?e])"
    by (rule threads_next) (rule thread_step.remove_block, simp_all add: untrack_def track_def)
  have "alloc_size ?e = 64" by (simp add: untrack_def track_def)
  with threads_never_double_free [OF r] have "heap ?s3 256 = Some 64" by simp
  with r show ?thesis by (intro exI conjI) auto
qed

end
