(* ===== verification/Cli.thy ===== *)
theory Cli
  imports Runtime P2p
begin

text \<open>
  The command line tool, \<open>omni-cli/src/commands.rs\<close>: what each command does besides printing, and
  what the status command prints. Starting a process is a parameter, as are the random bytes of a peer identity.
\<close>

section \<open>Commands\<close>

datatype cli_command =
    RunProgram string "string list"
  | Benchmark
  | WorkerJoin string u64
  | Status

text \<open>A child process: the executable, its arguments and the variables added to its environment.\<close>

record child =
  executable :: string
  child_args :: "string list"
  added_env :: "(string \<times> string) list"

definition injection_env :: "machine \<Rightarrow> (string \<times> string) list" where
  "injection_env mc =
     (if target_os mc = ''linux'' then [(''LD_PRELOAD'', ''libomni_shim.so'')] else []) @
     (if target_os mc = ''macos'' then [(''DYLD_INSERT_LIBRARIES'', ''libomni_shim.dylib'')] else []) @
     (if target_os mc = ''windows'' then [(''OMNICOMPUTE_SHIM_ACTIVE'', ''1'')] else [])"

text \<open>\<open>spawn\<close> gives an error or the exit code of the finished child.\<close>

definition handle_run ::
  "(child \<Rightarrow> string + int) \<Rightarrow> machine \<Rightarrow> string \<Rightarrow> string list \<Rightarrow> string + unit" where
  "handle_run spawn mc exe args =
     (case spawn \<lparr>executable = exe, child_args = args, added_env = injection_env mc\<rparr> of
        Inl e \<Rightarrow> Inl e
      | Inr exit_code \<Rightarrow> Inr ())"

definition fake_ptx :: "u8 list" where
  "fake_ptx = bytes_of (''.version 8.0'' @ nl @ ''.target sm_90'' @ nl @ '' mma.sync.aligned.m16n8k16 '')"

text \<open>The reported device and kernel of the benchmark.\<close>

definition handle_benchmark ::
  "machine \<Rightarrow> (string + jit_error) + (hardware_profile \<times> generated_kernel)" where
  "handle_benchmark mc =
     (case probe mc of
        Inl e \<Rightarrow> Inl (Inl e)
      | Inr profile \<Rightarrow>
          (case runtime_init mc of
             Inl e \<Rightarrow> Inl (Inl e)
           | Inr runtime \<Rightarrow>
               (case fst (compile_ptx fake_ptx 0xAAFF (runtime_jit runtime)) of
                  Inl e \<Rightarrow> Inl (Inr e)
                | Inr compiled \<Rightarrow> Inr (profile, compiled))))"

section \<open>Joining as a worker\<close>

definition worker_profile :: "hardware_profile \<Rightarrow> string \<Rightarrow> u64 \<Rightarrow> worker_node" where
  "worker_profile profile peer vram_limit_gb =
     \<lparr>worker_peer_id = peer,
      worker_tflops =
        (case target_backend profile of
           AmdRocm g w c \<Rightarrow> literal binary32 80 1
         | AppleMetal n b c \<Rightarrow> literal binary32 35 1
         | _ \<Rightarrow> literal binary32 12 1),
      rtt_ms = literal binary32 0 1,
      vram_capacity_bytes = vram_limit_gb * 1024 * 1024 * 1024,
      current_load = literal binary32 0 1\<rparr>"

text \<open>The heartbeat message and the node before the loop.\<close>

definition worker_join ::
  "machine \<Rightarrow> u8 list \<Rightarrow> string \<Rightarrow> u64 \<Rightarrow> string + network_message \<times> omni_node" where
  "worker_join mc raw_peer bind_addr vram_limit_gb =
     (case probe mc of
        Inl e \<Rightarrow> Inl e
      | Inr profile \<Rightarrow>
          (let peer_node = node_new bind_addr raw_peer
           in Inr (Heartbeat (worker_profile profile (node_peer_id peer_node) vram_limit_gb) 0,
                   peer_node)))"

text \<open>The endless loop offloads the same message again and again, next to the node's event loop.\<close>

inductive join_reach :: "network_message \<Rightarrow> omni_node \<Rightarrow> omni_node \<Rightarrow> bool" for msg n where
  join_start: "join_reach msg n n"
| join_beat: "join_reach msg n m \<Longrightarrow> offload_task msg m = Some m' \<Longrightarrow> join_reach msg n m'"
| join_swarm: "join_reach msg n m \<Longrightarrow> swarm_step m = Some m' \<Longrightarrow> join_reach msg n m'"

section \<open>Dispatch\<close>

definition status_row :: "string \<Rightarrow> string \<Rightarrow> string \<Rightarrow> string \<Rightarrow> string" where
  "status_row a b c d = pad_right 32 a @ '' '' @ pad_right 10 b @ '' '' @ pad_right 12 c @ '' '' @ pad_right 10 d"

text \<open>The printed lines; \<open>style\<close> stands for the crate that colors a text.\<close>

definition handle_status :: "(string \<Rightarrow> string \<Rightarrow> string) \<Rightarrow> string list" where
  "handle_status style =
     (let tick = style ''bright_green'' [CHR ''['', CHR 0xE2, CHR 0x9C, CHR 0x93, CHR '']''] in
      [style ''bold cyan'' (nl @ ''--- OmniCompute P2P Network Topology Status ---''),
       tick @ '' Connected Peer Nodes:  '' @ dec 12,
       tick @ '' Global Network Capacity: '' @ ''2.45'' @ '' PETAFLOPS'',
       tick @ '' Active Compute streams: '' @ dec 4,
       nl @ ''Discovered Routing Table:'',
       status_row ''Peer ID'' ''TFLOPS'' ''Memory'' ''Latency'',
       style ''bright_black'' (replicate 73 CHR ''-''),
       status_row ''Qm7fbc9901456daef12c'' ''82.4'' ''24 GB'' ''45 ms'',
       status_row ''Qmde987d654f12ab432c'' ''35.2'' ''16 GB'' ''22 ms'',
       status_row ''Qmbca998bcfe99887712'' ''15.0'' ''8 GB'' ''102 ms''])"

text \<open>How a command ends: with an error, normally with what it reported, or, for a worker, in the
  endless loop with its heartbeat and its node.\<close>

datatype cli_outcome =
    Failed "string + jit_error"
  | Finished
  | BenchmarkReport hardware_profile generated_kernel
  | Serving network_message omni_node
  | StatusLines "string list"

fun execute ::
  "(child \<Rightarrow> string + int) \<Rightarrow> (string \<Rightarrow> string \<Rightarrow> string) \<Rightarrow> machine \<Rightarrow> u8 list \<Rightarrow> cli_command \<Rightarrow> cli_outcome"
where
  "execute spawn style mc raw_peer (RunProgram exe args) =
     (case handle_run spawn mc exe args of Inl e \<Rightarrow> Failed (Inl e) | Inr _ \<Rightarrow> Finished)"
| "execute spawn style mc raw_peer Benchmark =
     (case handle_benchmark mc of Inl e \<Rightarrow> Failed e | Inr (profile, compiled) \<Rightarrow> BenchmarkReport profile compiled)"
| "execute spawn style mc raw_peer (WorkerJoin bind vram_limit_gb) =
     (case worker_join mc raw_peer bind vram_limit_gb of
        Inl e \<Rightarrow> Failed (Inl e) | Inr (msg, node) \<Rightarrow> Serving msg node)"
| "execute spawn style mc raw_peer Status = StatusLines (handle_status style)"

section \<open>Properties\<close>

text \<open>The benchmark succeeds on every machine: it probes the hardware, starts the runtime and
  compiles its sample kernel to the matrix multiplication of the probed backend.\<close>

theorem benchmark_succeeds:
  "\<exists>profile compiled. handle_benchmark mc = Inr (profile, compiled) \<and> probe mc = Inr profile \<and>
     kernel_name compiled = ''omni_matmul_0''"
proof -
  have m: "classify_ptx fake_ptx = MatMul" by code_simp
  obtain hw where hw: "probe mc = Inr hw"
    and init: "runtime_init mc = Inr \<lparr>runtime_jit = jit_new hw,
      runtime_pager = pager_new (duvas_new (vram_bytes hw)), runtime_hardware = hw\<rparr>"
    using runtime_init_eq by blast
  obtain k where "compile_fresh hw fake_ptx 0xAAFF = Inr k" "kernel_name k = ''omni_matmul_0''"
    using compile_fresh_name(1) [OF m, of hw "0xAAFF"]
    by (cases "compile_fresh hw fake_ptx 0xAAFF") auto
  then show ?thesis
    using hw init by (simp add: handle_benchmark_def compile_ptx_def jit_new_def)
qed

text \<open>A worker that joins only ever tells itself: its heartbeats end in its own table.\<close>

lemma joined_worker_registers_itself:
  assumes "worker_join mc raw addr gb = Inr (msg, n)" and "join_reach msg n m"
  shows "set (tx_queue m) \<subseteq> {msg} \<and>
    (routing_table m = Map.empty \<or>
     (\<exists>w. msg = Heartbeat w 0 \<and> worker_peer_id w = node_peer_id n \<and>
          routing_table m = [node_peer_id n \<mapsto> w]))"
  using assms(2)
proof (induction rule: join_reach.induct)
  case join_start
  then show ?case using assms(1)
    by (auto simp: worker_join_def node_new_def Let_def split: sum.splits)
next
  case (join_beat m m')
  then show ?case by (auto simp: offload_task_def split: if_splits)
next
  case (join_swarm m m')
  obtain w where w: "msg = Heartbeat w 0" "worker_peer_id w = node_peer_id n"
    using assms(1) by (auto simp: worker_join_def worker_profile_def Let_def split: sum.splits)
  from join_swarm w show ?case
    by (auto simp: swarm_step_def split: list.splits)
qed

text \<open>A limit of \<open>2^34\<close> gigabytes wraps around to no memory at all.\<close>

lemma vram_limit_wraps: "vram_capacity_bytes (worker_profile hw peer (2 ^ 34)) = 0"
  by (simp add: worker_profile_def)

text \<open>The exit code of the wrapped program is not passed on.\<close>

lemma run_hides_exit_code: "handle_run (\<lambda>c. Inr code) mc exe args = Inr ()"
  by (simp add: handle_run_def)


text \<open>The status is the same on every machine, whatever the network is.\<close>

lemma status_is_constant: "execute spawn style mc raw Status = execute spawn' style mc' raw' Status"
  by simp

end
