(* ===== verification/Dialect_Dump.thy ===== *)
theory Dialect_Dump
  imports Dialect
begin

text \<open>
  \<open>OmniModule::dump\<close> of \<open>omni-core/src/mlir/dialect.rs\<close>, the printed form of a module, with the
  derived \<open>Debug\<close> form of the operation kinds. How the standard library prints a double with
  \<open>{:?}\<close> is a parameter: the code relies on it only to tell values apart.
\<close>

section \<open>Debug forms\<close>

text \<open>\<open>[T]::join\<close>.\<close>

fun join_str :: "string \<Rightarrow> string list \<Rightarrow> string" where
  "join_str sep [] = []"
| "join_str sep [s] = s"
| "join_str sep (s # t # ss) = s @ sep @ join_str sep (t # ss)"

definition debug_bool :: "bool \<Rightarrow> string" where
  "debug_bool b = (if b then ''true'' else ''false'')"

definition debug_list :: "string list \<Rightarrow> string" where
  "debug_list xs = ''['' @ join_str '', '' xs @ '']''"

fun debug_unary :: "unary_func \<Rightarrow> string" where
  "debug_unary Exp = ''Exp''" | "debug_unary Log = ''Log''" | "debug_unary Sqrt = ''Sqrt''"
| "debug_unary Rsqrt = ''Rsqrt''" | "debug_unary Abs = ''Abs''" | "debug_unary Neg = ''Neg''"
| "debug_unary Ceil = ''Ceil''" | "debug_unary Floor = ''Floor''" | "debug_unary Round = ''Round''"
| "debug_unary Cos = ''Cos''" | "debug_unary Sin = ''Sin''" | "debug_unary Tan = ''Tan''"
| "debug_unary Erf = ''Erf''"

fun debug_binary :: "binary_func \<Rightarrow> string" where
  "debug_binary Pow = ''Pow''" | "debug_binary FMax = ''Max''" | "debug_binary FMin = ''Min''"
| "debug_binary Mod = ''Mod''" | "debug_binary Atan2 = ''Atan2''"

definition unsigned_text :: "'a::len word \<Rightarrow> string" where
  "unsigned_text w = dec (unat w)"

definition signed_text :: "'a::len word \<Rightarrow> string" where
  "signed_text w = dec_int (sint w)"

text \<open>The derived form: the name of the variant, and its fields in braces.\<close>

fun variant_name :: "op_kind \<Rightarrow> string" where
  "variant_name MatMul = ''MatMul''"
| "variant_name BatchedMatMul = ''BatchedMatMul''"
| "variant_name Gemv = ''Gemv''"
| "variant_name (Conv _) = ''Conv''"
| "variant_name (ConvTranspose _) = ''ConvTranspose''"
| "variant_name DepthwiseConv = ''DepthwiseConv''"
| "variant_name (ScaledDotProductAttention _) = ''ScaledDotProductAttention''"
| "variant_name (MultiHeadAttention _) = ''MultiHeadAttention''"
| "variant_name Add = ''Add''"
| "variant_name Mul = ''Mul''"
| "variant_name Div = ''Div''"
| "variant_name Sub = ''Sub''"
| "variant_name (UnaryFunc _) = ''UnaryFunc''"
| "variant_name (BinaryFunc _) = ''BinaryFunc''"
| "variant_name Relu = ''Relu''"
| "variant_name Sigmoid = ''Sigmoid''"
| "variant_name Tanh = ''Tanh''"
| "variant_name Gelu = ''Gelu''"
| "variant_name Silu = ''Silu''"
| "variant_name (Softmax _) = ''Softmax''"
| "variant_name (LayerNorm _) = ''LayerNorm''"
| "variant_name (GroupNorm _ _) = ''GroupNorm''"
| "variant_name (RmsNorm _) = ''RmsNorm''"
| "variant_name (ReduceSum _ _) = ''ReduceSum''"
| "variant_name (ReduceMean _ _) = ''ReduceMean''"
| "variant_name (ReduceMax _ _) = ''ReduceMax''"
| "variant_name Reshape = ''Reshape''"
| "variant_name (Transpose _) = ''Transpose''"
| "variant_name (Concat _) = ''Concat''"
| "variant_name (Split _ _) = ''Split''"
| "variant_name Broadcast = ''Broadcast''"
| "variant_name (Gather _) = ''Gather''"
| "variant_name (Scatter _) = ''Scatter''"
| "variant_name MemCopy = ''MemCopy''"
| "variant_name (Fill _) = ''Fill''"
| "variant_name (Opaque _) = ''Opaque''"

fun variant_fields :: "(f64 \<Rightarrow> string) \<Rightarrow> op_kind \<Rightarrow> (string \<times> string) list" where
  "variant_fields fs (Conv n) = [(''num_spatial_dims'', unsigned_text n)]"
| "variant_fields fs (ConvTranspose n) = [(''num_spatial_dims'', unsigned_text n)]"
| "variant_fields fs (ScaledDotProductAttention c) = [(''causal'', debug_bool c)]"
| "variant_fields fs (MultiHeadAttention n) = [(''num_heads'', unsigned_text n)]"
| "variant_fields fs (UnaryFunc f) = [(''func'', debug_unary f)]"
| "variant_fields fs (BinaryFunc f) = [(''func'', debug_binary f)]"
| "variant_fields fs (Softmax a) = [(''axis'', signed_text a)]"
| "variant_fields fs (LayerNorm e) = [(''eps'', fs e)]"
| "variant_fields fs (GroupNorm n e) = [(''num_groups'', unsigned_text n), (''eps'', fs e)]"
| "variant_fields fs (RmsNorm e) = [(''eps'', fs e)]"
| "variant_fields fs (ReduceSum axes keep) =
     [(''axes'', debug_list (map signed_text axes)), (''keep_dims'', debug_bool keep)]"
| "variant_fields fs (ReduceMean axes keep) =
     [(''axes'', debug_list (map signed_text axes)), (''keep_dims'', debug_bool keep)]"
| "variant_fields fs (ReduceMax axes keep) =
     [(''axes'', debug_list (map signed_text axes)), (''keep_dims'', debug_bool keep)]"
| "variant_fields fs (Transpose perm) = [(''perm'', debug_list (map unsigned_text perm))]"
| "variant_fields fs (Concat a) = [(''axis'', signed_text a)]"
| "variant_fields fs (Split a ns) =
     [(''axis'', signed_text a), (''split_sizes'', debug_list (map signed_text ns))]"
| "variant_fields fs (Gather a) = [(''axis'', signed_text a)]"
| "variant_fields fs (Scatter a) = [(''axis'', signed_text a)]"
| "variant_fields fs (Fill v) = [(''value'', fs v)]"
| "variant_fields fs (Opaque h) = [(''ptx_hash'', unsigned_text h)]"
| "variant_fields fs _ = []"

definition debug_field :: "string \<times> string \<Rightarrow> string" where
  "debug_field fv = (case fv of (f, v) \<Rightarrow> f @ '': '' @ v)"

definition debug_kind :: "(f64 \<Rightarrow> string) \<Rightarrow> op_kind \<Rightarrow> string" where
  "debug_kind fs k = variant_name k @
     (case variant_fields fs k of
        [] \<Rightarrow> []
      | fvs \<Rightarrow> '' { '' @ join_str '', '' (map debug_field fvs) @ '' }'')"

section \<open>Dump\<close>

definition dump_op :: "(f64 \<Rightarrow> string) \<Rightarrow> omni_op \<Rightarrow> string" where
  "dump_op fs p =
     ''  %'' @ output_name p @ '' = omni.'' @ debug_kind fs (kind p) @ ''('' @
     join_str '', '' (inputs p) @ '') : '' @ show_tensor (result_type p) @ nl"

definition dump :: "(f64 \<Rightarrow> string) \<Rightarrow> omni_module \<Rightarrow> string" where
  "dump fs m = ''module omni.tensor {'' @ nl @ concat (map (dump_op fs) (ops m)) @ ''}''"

section \<open>Reading back\<close>

lemma until_char:
  "c \<notin> set a \<Longrightarrow> c \<notin> set b \<Longrightarrow> a @ c # r = b @ c # s \<longleftrightarrow> a = b \<and> r = s"
  by (induction a arbitrary: b) (case_tac b; auto)+

lemma dec_chars: "of_char c < (48::nat) \<or> 57 < (of_char c :: nat) \<Longrightarrow> c \<notin> set (dec n)"
  using set_dec [of c n] by auto

lemma text_chars:
  "of_char c < (48::nat) \<or> 57 < (of_char c :: nat) \<Longrightarrow> c \<notin> set (unsigned_text w)"
  "of_char c < (48::nat) \<or> 57 < (of_char c :: nat) \<Longrightarrow> c \<noteq> CHR ''-'' \<Longrightarrow> c \<notin> set (signed_text w)"
  by (auto simp: unsigned_text_def signed_text_def dec_int_def dec_chars)

lemma text_inject [simp]:
  "unsigned_text v = unsigned_text w \<longleftrightarrow> v = w" "signed_text v = signed_text w \<longleftrightarrow> v = w"
  by (simp add: unsigned_text_def word_unat_eq_iff)
    (auto simp: signed_text_def intro: word_eq_iff_signed [THEN iffD2])

lemma text_nonempty [simp]: "unsigned_text w \<noteq> []" "signed_text w \<noteq> []"
  by (simp_all add: unsigned_text_def signed_text_def dec_int_def)

text \<open>Items that are not empty and have no comma can be read back from their join.\<close>

definition item :: "string \<Rightarrow> bool" where
  "item s \<longleftrightarrow> s \<noteq> [] \<and> CHR '','' \<notin> set s"

lemma join_str_eq_Nil: "list_all item xs \<Longrightarrow> join_str '', '' xs = [] \<longleftrightarrow> xs = []"
  by (cases "('', '', xs)" rule: join_str.cases) (auto simp: item_def)

lemma join_str_inject:
  "list_all item xs \<Longrightarrow> list_all item ys \<Longrightarrow> join_str '', '' xs = join_str '', '' ys \<longleftrightarrow> xs = ys"
proof (induction "'', ''" xs arbitrary: ys rule: join_str.induct)
  case 1
  then show ?case using join_str_eq_Nil [of ys] by auto
next
  case (2 s)
  then show ?case
    by (cases "('', '', ys)" rule: join_str.cases) (auto simp: item_def)
next
  case (3 s t ss)
  then show ?case
    by (cases "('', '', ys)" rule: join_str.cases) (auto simp: item_def until_char)
qed


lemma debug_list_inject:
  assumes "list_all item xs" "list_all item ys" "CHR '']'' \<notin> set (join_str '', '' xs)"
    "CHR '']'' \<notin> set (join_str '', '' ys)"
  shows "debug_list xs @ r = debug_list ys @ s \<longleftrightarrow> xs = ys \<and> r = s"
  using assms by (simp add: debug_list_def until_char join_str_inject)

lemma set_join_str: "set (join_str sep xs) \<subseteq> set sep \<union> (\<Union>x \<in> set xs. set x)"
  by (induction sep xs rule: join_str.induct) auto

lemma signed_items:
  "list_all item (map signed_text xs)" "CHR '']'' \<notin> set (join_str '', '' (map signed_text xs))"
  using set_join_str [of "'', ''" "map signed_text xs"] text_chars(2) [of "CHR '']''"]
  by (auto simp: list_all_iff item_def text_chars)

lemma unsigned_items:
  "list_all item (map unsigned_text xs)" "CHR '']'' \<notin> set (join_str '', '' (map unsigned_text xs))"
  using set_join_str [of "'', ''" "map unsigned_text xs"] text_chars(1) [of "CHR '']''"]
  by (auto simp: list_all_iff item_def text_chars)

lemma debug_ints_inject [simp]:
  "debug_list (map signed_text is) @ r = debug_list (map signed_text js) @ s \<longleftrightarrow> is = js \<and> r = s"
  "debug_list (map unsigned_text ns) @ r = debug_list (map unsigned_text ms) @ s \<longleftrightarrow> ns = ms \<and> r = s"
  unfolding debug_list_inject [OF signed_items(1) signed_items(1) signed_items(2) signed_items(2)]
    debug_list_inject [OF unsigned_items(1) unsigned_items(1) unsigned_items(2) unsigned_items(2)]
  by (simp_all add: inj_map_eq_map inj_def)

lemma debug_ints_inject_end [simp]:
  "debug_list (map signed_text is) = debug_list (map signed_text js) \<longleftrightarrow> is = js"
  "debug_list (map unsigned_text ns) = debug_list (map unsigned_text ms) \<longleftrightarrow> ns = ms"
  using debug_ints_inject(1) [of "is" "[]" js "[]"] debug_ints_inject(2) [of ns "[]" ms "[]"] by simp_all

lemma debug_func_inject [simp]:
  "debug_unary f = debug_unary g \<longleftrightarrow> f = g" "debug_binary a = debug_binary b \<longleftrightarrow> a = b"
  "debug_bool c = debug_bool d \<longleftrightarrow> c = d"
  by ((cases f; cases g; simp), (cases a; cases b; simp), simp add: debug_bool_def)

text \<open>The position of a variant in the enumeration, and the names by position.\<close>

fun variant_tag :: "op_kind \<Rightarrow> nat" where
  "variant_tag MatMul = 0"
| "variant_tag BatchedMatMul = 1"
| "variant_tag Gemv = 2"
| "variant_tag (Conv _) = 3"
| "variant_tag (ConvTranspose _) = 4"
| "variant_tag DepthwiseConv = 5"
| "variant_tag (ScaledDotProductAttention _) = 6"
| "variant_tag (MultiHeadAttention _) = 7"
| "variant_tag Add = 8"
| "variant_tag Mul = 9"
| "variant_tag Div = 10"
| "variant_tag Sub = 11"
| "variant_tag (UnaryFunc _) = 12"
| "variant_tag (BinaryFunc _) = 13"
| "variant_tag Relu = 14"
| "variant_tag Sigmoid = 15"
| "variant_tag Tanh = 16"
| "variant_tag Gelu = 17"
| "variant_tag Silu = 18"
| "variant_tag (Softmax _) = 19"
| "variant_tag (LayerNorm _) = 20"
| "variant_tag (GroupNorm _ _) = 21"
| "variant_tag (RmsNorm _) = 22"
| "variant_tag (ReduceSum _ _) = 23"
| "variant_tag (ReduceMean _ _) = 24"
| "variant_tag (ReduceMax _ _) = 25"
| "variant_tag Reshape = 26"
| "variant_tag (Transpose _) = 27"
| "variant_tag (Concat _) = 28"
| "variant_tag (Split _ _) = 29"
| "variant_tag Broadcast = 30"
| "variant_tag (Gather _) = 31"
| "variant_tag (Scatter _) = 32"
| "variant_tag MemCopy = 33"
| "variant_tag (Fill _) = 34"
| "variant_tag (Opaque _) = 35"

definition variant_names :: "string list" where
  "variant_names =
     [''MatMul'', ''BatchedMatMul'', ''Gemv'', ''Conv'', ''ConvTranspose'', ''DepthwiseConv'', ''ScaledDotProductAttention'', ''MultiHeadAttention'', ''Add'', ''Mul'', ''Div'', ''Sub'', ''UnaryFunc'', ''BinaryFunc'', ''Relu'', ''Sigmoid'', ''Tanh'', ''Gelu'', ''Silu'', ''Softmax'', ''LayerNorm'', ''GroupNorm'', ''RmsNorm'', ''ReduceSum'', ''ReduceMean'', ''ReduceMax'', ''Reshape'', ''Transpose'', ''Concat'', ''Split'', ''Broadcast'', ''Gather'', ''Scatter'', ''MemCopy'', ''Fill'', ''Opaque'']"

lemma variant_name_nth: "variant_name k = variant_names ! variant_tag k"
  by (cases k) (simp_all add: variant_names_def)

lemma variant_tag_less: "variant_tag k < length variant_names"
  by (cases k) (simp_all add: variant_names_def)

lemma distinct_variant_names: "distinct variant_names"
  by code_simp

lemma variant_name_inject: "variant_name k = variant_name l \<longleftrightarrow> variant_tag k = variant_tag l"
  using nth_eq_iff_index_eq [OF distinct_variant_names variant_tag_less variant_tag_less]
  by (simp add: variant_name_nth)

lemma variant_name_no_space: "CHR '' '' \<notin> set (variant_name k)"
  by (cases k) simp_all

lemma same_variant_inject:
  assumes "inj fs" and "variant_tag k = variant_tag l" and "debug_kind fs k = debug_kind fs l"
  shows "k = l"
  using assms(2)
  by (cases k; cases l; (simp; fail | (use assms(3) in
      \<open>simp add: debug_kind_def debug_field_def until_char text_chars inj_eq [OF assms(1)]\<close>)))


lemma debug_kind_head:
  "debug_kind fs k = variant_name k \<or> (\<exists>r. debug_kind fs k = variant_name k @ CHR '' '' # r)"
  by (auto simp: debug_kind_def split: list.split)

lemma debug_kind_name:
  assumes "debug_kind fs k = debug_kind fs l"
  shows "variant_name k = variant_name l"
proof -
  have "takeWhile (\<lambda>c. c \<noteq> CHR '' '') (debug_kind fs i) = variant_name i" for i
    using debug_kind_head [of fs i] variant_name_no_space [of i]
    by (auto simp: takeWhile_append takeWhile_eq_all_conv)
  with assms show ?thesis by metis
qed

lemma debug_kind_inject: "inj fs \<Longrightarrow> debug_kind fs k = debug_kind fs l \<longleftrightarrow> k = l"
  using debug_kind_name [of fs k l] same_variant_inject [of fs k l] by (auto simp: variant_name_inject)

text \<open>What the doubles' printed form must satisfy, and the names that can be read back.\<close>

definition float_text :: "(f64 \<Rightarrow> string) \<Rightarrow> bool" where
  "float_text fs \<longleftrightarrow> inj fs \<and> (\<forall>x. CHR ''('' \<notin> set (fs x) \<and> CHR 0x0A \<notin> set (fs x))"

definition ident :: "string \<Rightarrow> bool" where
  "ident s \<longleftrightarrow> s \<noteq> [] \<and> set s \<inter> {CHR '' '', CHR '','', CHR '')'', CHR 0x0A} = {}"

definition dumpable :: "omni_op \<Rightarrow> bool" where
  "dumpable p \<longleftrightarrow> ident (output_name p) \<and> list_all ident (inputs p)"

text \<open>What the printed form shows of an operation.\<close>

definition printed_alike :: "omni_op \<Rightarrow> omni_op \<Rightarrow> bool" where
  "printed_alike p q \<longleftrightarrow>
     output_name p = output_name q \<and> kind p = kind q \<and> inputs p = inputs q \<and>
     shape (result_type p) = shape (result_type q) \<and> elem_type (result_type p) = elem_type (result_type q)"

lemma set_join_items: "c \<in> set (join_str '', '' (map f xs)) \<Longrightarrow> c = CHR '','' \<or> c = CHR '' '' \<or> (\<exists>x \<in> set xs. c \<in> set (f x))"
  using set_join_str [of "'', ''" "map f xs"] by auto

lemma debug_func_chars:
  "CHR ''('' \<notin> set (debug_unary f)" "CHR 0x0A \<notin> set (debug_unary f)"
  "CHR ''('' \<notin> set (debug_binary g)" "CHR 0x0A \<notin> set (debug_binary g)"
  "CHR ''('' \<notin> set (debug_bool b)" "CHR 0x0A \<notin> set (debug_bool b)"
  by ((cases f; simp), (cases f; simp), (cases g; simp), (cases g; simp), simp_all add: debug_bool_def)

lemma debug_list_chars:
  "CHR ''('' \<notin> set (debug_list (map signed_text is))" "CHR 0x0A \<notin> set (debug_list (map signed_text is))"
  "CHR ''('' \<notin> set (debug_list (map unsigned_text ns))" "CHR 0x0A \<notin> set (debug_list (map unsigned_text ns))"
  by (auto simp: debug_list_def text_chars dest!: set_join_items)

lemma debug_kind_chars:
  assumes "float_text fs"
  shows "CHR ''('' \<notin> set (debug_kind fs k)" "CHR 0x0A \<notin> set (debug_kind fs k)"
  using assms
  by (cases k; simp add: debug_kind_def debug_field_def float_text_def debug_func_chars debug_list_chars
      text_chars)+

lemma show_tensor_line: "CHR 0x0A \<notin> set (show_tensor t)"
proof -
  have "CHR 0x0A \<notin> set (show_dim d)" for d
    by (cases d) (auto simp: dec_int_def dec_chars)
  then have "CHR 0x0A \<notin> set (show_dims b ds)" for b ds
    by (induction b ds rule: show_dims.induct) auto
  moreover have "CHR 0x0A \<notin> set (mlir_name e)" for e by (cases e) simp_all
  ultimately show ?thesis by (simp add: show_tensor_def)
qed

lemma ident_items:
  assumes "list_all ident xs"
  shows "list_all item xs" "CHR '')'' \<notin> set (join_str '', '' xs)" "CHR 0x0A \<notin> set (join_str '', '' xs)"
proof -
  have "x \<in> set xs \<Longrightarrow> ident x" for x using assms by (simp add: list_all_iff)
  then show "list_all item xs" by (force simp: list_all_iff item_def ident_def)
  show "CHR '')'' \<notin> set (join_str '', '' xs)" "CHR 0x0A \<notin> set (join_str '', '' xs)"
    using set_join_str [of "'', ''" xs] \<open>\<And>x. x \<in> set xs \<Longrightarrow> ident x\<close> by (auto simp: ident_def)
qed

text \<open>A line of the dump, without its end.\<close>

definition dump_line :: "(f64 \<Rightarrow> string) \<Rightarrow> omni_op \<Rightarrow> string" where
  "dump_line fs p =
     ''  %'' @ output_name p @ '' = omni.'' @ debug_kind fs (kind p) @ ''('' @
     join_str '', '' (inputs p) @ '') : '' @ show_tensor (result_type p)"

lemma dump_line_no_break:
  assumes "float_text fs" and "dumpable p"
  shows "CHR 0x0A \<notin> set (dump_line fs p)"
  using assms ident_items(3) [of "inputs p"] debug_kind_chars [OF assms(1)] show_tensor_line
  by (simp add: dump_line_def dumpable_def ident_def)

lemma dump_line_inject:
  assumes fs: "float_text fs" and p: "dumpable p" and q: "dumpable q"
    and eq: "dump_line fs p = dump_line fs q"
  shows "printed_alike p q"
proof -
  have "CHR '' '' \<notin> set (output_name p)" "CHR '' '' \<notin> set (output_name q)"
    and i: "list_all ident (inputs p)" "list_all ident (inputs q)"
    using p q by (auto simp: dumpable_def ident_def)
  with eq have "output_name p = output_name q"
    and "debug_kind fs (kind p) @ CHR ''('' # join_str '', '' (inputs p) @ '') : '' @ show_tensor (result_type p) =
      debug_kind fs (kind q) @ CHR ''('' # join_str '', '' (inputs q) @ '') : '' @ show_tensor (result_type q)"
    by (simp_all add: dump_line_def until_char)
  moreover from this(2) have "debug_kind fs (kind p) = debug_kind fs (kind q)"
    and "join_str '', '' (inputs p) @ CHR '')'' # '' : '' @ show_tensor (result_type p) =
      join_str '', '' (inputs q) @ CHR '')'' # '' : '' @ show_tensor (result_type q)"
    using debug_kind_chars(1) [OF fs] by (simp_all add: until_char)
  moreover from this(2) have "join_str '', '' (inputs p) = join_str '', '' (inputs q)"
    and "show_tensor (result_type p) = show_tensor (result_type q)"
    using ident_items(2) [OF i(1)] ident_items(2) [OF i(2)] by (simp_all add: until_char)
  moreover from this(1) have "inputs p = inputs q"
    using join_str_inject [OF ident_items(1) [OF i(1)] ident_items(1) [OF i(2)]] by blast
  moreover have "inj fs" using fs by (simp add: float_text_def)
  ultimately show ?thesis
    using debug_kind_inject [of fs "kind p" "kind q"] show_tensor_inject [of "result_type p" "result_type q"]
    unfolding printed_alike_def by blast
qed

lemma dump_lines: "concat (map (dump_op fs) ps) = concat (map (\<lambda>p. dump_line fs p @ nl) ps)"
  by (simp add: dump_op_def [abs_def] dump_line_def)

lemma dump_ops_inject:
  assumes fs: "float_text fs"
  shows "list_all dumpable ps \<Longrightarrow> list_all dumpable qs \<Longrightarrow>
    concat (map (\<lambda>p. dump_line fs p @ nl) ps) @ ''}'' = concat (map (\<lambda>p. dump_line fs p @ nl) qs) @ ''}'' \<Longrightarrow>
    list_all2 printed_alike ps qs"
proof (induction ps arbitrary: qs)
  case Nil
  then show ?case by (cases qs) (auto simp: dump_line_def)
next
  case (Cons p ps)
  show ?case
  proof (cases qs)
    case Nil
    with Cons.prems show ?thesis by (auto simp: dump_line_def)
  next
    case (Cons q qs')
    with Cons.prems dump_line_no_break [OF fs] have "dump_line fs p = dump_line fs q"
      and "concat (map (\<lambda>p. dump_line fs p @ nl) ps) @ ''}'' = concat (map (\<lambda>p. dump_line fs p @ nl) qs') @ ''}''"
      by (simp_all add: until_char)
    with Cons Cons.prems Cons.IH [of qs'] dump_line_inject [OF fs] show ?thesis by simp
  qed
qed

section \<open>Property\<close>

text \<open>C26: The dump of a module shows all of its operations: two modules over plain names with the same
  dump have the same operations in the same order, up to identifiers, attributes and encodings,
  which are not printed.\<close>

theorem dump_injective:
  assumes "float_text fs" and "list_all dumpable (ops m)" and "list_all dumpable (ops m')"
    and "dump fs m = dump fs m'"
  shows "list_all2 printed_alike (ops m) (ops m')"
  using dump_ops_inject [OF assms(1-3)] assms(4) by (simp add: dump_def dump_lines)

text \<open>One such form of the doubles.\<close>

fun plain_float :: "f64 \<Rightarrow> string" where
  "plain_float NaN = ''NaN''"
| "plain_float (Infinity s) = (if s then ''-inf'' else ''inf'')"
| "plain_float (Finite s m e) = (if s then ''-'' else ''+'') @ dec m @ ''e'' @ dec_int e"

lemma plain_float_text: "float_text plain_float"
proof -
  have "CHR ''i'' \<notin> set (dec m)" for m by (simp add: dec_chars)
  then have n: "dec m @ ''e'' @ t \<noteq> ''inf''" "''inf'' \<noteq> dec m @ ''e'' @ t" for m t
    by (auto simp: append_eq_Cons_conv Cons_eq_append_conv)
  have "inj plain_float"
  proof (rule injI)
    show "x = y" if "plain_float x = plain_float y" for x y
      using that n by (cases x; cases y) (auto simp: until_char dec_chars split: if_splits)
  qed
  moreover have "CHR ''('' \<notin> set (plain_float x) \<and> CHR 0x0A \<notin> set (plain_float x)" for x
    by (cases x) (auto simp: dec_int_def dec_chars)
  ultimately show ?thesis by (simp add: float_text_def)
qed

definition softmax_op :: omni_op where
  "softmax_op = \<lparr>op_id = 0, kind = Softmax (- 1), inputs = [''x''], output_name = ''y'',
     op_attrs = Map.empty, result_type = static_tensor [4] F32\<rparr>"

theorem dump_injective_witness:
  "list_all2 printed_alike (ops (snd (push_op softmax_op module_new)))
     (ops (module_new\<lparr>ops := [softmax_op\<lparr>op_id := 7, op_attrs := [''axis'' \<mapsto> AttrInt 1]\<rparr>]\<rparr>))"
  by (rule dump_injective [OF plain_float_text])
    (simp_all add: softmax_op_def push_op_def module_new_def dumpable_def ident_def dump_def dump_op_def)

end
