(* ===== verification/Passes_Shape.thy ===== *)
theory Passes_Shape
  imports Passes
begin

text \<open>
  The form of an optimized module: folding is idempotent, fusion and elimination only take
  operations away, and every matrix product that is left carries the tiles of its backend.
\<close>

section \<open>Folding twice\<close>

lemma fold_binary_ok:
  "fold_binary f cs p = Inr (cs', q) \<Longrightarrow>
     \<exists>v. cs' = cs(output_name p \<mapsto> v) \<and> q = p\<lparr>kind := Fill v\<rparr>"
  by (auto simp: fold_binary_def Let_def split: list.splits)

lemma fold_op_again:
  assumes "fold_op cs p = Inr (cs', q)"
  shows "fold_op cs q = Inr (cs', q)"
proof (cases "(kind p = Add \<or> kind p = Mul) \<and> list_all (\<lambda>i. cs i \<noteq> None) (inputs p)")
  case True
  with assms have "fold_binary (fadd binary64) cs p = Inr (cs', q) \<or> fold_binary (fmul binary64) cs p = Inr (cs', q)"
    by (auto simp: fold_op_def)
  then show ?thesis by (auto dest!: fold_binary_ok simp: fold_op_def)
next
  case False
  with assms have "q = p"
    by (cases "kind p") (auto simp: fold_op_def Let_def split: if_splits)
  with assms show ?thesis by simp
qed

lemma fold_ops_again: "fold_ops cs ps = Inr qs \<Longrightarrow> fold_ops cs qs = Inr qs"
proof (induction ps arbitrary: cs qs)
  case (Cons p ps)
  then obtain cs' q where q: "fold_op cs p = Inr (cs', q)" by (auto split: sum.splits)
  with Cons.prems obtain qs' where "fold_ops cs' ps = Inr qs'" "qs = q # qs'"
    by (cases "fold_ops cs' ps") auto
  with Cons.IH [of cs' qs'] fold_op_again [OF q] show ?case by simp
qed simp

lemma fold_ops_folded:
  "fold_ops cs ps = Inr qs \<Longrightarrow> list_all2 folded ps qs"
proof (induction ps arbitrary: cs qs)
  case (Cons p ps)
  then obtain cs' q where q: "fold_op cs p = Inr (cs', q)" by (auto split: sum.splits)
  with Cons.prems obtain qs' where "fold_ops cs' ps = Inr qs'" "qs = q # qs'"
    by (cases "fold_ops cs' ps") auto
  moreover have "folded p q"
    using q by (cases "kind p")
      (auto simp: fold_op_def folded_def Let_def split: if_splits dest!: fold_binary_ok)
  ultimately show ?case using Cons.IH by simp
qed simp

text \<open>Constant folding finishes its work in one pass: running it again changes nothing, in any
  module.\<close>

theorem constant_folding_idempotent:
  assumes "run_constant_folding m = Inr m'"
  shows "run_constant_folding m' = Inr m'"
proof -
  obtain qs where "fold_ops Map.empty (ops m) = Inr qs" "m' = m\<lparr>ops := qs\<rparr>"
    using assms by (cases "fold_ops Map.empty (ops m)") (auto simp: run_constant_folding_def)
  then show ?thesis by (simp add: run_constant_folding_def fold_ops_again)
qed

theorem constant_folding_idempotent_witness:
  "\<exists>m'. run_constant_folding sum_module = Inr m' \<and> run_constant_folding m' = Inr m'"
proof -
  have "\<exists>m'. run_constant_folding sum_module = Inr m'"
    by (simp add: sum_module_def module_eval run_constant_folding_def fold_op_def fold_binary_def)
  then show ?thesis using constant_folding_idempotent by blast
qed

section \<open>What is left\<close>

lemma fuse_ops_outputs:
  "length (fuse_ops ps) \<le> length ps \<and> set (map output_name (fuse_ops ps)) \<subseteq> set (map output_name ps)"
  by (induction ps rule: fuse_ops.induct) (auto simp: fuse_def Let_def)

lemma dce_sweep_subset: "length (dce_sweep n refs ps) \<le> length ps \<and> set (dce_sweep n refs ps) \<subseteq> set ps"
proof (induction ps arbitrary: refs)
  case (Cons p ps)
  show ?case using Cons.IH [of "set (inputs p) \<union> refs"] Cons.IH [of refs] by (auto simp: Let_def)
qed simp

lemma run_dce_subset: "length (ops (run_dce m)) \<le> length (ops m) \<and> set (ops (run_dce m)) \<subseteq> set (ops m)"
  using dce_sweep_subset [of "op_count m" "{}" "rev (ops m)"] by (simp add: run_dce_def)

lemma tile_op_outputs [simp]: "output_name (tile_op t p) = output_name p"
  by (simp add: tile_op_def)

definition tiled :: "i64 \<Rightarrow> omni_op \<Rightarrow> bool" where
  "tiled t p \<longleftrightarrow>
     (kind p = MatMul \<or> kind p = BatchedMatMul \<longrightarrow>
        op_attrs p ''tile_m'' = Some (AttrInt t) \<and> op_attrs p ''tile_n'' = Some (AttrInt t) \<and>
        op_attrs p ''tile_k'' = Some (AttrInt 16) \<and> op_attrs p ''vector_width'' = Some (AttrInt 4))"

lemma tiled_tile_op: "tiled t (tile_op t p)"
  by (simp add: tiled_def tile_op_def)

lemma run_fusion_outputs:
  "length (ops (run_operator_fusion m)) \<le> length (ops m) \<and>
   set (map output_name (ops (run_operator_fusion m))) \<subseteq> set (map output_name (ops m))"
  using fuse_ops_outputs [of "ops m"] by (simp add: run_operator_fusion_def)

lemma run_folding_outputs:
  assumes "run_constant_folding m = Inr m'"
  shows "map output_name (ops m') = map output_name (ops m)"
proof -
  obtain qs where qs: "fold_ops Map.empty (ops m) = Inr qs" "m' = m\<lparr>ops := qs\<rparr>"
    using assms by (cases "fold_ops Map.empty (ops m)") (auto simp: run_constant_folding_def)
  from fold_ops_folded [OF qs(1)] have "map output_name (ops m) = map output_name qs"
    by (induction rule: list_all2_induct) (simp_all add: folded_def)
  with qs(2) show ?thesis by simp
qed

text \<open>C29: Whenever the pipeline succeeds, on any module, the optimized module has at most as many
  operations, defines only values that the module defined, and every matrix product left in it
  carries the tile sizes of the backend.\<close>

theorem optimized_module_shape:
  assumes "run_passes hw m = Inr m'"
  shows "length (ops m') \<le> length (ops m) \<and>
    set (map output_name (ops m')) \<subseteq> set (map output_name (ops m)) \<and>
    list_all (tiled (tile_size (target_backend hw))) (ops m')"
proof -
  obtain m1 where m1: "run_constant_folding m = Inr m1"
    and m': "m' = run_dce (run_loop_tiling hw (run_operator_fusion m1))"
    using assms by (auto simp: run_passes_def Let_def split: sum.splits)
  let ?m3 = "run_loop_tiling hw (run_operator_fusion m1)"
  have tiling: "ops ?m3 = map (tile_op (tile_size (target_backend hw))) (ops (run_operator_fusion m1))"
    by (simp add: run_loop_tiling_def)
  have "length (ops m1) = length (ops m)"
    using run_folding_outputs [OF m1] by (metis length_map)
  then have "length (ops m') \<le> length (ops m)"
    using run_dce_subset [of ?m3] run_fusion_outputs [of m1] by (simp add: m' tiling)
  moreover have "set (map output_name (ops m')) \<subseteq> set (map output_name (ops ?m3))"
    using run_dce_subset [of ?m3] by (auto simp: m')
  then have "set (map output_name (ops m')) \<subseteq> set (map output_name (ops m))"
    using run_fusion_outputs [of m1] unfolding tiling run_folding_outputs [OF m1]
    by (simp add: comp_def) blast
  moreover have "list_all (tiled (tile_size (target_backend hw))) (ops m')"
    using run_dce_subset [of ?m3] tiled_tile_op by (auto simp: m' tiling list_all_iff)
  ultimately show ?thesis by blast
qed

theorem optimized_module_shape_witness:
  "\<exists>m'. run_passes (cpu_fallback kfd_machine) relu_module = Inr m' \<and> length (ops m') \<le> 2"
proof -
  have "length (ops relu_module) = 2" by (simp add: relu_module_def module_eval)
  moreover have "\<exists>m'. run_passes (cpu_fallback kfd_machine) relu_module = Inr m'"
    by (simp add: run_passes_def run_constant_folding_def relu_module_def module_eval fold_op_def)
  ultimately show ?thesis using optimized_module_shape by metis
qed

end
