(* ===== verification/Simt_Kernels.thy ===== *)
theory Simt_Kernels
  imports Tiled_Matmul Ieee_Float
begin

text \<open>
  Execution of the emitted kernels by the threads of a launch. A matrix kernel is run block by
  block; in a block the threads load the tiles of a phase, meet at a barrier, accumulate, and meet
  at a barrier again. Between barriers the threads run in any order, which is an argument for each
  phase. An elementwise kernel is run by all threads in any order. Matrices hold integers and
  indices are natural numbers: the rounding of the element type and the overflow of the kernels'
  32-bit indices, on matrices of \<open>2^31\<close> cells, are not modelled.
\<close>

section \<open>The matrix kernel\<close>

type_synonym thread = "nat \<times> nat"

text \<open>Shared memory and the variable \<open>sum\<close> of each thread.\<close>

record block_state =
  tile_a :: matrix
  tile_b :: matrix
  acc :: matrix

definition block_threads :: "kernel_config \<Rightarrow> thread set" where
  "block_threads c = {..<block_y c} \<times> {..<block_x c}"

text \<open>The dimensions of the matrices.\<close>

record matmul_args =
  arg_a :: matrix
  arg_b :: matrix
  dim_m :: nat
  dim_n :: nat
  dim_k :: nat

definition load_tiles ::
  "kernel_config \<Rightarrow> matmul_args \<Rightarrow> nat \<Rightarrow> nat \<Rightarrow> nat \<Rightarrow> thread \<Rightarrow> block_state \<Rightarrow> block_state" where
  "load_tiles c args gy gx ph th st =
     (let (ty, tx) = th;
          row = gy * tile_rows c + ty;
          col = gx * tile_cols c + tx;
          a = (if row < dim_m args \<and> ph * tile_depth c + tx < dim_k args
               then arg_a args row (ph * tile_depth c + tx) else 0);
          b = (if ph * tile_depth c + ty < dim_k args \<and> col < dim_n args
               then arg_b args (ph * tile_depth c + ty) col else 0)
      in st\<lparr>tile_a := (tile_a st)(ty := (tile_a st ty)(tx := a)),
            tile_b := (tile_b st)(ty := (tile_b st ty)(tx := b))\<rparr>)"

definition accumulate :: "kernel_config \<Rightarrow> thread \<Rightarrow> block_state \<Rightarrow> block_state" where
  "accumulate c th st =
     (let (ty, tx) = th;
          s = acc st ty tx + (\<Sum>k < tile_depth c. tile_a st ty k * tile_b st k tx)
      in st\<lparr>acc := (acc st)(ty := (acc st ty)(tx := s))\<rparr>)"

text \<open>One round of the loop over \<open>ph\<close>, with the order of the threads before and after its first
  barrier.\<close>

definition run_phase ::
  "kernel_config \<Rightarrow> matmul_args \<Rightarrow> nat \<Rightarrow> nat \<Rightarrow> (nat \<Rightarrow> thread list) \<Rightarrow> (nat \<Rightarrow> thread list) \<Rightarrow>
   nat \<Rightarrow> block_state \<Rightarrow> block_state" where
  "run_phase c args gy gx loads macs ph st =
     fold (accumulate c) (macs ph) (fold (load_tiles c args gy gx ph) (loads ph) st)"

definition run_block ::
  "kernel_config \<Rightarrow> matmul_args \<Rightarrow> nat \<Rightarrow> nat \<Rightarrow> (nat \<Rightarrow> thread list) \<Rightarrow> (nat \<Rightarrow> thread list) \<Rightarrow>
   block_state \<Rightarrow> block_state" where
  "run_block c args gy gx loads macs st =
     fold (run_phase c args gy gx loads macs)
       [0..<(dim_k args + tile_depth c - 1) div tile_depth c] st"

text \<open>The guarded store, after the fused activation \<open>post\<close>.\<close>

definition store_cell ::
  "kernel_config \<Rightarrow> matmul_args \<Rightarrow> (int \<Rightarrow> int) \<Rightarrow> nat \<Rightarrow> nat \<Rightarrow> block_state \<Rightarrow> thread \<Rightarrow> matrix \<Rightarrow> matrix" where
  "store_cell c args post gy gx st th C =
     (let (ty, tx) = th;
          row = gy * tile_rows c + ty;
          col = gx * tile_cols c + tx
      in if row < dim_m args \<and> col < dim_n args
         then C(row := (C row)(col := post (acc st ty tx))) else C)"

text \<open>A schedule fixes all orders of a block, and what its shared memory holds at the start.\<close>

record schedule =
  load_order :: "nat \<Rightarrow> thread list"
  mac_order :: "nat \<Rightarrow> thread list"
  store_order :: "thread list"
  junk_a :: matrix
  junk_b :: matrix

definition schedule_ok :: "kernel_config \<Rightarrow> schedule \<Rightarrow> bool" where
  "schedule_ok c s \<longleftrightarrow>
     (\<forall>ph. set (load_order s ph) = block_threads c) \<and>
     (\<forall>ph. distinct (mac_order s ph) \<and> set (mac_order s ph) = block_threads c) \<and>
     set (store_order s) = block_threads c"

definition run_matmul_block ::
  "kernel_config \<Rightarrow> matmul_args \<Rightarrow> (int \<Rightarrow> int) \<Rightarrow> (nat \<times> nat \<Rightarrow> schedule) \<Rightarrow> nat \<times> nat \<Rightarrow> matrix \<Rightarrow> matrix" where
  "run_matmul_block c args post sched g C =
     (let (gy, gx) = g; s = sched g;
          st = run_block c args gy gx (load_order s) (mac_order s)
                 \<lparr>tile_a = junk_a s, tile_b = junk_b s, acc = (\<lambda>ty tx. 0)\<rparr>
      in fold (store_cell c args post gy gx st) (store_order s) C)"

text \<open>The blocks of the grid, in any order.\<close>

definition run_matmul ::
  "kernel_config \<Rightarrow> matmul_args \<Rightarrow> (int \<Rightarrow> int) \<Rightarrow> (nat \<times> nat \<Rightarrow> schedule) \<Rightarrow> (nat \<times> nat) list \<Rightarrow> matrix \<Rightarrow> matrix" where
  "run_matmul c args post sched blocks C = fold (run_matmul_block c args post sched) blocks C"

section \<open>Phases\<close>

lemma fold_load_acc: "acc (fold (load_tiles c args gy gx ph) ths st) = acc st"
  by (induction ths arbitrary: st) (simp_all add: load_tiles_def Let_def split: prod.split)

lemma fold_load_tile_a:
  "tile_a (fold (load_tiles c args gy gx ph) ths st) ty tx =
     (if (ty, tx) \<in> set ths
      then (if gy * tile_rows c + ty < dim_m args \<and> ph * tile_depth c + tx < dim_k args
            then arg_a args (gy * tile_rows c + ty) (ph * tile_depth c + tx) else 0)
      else tile_a st ty tx)"
  by (induction ths arbitrary: st) (auto simp: load_tiles_def Let_def split: prod.split)

lemma fold_load_tile_b:
  "tile_b (fold (load_tiles c args gy gx ph) ths st) ty tx =
     (if (ty, tx) \<in> set ths
      then (if ph * tile_depth c + ty < dim_k args \<and> gx * tile_cols c + tx < dim_n args
            then arg_b args (ph * tile_depth c + ty) (gx * tile_cols c + tx) else 0)
      else tile_b st ty tx)"
  by (induction ths arbitrary: st) (auto simp: load_tiles_def Let_def split: prod.split)

lemma fold_accumulate_tiles [simp]:
  "tile_a (fold (accumulate c) ths st) = tile_a st" "tile_b (fold (accumulate c) ths st) = tile_b st"
  by (induction ths arbitrary: st) (simp_all add: accumulate_def Let_def split: prod.split)

lemma fold_accumulate:
  "distinct ths \<Longrightarrow> acc (fold (accumulate c) ths st) ty tx =
     acc st ty tx + (if (ty, tx) \<in> set ths
                     then (\<Sum>k < tile_depth c. tile_a st ty k * tile_b st k tx) else 0)"
  by (induction ths arbitrary: st) (auto simp: accumulate_def Let_def split: prod.split)

text \<open>In a block with its tiles' dimensions every thread adds the products that \<open>thread_sum\<close> sums.\<close>

lemma run_phase_acc:
  assumes ok: "schedule_ok c s" and c: "consistent c" and th: "(ty, tx) \<in> block_threads c"
  shows "acc (run_phase c args gy gx (load_order s) (mac_order s) ph st) ty tx =
    acc st ty tx + (\<Sum>k < tile_depth c.
      shared_a c junk (arg_a args) (dim_m args) (dim_k args) gy ph ty k *
      shared_b c junk (arg_b args) (dim_n args) (dim_k args) gx ph k tx)"
proof -
  let ?st = "fold (load_tiles c args gy gx ph) (load_order s ph) st"
  from th have t: "ty < block_y c" "tx < block_x c" by (simp_all add: block_threads_def)
  have "tile_a ?st ty k = shared_a c junk (arg_a args) (dim_m args) (dim_k args) gy ph ty k"
    "tile_b ?st k tx = shared_b c junk (arg_b args) (dim_n args) (dim_k args) gx ph k tx"
    if "k < tile_depth c" for k
    using ok c t that
    by (simp_all add: fold_load_tile_a fold_load_tile_b schedule_ok_def block_threads_def
        consistent_def shared_a_def shared_b_def Let_def)
  moreover have "acc (run_phase c args gy gx (load_order s) (mac_order s) ph st) ty tx =
      acc st ty tx + (\<Sum>k < tile_depth c. tile_a ?st ty k * tile_b ?st k tx)"
    using ok th by (simp add: run_phase_def fold_accumulate fold_load_acc schedule_ok_def)
  ultimately show ?thesis by simp
qed

lemma run_phases_acc:
  assumes "schedule_ok c s" and "consistent c" and "(ty, tx) \<in> block_threads c"
  shows "acc (fold (run_phase c args gy gx (load_order s) (mac_order s)) [0..<n] st) ty tx =
    acc st ty tx + (\<Sum>ph < n. \<Sum>k < tile_depth c.
      shared_a c junk (arg_a args) (dim_m args) (dim_k args) gy ph ty k *
      shared_b c junk (arg_b args) (dim_n args) (dim_k args) gx ph k tx)"
proof (induction n)
  case (Suc n)
  then show ?case using run_phase_acc [OF assms, of args gy gx n _ junk] by simp
qed simp

lemma run_block_acc:
  assumes "schedule_ok c s" and "consistent c" and "(ty, tx) \<in> block_threads c"
    and "gy * tile_rows c + ty < dim_m args" and "gx * tile_cols c + tx < dim_n args"
  shows "acc (run_block c args gy gx (load_order s) (mac_order s) st) ty tx =
    acc st ty tx +
    (\<Sum>k < dim_k args. arg_a args (gy * tile_rows c + ty) k * arg_b args k (gx * tile_cols c + tx))"
proof -
  let ?junk = "\<lambda>i j. 0 :: int"
  have "writes c (gy * tile_rows c + ty) (gx * tile_cols c + tx) gy gx ty tx"
    using assms(3) by (simp add: writes_def block_threads_def)
  from thread_sum_correct [OF assms(2) this assms(4,5), of ?junk "arg_a args" "arg_b args" "dim_k args"]
  show ?thesis
    unfolding run_block_def run_phases_acc [OF assms(1-3), where junk = ?junk] thread_sum_def by simp
qed

section \<open>Stores\<close>

lemma store_cell_eq:
  assumes "consistent c" and "(ty, tx) \<in> block_threads c"
  shows "store_cell c args post gy gx st (ty, tx) C row col =
    (if row < dim_m args \<and> col < dim_n args \<and> row div tile_rows c = gy \<and> col div tile_cols c = gx \<and>
        row mod tile_rows c = ty \<and> col mod tile_cols c = tx
     then post (acc st ty tx) else C row col)"
proof -
  from assms have "ty < tile_rows c" "tx < tile_cols c"
    by (auto simp: block_threads_def consistent_def)
  then have "row = gy * tile_rows c + ty \<longleftrightarrow> row div tile_rows c = gy \<and> row mod tile_rows c = ty"
    "col = gx * tile_cols c + tx \<longleftrightarrow> col div tile_cols c = gx \<and> col mod tile_cols c = tx"
    using div_mult_mod_eq [of row "tile_rows c"] div_mult_mod_eq [of col "tile_cols c"] by auto
  then show ?thesis by (auto simp: store_cell_def Let_def)
qed

lemma fold_store:
  assumes "consistent c" and "set ths \<subseteq> block_threads c"
  shows "fold (store_cell c args post gy gx st) ths C row col =
    (if row < dim_m args \<and> col < dim_n args \<and> row div tile_rows c = gy \<and> col div tile_cols c = gx \<and>
        (row mod tile_rows c, col mod tile_cols c) \<in> set ths
     then post (acc st (row mod tile_rows c) (col mod tile_cols c)) else C row col)"
  using assms(2)
proof (induction ths arbitrary: C)
  case (Cons th ths)
  obtain ty tx where th: "th = (ty, tx)" by (cases th)
  with Cons.prems have "(ty, tx) \<in> block_threads c" "set ths \<subseteq> block_threads c" by auto
  then show ?case
    unfolding th by (simp add: Cons.IH store_cell_eq [OF assms(1)]) auto
qed simp

lemma run_matmul_block_cell:
  assumes c: "consistent c" and s: "schedule_ok c (sched (gy, gx))"
  shows "run_matmul_block c args post sched (gy, gx) C row col =
    (if row < dim_m args \<and> col < dim_n args \<and> row div tile_rows c = gy \<and> col div tile_cols c = gx
     then post (\<Sum>k < dim_k args. arg_a args row k * arg_b args k col) else C row col)"
proof -
  have th: "(row mod tile_rows c, col mod tile_cols c) \<in> block_threads c"
    using c by (simp add: block_threads_def consistent_def)
  have set: "set (store_order (sched (gy, gx))) = block_threads c"
    using s by (simp add: schedule_ok_def)
  show ?thesis
    using run_block_acc [OF s c th, of gy args gx] th
    by (auto simp: run_matmul_block_def Let_def fold_store [OF c] set)
qed

lemma run_matmul_cell:
  assumes "consistent c" and "\<And>g. g \<in> set blocks \<Longrightarrow> schedule_ok c (sched g)"
  shows "run_matmul c args post sched blocks C row col =
    (if row < dim_m args \<and> col < dim_n args \<and> (row div tile_rows c, col div tile_cols c) \<in> set blocks
     then post (\<Sum>k < dim_k args. arg_a args row k * arg_b args k col) else C row col)"
  using assms(2)
proof (induction blocks arbitrary: C)
  case (Cons g blocks)
  obtain gy gx where g: "g = (gy, gx)" by (cases g)
  with Cons.prems have "schedule_ok c (sched (gy, gx))" by simp
  from run_matmul_block_cell [OF assms(1), of sched gy gx, OF this] Cons show ?case
    by (auto simp: run_matmul_def g)
qed (simp add: run_matmul_def)

section \<open>Elementwise kernels\<close>

text \<open>
  A thread is its block in the grid and its position in the block; its index is
  \<open>blockIdx.x * blockDim.x + threadIdx.x\<close>, whatever the other dimensions of the block are.
\<close>

type_synonym grid_thread = "nat \<times> nat \<times> nat"

definition grid_threads :: "nat \<Rightarrow> nat \<Rightarrow> nat \<Rightarrow> grid_thread set" where
  "grid_threads grid_x bx by = {..<grid_x} \<times> {..<by} \<times> {..<bx}"

definition elementwise_thread ::
  "nat \<Rightarrow> nat \<Rightarrow> (nat \<Rightarrow> 'a) \<Rightarrow> grid_thread \<Rightarrow> (nat \<Rightarrow> 'a) \<Rightarrow> nat \<Rightarrow> 'a" where
  "elementwise_thread bx n f th out =
     (let (block, ty, tx) = th; idx = block * bx + tx
      in if idx < n then out(idx := f idx) else out)"

definition run_elementwise ::
  "nat \<Rightarrow> nat \<Rightarrow> (nat \<Rightarrow> 'a) \<Rightarrow> grid_thread list \<Rightarrow> (nat \<Rightarrow> 'a) \<Rightarrow> nat \<Rightarrow> 'a" where
  "run_elementwise bx n f ths out = fold (elementwise_thread bx n f) ths out"

text \<open>The bodies: \<open>x > 0 ? x : 0\<close>, the sum and the copy.\<close>

definition relu_value :: "f32 \<Rightarrow> f32" where
  "relu_value x = (if flt (literal binary32 0 1) x then x else literal binary32 0 1)"

definition relu_body :: "(nat \<Rightarrow> f32) \<Rightarrow> nat \<Rightarrow> f32" where
  "relu_body x idx = relu_value (x idx)"

definition add_body :: "(nat \<Rightarrow> f32) \<Rightarrow> (nat \<Rightarrow> f32) \<Rightarrow> nat \<Rightarrow> f32" where
  "add_body a b idx = fadd binary32 (a idx) (b idx)"

definition copy_body :: "(nat \<Rightarrow> f32) \<Rightarrow> nat \<Rightarrow> f32" where
  "copy_body x idx = x idx"

lemma run_elementwise_cell:
  "run_elementwise bx n f ths out i =
     (if i < n \<and> (\<exists>(block, ty, tx) \<in> set ths. i = block * bx + tx) then f i else out i)"
  unfolding run_elementwise_def
  by (induction ths arbitrary: out) (auto simp: elementwise_thread_def Let_def split: prod.split)

lemma relu_value_nonneg: "nonneg (relu_value x)"
proof -
  have z: "literal binary32 0 (Suc 0) = Finite False 0 0" by (simp add: float_eval)
  show ?thesis using flt_pos [of 0 0 x] by (auto simp: relu_value_def z simp del: flt.simps)
qed

section \<open>Properties\<close>

text \<open>The model of the emitted matrix kernel, run by all blocks of a grid that covers the result, leaves the
  product there, with the fused activation applied, and every other cell as it was: for every
  order of the blocks and every order of the threads between two barriers, and whatever shared
  memory held before. The thread block has to have the dimensions of the tiles.\<close>

theorem matmul_kernel_correct:
  assumes "consistent c" and "\<And>g. schedule_ok c (sched g)"
    and "set blocks = {..<gm} \<times> {..<gn}"
    and "dim_m args \<le> gm * tile_rows c" and "dim_n args \<le> gn * tile_cols c"
  shows "run_matmul c args post sched blocks C =
    (\<lambda>row col. if row < dim_m args \<and> col < dim_n args
               then post (\<Sum>k < dim_k args. arg_a args row k * arg_b args k col) else C row col)"
proof (intro ext)
  fix row col
  have "row div tile_rows c < gm" if "row < dim_m args"
    using that assms(4) by (simp add: less_mult_imp_div_less)
  moreover have "col div tile_cols c < gn" if "col < dim_n args"
    using that assms(5) by (simp add: less_mult_imp_div_less)
  ultimately show "run_matmul c args post sched blocks C row col =
      (if row < dim_m args \<and> col < dim_n args
       then post (\<Sum>k < dim_k args. arg_a args row k * arg_b args k col) else C row col)"
    using run_matmul_cell [OF assms(1,2), where blocks = blocks] assms(3) by auto
qed

definition small_config :: kernel_config where
  "small_config = \<lparr>tile_rows = 2, tile_cols = 2, tile_depth = 2, block_x = 2, block_y = 2\<rparr>"

definition small_args :: matmul_args where
  "small_args = \<lparr>arg_a = (\<lambda>i k. int (i + k)), arg_b = (\<lambda>k j. int (k * 2 + j)),
                 dim_m = 3, dim_n = 1, dim_k = 3\<rparr>"

definition row_major :: schedule where
  "row_major = \<lparr>load_order = (\<lambda>ph. List.product [0..<2] [0..<2]),
                mac_order = (\<lambda>ph. rev (List.product [0..<2] [0..<2])),
                store_order = List.product [0..<2] [0..<2],
                junk_a = (\<lambda>i j. 7), junk_b = (\<lambda>i j. 7)\<rparr>"

theorem matmul_kernel_correct_witness:
  "run_matmul small_config small_args (max 0) (\<lambda>g. row_major) [(1, 0), (0, 0)] (\<lambda>i j. - 1) 2 0 = 22 \<and>
   run_matmul small_config small_args (max 0) (\<lambda>g. row_major) [(1, 0), (0, 0)] (\<lambda>i j. - 1) 2 1 = - 1"
proof -
  have "consistent small_config" by (simp add: consistent_def small_config_def)
  moreover have "schedule_ok small_config row_major"
    by (auto simp: schedule_ok_def row_major_def small_config_def block_threads_def distinct_product)
  moreover have "set [(1, 0), (0, 0)] = {..<2::nat} \<times> {..<1::nat}"
    by (auto simp: less_Suc_eq numeral_2_eq_2)
  ultimately have "run_matmul small_config small_args (max 0) (\<lambda>g. row_major) [(1, 0), (0, 0)] (\<lambda>i j. - 1) =
    (\<lambda>row col. if row < dim_m small_args \<and> col < dim_n small_args
       then max 0 (\<Sum>k < dim_k small_args. arg_a small_args row k * arg_b small_args k col) else - 1)"
    by (rule matmul_kernel_correct) (simp_all add: small_config_def small_args_def)
  then show ?thesis by (simp add: small_args_def numeral_3_eq_3)
qed

text \<open>An elementwise kernel computes its body at every index below \<open>n\<close> and touches nothing else,
  for every order of the threads, when the grid has enough blocks in the first dimension. Further
  dimensions of the block only repeat the work, so the 8 by 8 blocks that a preceding matrix
  product leaves behind are harmless as well.\<close>

theorem elementwise_kernel_correct:
  assumes "set ths = grid_threads grid_x bx by" and "0 < bx" and "0 < by" and "n \<le> grid_x * bx"
  shows "run_elementwise bx n f ths out = (\<lambda>i. if i < n then f i else out i)"
proof
  fix i
  have "(i div bx, 0, i mod bx) \<in> set ths" if "i < n"
    using assms that by (auto simp: grid_threads_def less_mult_imp_div_less)
  moreover have "i = i div bx * bx + i mod bx" by simp
  ultimately have "i < n \<Longrightarrow> \<exists>(block, ty, tx) \<in> set ths. i = block * bx + tx" by blast
  then show "run_elementwise bx n f ths out i = (if i < n then f i else out i)"
    by (auto simp: run_elementwise_cell)
qed

theorem elementwise_kernel_correct_witness:
  "run_elementwise 2 3 (relu_body (\<lambda>i. Finite (i = 1) 1 0))
     [(1, 0, 1), (1, 0, 0), (0, 0, 1), (0, 0, 0)] (\<lambda>i. NaN) =
   (\<lambda>i. if i < 3 then relu_value (Finite (i = 1) 1 0) else NaN)"
proof -
  have "set [(1, 0, 1), (1, 0, 0), (0, 0, 1), (0, 0, 0)] = grid_threads 2 2 1"
    by (auto simp: grid_threads_def less_Suc_eq numeral_2_eq_2)
  from elementwise_kernel_correct [OF this, of 3 "relu_body (\<lambda>i. Finite (i = 1) 1 0)" "\<lambda>i. NaN"]
  show ?thesis by (simp add: relu_body_def cong: if_cong)
qed

end
