(* ===== verification/Emitted_Code.thy ===== *)
theory Emitted_Code
  imports Jit Simt_Kernels
begin

text \<open>
  What the text of a generated kernel declares: one entry point per operation, the name that the
  kernel reports, and what fusion leaves of an activation. The loop over the operations is common
  to the three generators, so its facts are proved in a locale over one lowering step.
\<close>

section \<open>One piece of code per operation\<close>

definition entry_name :: "omni_op \<Rightarrow> string" where
  "entry_name p =
     (case kind p of
        MatMul \<Rightarrow> ''omni_matmul_'' | BatchedMatMul \<Rightarrow> ''omni_matmul_'' | Relu \<Rightarrow> ''omni_relu_''
      | Add \<Rightarrow> ''omni_add_'' | Opaque h \<Rightarrow> ''omni_fallback_'' | _ \<Rightarrow> []) @ dec (unat (op_id p))"

locale kernel_emitter =
  fixes lower :: "omni_op \<Rightarrow> emitter \<Rightarrow> codegen_error + emitter"
    and declares :: "omni_op \<Rightarrow> string \<Rightarrow> bool"
  assumes lower_piece: "lower p (code, name, blk) = Inr (code', name', blk') \<Longrightarrow>
    \<exists>piece. code' = code @ piece \<and> declares p piece \<and> name' = entry_name p"
begin

lemma lower_ops_pieces:
  "lower_ops lower ps (code, name, blk) = Inr (code', name', blk') \<Longrightarrow>
   \<exists>pieces. code' = code @ concat pieces \<and> list_all2 declares ps pieces \<and>
     name' = (if ps = [] then name else entry_name (last ps))"
proof (induction ps arbitrary: code name blk)
  case (Cons p ps)
  then obtain code1 name1 blk1 where 1: "lower p (code, name, blk) = Inr (code1, name1, blk1)"
    and 2: "lower_ops lower ps (code1, name1, blk1) = Inr (code', name', blk')"
    by (auto split: sum.splits)
  obtain piece where "code1 = code @ piece" "declares p piece" "name1 = entry_name p"
    using lower_piece [OF 1] by blast
  moreover obtain pieces where "code' = code1 @ concat pieces" "list_all2 declares ps pieces"
    "name' = (if ps = [] then name1 else entry_name (last ps))"
    using Cons.IH [OF 2] by blast
  ultimately show ?case
    by (intro exI [of _ "piece # pieces"]) auto
qed simp

lemma generate_pieces:
  assumes "map_sum id finish_kernel (lower_ops lower (ops m) (header, name, blk)) = Inr k"
  shows "\<exists>pieces. payload k = bytes_of (header @ concat pieces) \<and> list_all2 declares (ops m) pieces \<and>
    kernel_name k = (if ops m = [] then name else entry_name (last (ops m)))"
proof -
  obtain code' name' blk' where "lower_ops lower (ops m) (header, name, blk) = Inr (code', name', blk')"
    "k = finish_kernel (code', name', blk')"
    using assms by (cases "lower_ops lower (ops m) (header, name, blk)") auto
  with lower_ops_pieces [OF this(1)] show ?thesis by (force simp: bytes_of_def)
qed

end

section \<open>The three generators\<close>

definition amd_declares :: "omni_op \<Rightarrow> string \<Rightarrow> bool" where
  "amd_declares p piece \<longleftrightarrow> sublist (''__global__ void '' @ entry_name p @ ''('') piece"

definition metal_declares :: "omni_op \<Rightarrow> string \<Rightarrow> bool" where
  "metal_declares p piece \<longleftrightarrow> sublist (''kernel void '' @ entry_name p @ ''('') piece"

definition spirv_declares :: "omni_op \<Rightarrow> string \<Rightarrow> bool" where
  "spirv_declares p piece \<longleftrightarrow> sublist (''void main() {'' @ nl) piece"

lemma sublist_embed: "sublist pat l \<Longrightarrow> sublist pat (xs @ l @ ys)"
proof -
  assume "sublist pat l"
  then obtain us vs where "l = us @ pat @ vs" by (auto simp: sublist_def)
  then have "xs @ l @ ys = (xs @ us) @ pat @ (vs @ ys)" by simp
  then show ?thesis unfolding sublist_def by blast
qed

lemma sublist_line:
  "sublist pat (l @ nl) \<Longrightarrow> sublist pat (text_lines (l # ls))"
  "sublist pat (text_lines ls) \<Longrightarrow> sublist pat (text_lines (l # ls))"
  using sublist_embed [of pat "l @ nl" "[]" "text_lines ls"]
    sublist_embed [of pat "text_lines ls" "l @ nl" "[]"] by simp_all

text \<open>The declaration of an entry point of any name in a line of any template.\<close>

lemma amd_declaration:
  "sublist (''__global__ void '' @ name @ ''('') (''extern '' @ dquote @ ''C'' @ dquote @ '' __global__ void '' @ name @ ''('' @ rest)"
  using sublist_embed [of "''__global__ void '' @ name @ ''(''" "''__global__ void '' @ name @ ''(''"
      "''extern '' @ dquote @ ''C'' @ dquote @ '' ''" rest]
  by simp

lemma amd_pieces:
  "sublist (''__global__ void '' @ name @ ''('') (amd_matmul name dtype m n k)"
  "sublist (''__global__ void '' @ name @ ''('') (amd_relu name dtype)"
  "sublist (''__global__ void '' @ name @ ''('') (amd_add name dtype)"
  "sublist (''__global__ void '' @ name @ ''('') (amd_fallback name h)"
proof -
  show "sublist (''__global__ void '' @ name @ ''('') (amd_matmul name dtype m n k)"
    unfolding amd_matmul_def by (rule sublist_line(1)) (use amd_declaration [of name nl] in simp)
  show "sublist (''__global__ void '' @ name @ ''('') (amd_relu name dtype)"
    unfolding amd_relu_def by (rule sublist_line(1)) (use amd_declaration [of name] in simp)
  show "sublist (''__global__ void '' @ name @ ''('') (amd_add name dtype)"
    unfolding amd_add_def by (rule sublist_line(1)) (use amd_declaration [of name] in simp)
  show "sublist (''__global__ void '' @ name @ ''('') (amd_fallback name h)"
    unfolding amd_fallback_def
    by (rule sublist_line(2), rule sublist_line(1)) (use amd_declaration [of name] in simp)
qed

lemma metal_declaration: "sublist (''kernel void '' @ name @ ''('') (''kernel void '' @ name @ ''('' @ rest)"
  using sublist_embed [of "''kernel void '' @ name @ ''(''" "''kernel void '' @ name @ ''(''" "[]" rest]
  by simp

lemma metal_pieces:
  "sublist (''kernel void '' @ name @ ''('') (metal_matmul name dtype m n k)"
  "sublist (''kernel void '' @ name @ ''('') (metal_relu name dtype)"
  "sublist (''kernel void '' @ name @ ''('') (metal_add name dtype)"
  "sublist (''kernel void '' @ name @ ''('') (metal_fallback name h)"
proof -
  show "sublist (''kernel void '' @ name @ ''('') (metal_matmul name dtype m n k)"
    unfolding metal_matmul_def by (rule sublist_line(1)) (use metal_declaration [of name nl] in simp)
  show "sublist (''kernel void '' @ name @ ''('') (metal_relu name dtype)"
    unfolding metal_relu_def by (rule sublist_line(1)) (use metal_declaration [of name nl] in simp)
  show "sublist (''kernel void '' @ name @ ''('') (metal_add name dtype)"
    unfolding metal_add_def by (rule sublist_line(1)) (use metal_declaration [of name nl] in simp)
  show "sublist (''kernel void '' @ name @ ''('') (metal_fallback name h)"
    unfolding metal_fallback_def
    by (rule sublist_line(2), rule sublist_line(1)) (use metal_declaration [of name nl] in simp)
qed

lemma spirv_pieces:
  "sublist (''void main() {'' @ nl) (spirv_matmul dtype m n k)"
  "sublist (''void main() {'' @ nl) (spirv_relu dtype)"
  "sublist (''void main() {'' @ nl) (spirv_add dtype)"
  "sublist (''void main() {'' @ nl) (spirv_fallback h)"
  unfolding spirv_matmul_def spirv_relu_def spirv_add_def spirv_fallback_def
  by (rule sublist_line(1) [where l = "''void main() {''", OF sublist_order.order_refl] sublist_line(2))+


text \<open>The matrix kernels end with the activation and the store, after the declaration.\<close>

lemma amd_lower_matmul_declares: "sublist (''__global__ void '' @ name @ ''('') (amd_lower_matmul p name)"
  using sublist_embed [OF amd_pieces(1), of name "[]"] by (simp add: amd_lower_matmul_def Let_def)

lemma metal_lower_matmul_declares: "sublist (''kernel void '' @ name @ ''('') (metal_lower_matmul p name)"
  using sublist_embed [OF metal_pieces(1), of name "[]"] by (simp add: metal_lower_matmul_def Let_def)

lemma spirv_lower_matmul_declares: "sublist (''void main() {'' @ nl) (spirv_lower_matmul p)"
  using sublist_embed [OF spirv_pieces(1), of "[]"] by (simp add: spirv_lower_matmul_def Let_def)

interpretation amd_code: kernel_emitter amd_lower_op amd_declares
proof
  show "\<exists>piece. code' = code @ piece \<and> amd_declares p piece \<and> name' = entry_name p"
    if "amd_lower_op p (code, name, blk) = Inr (code', name', blk')" for p code name blk code' name' blk'
    using that amd_lower_matmul_declares [of "entry_name p" p] amd_pieces(2-4) [of "entry_name p"]
    by (cases "kind p") (auto simp: amd_lower_op_def Let_def amd_declares_def entry_name_def)
qed

interpretation metal_code: kernel_emitter metal_lower_op metal_declares
proof
  show "\<exists>piece. code' = code @ piece \<and> metal_declares p piece \<and> name' = entry_name p"
    if "metal_lower_op p (code, name, blk) = Inr (code', name', blk')" for p code name blk code' name' blk'
    using that metal_lower_matmul_declares [of "entry_name p" p] metal_pieces(2-4) [of "entry_name p"]
    by (cases "kind p") (auto simp: metal_lower_op_def Let_def metal_declares_def entry_name_def)
qed

interpretation spirv_code: kernel_emitter spirv_lower_op spirv_declares
proof
  show "\<exists>piece. code' = code @ piece \<and> spirv_declares p piece \<and> name' = entry_name p"
    if "spirv_lower_op p (code, name, blk) = Inr (code', name', blk')" for p code name blk code' name' blk'
    using that spirv_lower_matmul_declares [of p] spirv_pieces(2-4)
    by (cases "kind p") (auto simp: spirv_lower_op_def Let_def spirv_declares_def entry_name_def)
qed


section \<open>Entry points\<close>

definition emits :: "target_backend \<Rightarrow> omni_op \<Rightarrow> string \<Rightarrow> bool" where
  "emits b =
     (case b of AmdRocm g w c \<Rightarrow> amd_declares | AppleMetal n u c \<Rightarrow> metal_declares | _ \<Rightarrow> spirv_declares)"

lemma emitted_pieces:
  "amd_generate m = Inr k \<Longrightarrow> \<exists>pieces. payload k = bytes_of (amd_header @ concat pieces) \<and> list_all2 amd_declares (ops m) pieces \<and>
     kernel_name k = (if ops m = [] then ''omni_kernel'' else entry_name (last (ops m)))"
  "metal_generate m = Inr k \<Longrightarrow> \<exists>pieces. payload k = bytes_of (metal_header @ concat pieces) \<and> list_all2 metal_declares (ops m) pieces \<and>
     kernel_name k = (if ops m = [] then ''omni_kernel'' else entry_name (last (ops m)))"
  "spirv_generate m = Inr k \<Longrightarrow> \<exists>pieces. payload k = bytes_of (spirv_header @ concat pieces) \<and> list_all2 spirv_declares (ops m) pieces \<and>
     kernel_name k = (if ops m = [] then ''omni_kernel'' else entry_name (last (ops m)))"
  unfolding amd_generate_def metal_generate_def spirv_generate_def
  by (rule amd_code.generate_pieces metal_code.generate_pieces spirv_code.generate_pieces, assumption)+

text \<open>The text of a kernel is a header followed by one piece per operation of the module, in
  their order, each of which declares its operation's entry point; the name that the kernel reports
  is the entry point of the last operation.\<close>

theorem generated_entry_points:
  assumes "generate_for b m = Inr k" and "ops m \<noteq> []"
  shows "kernel_name k = entry_name (last (ops m)) \<and>
    (\<exists>header pieces. payload k = bytes_of (header @ concat pieces) \<and>
       list_all2 (emits b) (ops m) pieces)"
proof -
  have "kernel_name k = (if ops m = [] then ''omni_kernel'' else entry_name (last (ops m))) \<and>
    (\<exists>header pieces. payload k = bytes_of (header @ concat pieces) \<and>
       list_all2 (emits b) (ops m) pieces)"
    using assms(1) by (cases b) (simp_all only: generate_for.simps emits_def target_backend.case,
        (blast dest: emitted_pieces)+)
  with assms(2) show ?thesis by simp
qed

lemma relu_module_kernels: "\<exists>k. generate_for b relu_module = Inr k" "ops relu_module \<noteq> []"
  by (cases b) (simp_all add: relu_module_def module_eval amd_generate_def metal_generate_def
      spirv_generate_def amd_lower_op_def metal_lower_op_def spirv_lower_op_def)

theorem generated_entry_points_witness:
  "\<exists>k. generate_for (AmdRocm ''gfx90a'' 64 104) relu_module = Inr k \<and>
     kernel_name k = entry_name (last (ops relu_module))"
  using generated_entry_points relu_module_kernels by blast

text \<open>How often a text contains a non-empty pattern.\<close>

fun occurrences :: "'a list \<Rightarrow> 'a list \<Rightarrow> nat" where
  "occurrences pat [] = 0"
| "occurrences pat (x # xs) = (if prefix pat (x # xs) then 1 else 0) + occurrences pat xs"

lemma occurrences_append: "occurrences pat xs + occurrences pat ys \<le> occurrences pat (xs @ ys)"
proof (induction xs)
  case (Cons x xs)
  have "prefix pat (x # xs) \<Longrightarrow> prefix pat (x # xs @ ys)"
    using prefix_prefix [of pat "x # xs" ys] by simp
  with Cons show ?case by simp
qed simp

lemma occurrences_sublist:
  assumes "sublist pat xs" and "pat \<noteq> []"
  shows "1 \<le> occurrences pat xs"
proof -
  obtain us vs where xs: "xs = us @ pat @ vs" using assms(1) by (auto simp: sublist_def)
  have "1 \<le> occurrences pat (pat @ vs)"
    using assms(2) prefixI [of "pat @ vs" pat vs] by (cases pat) simp_all
  with xs occurrences_append [of pat us "pat @ vs"] show ?thesis by simp
qed

lemma occurrences_pieces:
  "list_all2 (\<lambda>p piece. sublist pat piece) ps pieces \<Longrightarrow> pat \<noteq> [] \<Longrightarrow>
   length ps \<le> occurrences pat (concat pieces)"
proof (induction rule: list_all2_induct)
  case (Cons p ps piece pieces)
  then show ?case
    using occurrences_sublist [of pat piece] occurrences_append [of pat piece "concat pieces"] by simp
qed simp

text \<open>The SPIR-V generator, which also serves the CPU and remote backends, emits a \<open>main\<close> for
  every operation of the module, so the shader of a module with several operations defines \<open>main\<close>
  several times.\<close>

theorem spirv_mains:
  assumes "spirv_generate m = Inr k"
  shows "\<exists>code. payload k = bytes_of code \<and>
    length (ops m) \<le> occurrences (''void main() {'' @ nl) code"
proof -
  obtain pieces where pieces: "payload k = bytes_of (spirv_header @ concat pieces)"
    "list_all2 spirv_declares (ops m) pieces"
    using emitted_pieces(3) [OF assms] by blast
  have "length (ops m) \<le> occurrences (''void main() {'' @ nl) (concat pieces)"
    using pieces(2) by (intro occurrences_pieces) (simp_all add: spirv_declares_def [abs_def])
  then have "length (ops m) \<le> occurrences (''void main() {'' @ nl) (spirv_header @ concat pieces)"
    using occurrences_append [of "''void main() {'' @ nl" spirv_header "concat pieces"] by linarith
  with pieces(1) show ?thesis by blast
qed

theorem spirv_mains_witness:
  "\<exists>k code. spirv_generate relu_module = Inr k \<and> payload k = bytes_of code \<and>
     2 \<le> occurrences (''void main() {'' @ nl) code"
proof -
  obtain k where k: "spirv_generate relu_module = Inr k"
    using relu_module_kernels(1) [of "CpuVectorized 4 256"] by auto
  have "length (ops relu_module) = 2" by (simp add: relu_module_def module_eval)
  then show ?thesis using k spirv_mains [OF k] by metis
qed

section \<open>Fused additions\<close>

text \<open>The lowering of a matrix product reads its id, its element type, and its attributes; an
  activation that the generator does not know emits nothing.\<close>

lemma activation_add [simp]:
  "amd_activation ''Add'' = []" "metal_activation ''Add'' = []" "spirv_activation ''Add'' = []"
  by (simp_all add: amd_activation_def metal_activation_def spirv_activation_def)

lemma fuse_add_simps:
  assumes "kind q = Add"
  shows "kind (fuse p q) = kind p" "op_id (fuse p q) = op_id p" "result_type (fuse p q) = result_type q"
    "op_attrs (fuse p q) = (op_attrs p)(''fused_activation'' \<mapsto> AttrString ''Add'')"
  using assms by (simp_all add: fuse_def Let_def)

text \<open>An addition that the fusion pass merges into a matrix product is not in the generated code:
  the kernel of the fused operation is the kernel of the product alone.\<close>

theorem fused_addition_is_dropped:
  assumes "fusible p q" and "kind q = Add" and "op_attrs p ''fused_activation'' = None"
    and "elem_type (result_type q) = elem_type (result_type p)"
  shows "generate_for b (m\<lparr>ops := [fuse p q]\<rparr>) = generate_for b (m\<lparr>ops := [p]\<rparr>)"
proof -
  have kind: "kind p = MatMul \<or> kind p = BatchedMatMul" using assms(1) by (auto simp: fusible_def)
  have attr: "int_attr (fuse p q) key = int_attr p key" if "key \<noteq> ''fused_activation''" for key
    using that by (intro ext) (simp add: int_attr_def fuse_add_simps [OF assms(2)])
  show ?thesis
    using kind assms(3,4) fuse_add_simps [OF assms(2), of p]
    by (cases b) (auto simp: amd_generate_def metal_generate_def spirv_generate_def
        amd_lower_op_def metal_lower_op_def spirv_lower_op_def Let_def
        amd_lower_matmul_def metal_lower_matmul_def spirv_lower_matmul_def attr)
qed

theorem fused_addition_is_dropped_witness:
  "\<forall>b. generate_for b
       (module_new\<lparr>ops := [fuse (plain_op MatMul [''a'', ''b''] ''c'') (plain_op Add [''c'', ''d''] ''e'')]\<rparr>) =
     generate_for b (module_new\<lparr>ops := [plain_op MatMul [''a'', ''b''] ''c'']\<rparr>)"
  by (intro allI, rule fused_addition_is_dropped) (simp_all add: plain_op_def fusible_def)

section \<open>Shared memory\<close>

text \<open>Every index that a thread of the block uses is inside \<open>sA[tile_m][tile_k]\<close> and
  \<open>sB[tile_k][tile_n]\<close>: the stores \<open>sA[ty][tx]\<close>, \<open>sB[ty][tx]\<close> and the loads \<open>sA[ty][k]\<close>, \<open>sB[k][tx]\<close>.\<close>

definition in_bounds :: "kernel_config \<Rightarrow> bool" where
  "in_bounds c \<longleftrightarrow>
     block_y c \<le> tile_rows c \<and> block_x c \<le> tile_depth c \<and>
     block_y c \<le> tile_depth c \<and> block_x c \<le> tile_cols c"

lemma in_bounds_accesses:
  assumes "in_bounds c" and "(ty, tx) \<in> block_threads c"
  shows "ty < tile_rows c \<and> tx < tile_depth c \<and> ty < tile_depth c \<and> tx < tile_cols c"
  using assms by (auto simp: in_bounds_def block_threads_def)

fun on_gpu :: "target_backend \<Rightarrow> bool" where
  "on_gpu (AmdRocm g w c) = True"
| "on_gpu (AppleMetal n u c) = True"
| "on_gpu (VulkanGeneric n i) = True"
| "on_gpu _ = False"

text \<open>C35: With the tile sizes of the tiling pass, the matrix kernels of the three GPU backends stay
  inside their shared tiles, and those of the CPU and remote backends, whose tiles have 8 rows for
  the 16 rows of threads of a block, do not.\<close>

theorem shared_memory_bounds:
  assumes "ops m = [p]" and "kind p = MatMul"
  shows "\<exists>k. generate_for b (m\<lparr>ops := [tile_op (tile_size b) p]\<rparr>) = Inr k \<and>
    (in_bounds (launch_config (tile_op (tile_size b) p) (block_size k)) \<longleftrightarrow> on_gpu b)"
proof -
  let ?p = "tile_op (tile_size b) p"
  let ?m = "m\<lparr>ops := [?p]\<rparr>"
  have attrs: "int_attr ?p ''tile_m'' 0 = tile_size b" "int_attr ?p ''tile_n'' 0 = tile_size b"
    "int_attr ?p ''tile_k'' 0 = 16"
    using assms(2) by (simp_all add: tile_op_def int_attr_def)
  obtain k where "generate_for b ?m = Inr k"
    "block_size k = (case b of AmdRocm g w c \<Rightarrow> (8, 8, 1) | AppleMetal n u c \<Rightarrow> (8, 8, 1) | _ \<Rightarrow> (16, 16, 1))"
    using generate_for_matmul_block [of ?m ?p b] assms(2) by (cases "generate_for b ?m") auto
  with attrs show ?thesis by (cases b) (simp_all add: in_bounds_def)
qed

theorem shared_memory_bounds_witness:
  "\<exists>k. generate_for (CpuVectorized 4 256)
      (module_new\<lparr>ops := [tile_op 8 (plain_op MatMul [''a'', ''b''] ''c'')]\<rparr>) = Inr k \<and>
     \<not> in_bounds (launch_config (tile_op 8 (plain_op MatMul [''a'', ''b''] ''c'')) (block_size k))"
  using shared_memory_bounds
    [of "module_new\<lparr>ops := [plain_op MatMul [''a'', ''b''] ''c'']\<rparr>" "plain_op MatMul [''a'', ''b''] ''c''"
      "CpuVectorized 4 256"]
  by (simp add: plain_op_def)

end
