(* ===== verification/Jit_Threads.thy ===== *)
theory Jit_Threads
  imports Jit
begin

text \<open>
  Compilations of several threads at once on one engine: \<open>compile_ptx\<close> and \<open>clear_cache\<close> of
  \<open>omni-core/src/jit.rs\<close> take \<open>&self\<close> and share only the concurrent map \<open>kernel_cache\<close>. A call is a
  lookup, a compilation without shared state, and an insertion; between these steps any other
  thread may run.
\<close>

section \<open>Steps of a call\<close>

text \<open>Where a thread stands inside \<open>compile_ptx\<close>: the hash, with the request or the kernel.\<close>

datatype jit_pc = Idle | Compiling u64 "u8 list" u64 | Inserting u64 "u8 list" u64 generated_kernel

type_synonym jit_return = "(u8 list \<times> u64) \<times> (jit_error + generated_kernel)"

text \<open>Each step gives the next position and, when the call returns, its result.\<close>

definition jit_lookup :: "u8 list \<Rightarrow> u64 \<Rightarrow> jit_engine \<Rightarrow> jit_pc \<times> jit_return option" where
  "jit_lookup ptx_bytes kernel_id j =
     (let kernel_hash = hash_ptx ptx_bytes kernel_id in
      case kernel_cache j kernel_hash of
        Some cached \<Rightarrow> (Idle, Some ((ptx_bytes, kernel_id), Inr cached))
      | None \<Rightarrow> (Compiling kernel_hash ptx_bytes kernel_id, None))"

definition jit_compile :: "u64 \<Rightarrow> u8 list \<Rightarrow> u64 \<Rightarrow> hardware_profile \<Rightarrow> jit_pc \<times> jit_return option" where
  "jit_compile kernel_hash ptx_bytes kernel_id hw =
     (case compile_fresh hw ptx_bytes kernel_id of
        Inl e \<Rightarrow> (Idle, Some ((ptx_bytes, kernel_id), Inl e))
      | Inr compiled \<Rightarrow> (Inserting kernel_hash ptx_bytes kernel_id compiled, None))"

definition jit_insert :: "u64 \<Rightarrow> generated_kernel \<Rightarrow> jit_engine \<Rightarrow> jit_engine" where
  "jit_insert kernel_hash compiled j =
     j\<lparr>kernel_cache := (kernel_cache j)(kernel_hash \<mapsto> compiled)\<rparr>"

text \<open>A step of a thread inside a call, total in its position.\<close>

fun jit_advance :: "jit_pc \<Rightarrow> jit_engine \<Rightarrow> jit_pc \<times> jit_return option \<times> jit_engine" where
  "jit_advance Idle j = (Idle, None, j)"
| "jit_advance (Compiling h bs i) j = (let (pc, r) = jit_compile h bs i (jit_hardware j) in (pc, r, j))"
| "jit_advance (Inserting h bs i k) j = (Idle, Some ((bs, i), Inr k), jit_insert h k j)"

text \<open>A call that is not interrupted is \<open>compile_ptx\<close>.\<close>

lemma uninterrupted_call:
  "compile_ptx bs i j =
     (case jit_lookup bs i j of
        (_, Some (_, r)) \<Rightarrow> (r, j)
      | (pc, None) \<Rightarrow>
          (case jit_advance pc j of
             (_, Some (_, r), j') \<Rightarrow> (r, j')
           | (pc', None, j') \<Rightarrow>
               (case jit_advance pc' j' of
                  (_, Some (_, r), j'') \<Rightarrow> (r, j'')
                | (_, None, j'') \<Rightarrow> (Inl (LiftError []), j''))))"
  by (simp add: compile_ptx_def jit_lookup_def jit_compile_def jit_insert_def Let_def
      split: option.split sum.split)

section \<open>Interleavings\<close>

text \<open>The engine, the position of every thread and the calls that have returned, the last one first.\<close>

record jit_threads =
  engine :: jit_engine
  pcs :: "nat \<Rightarrow> jit_pc"
  returned :: "jit_return list"

definition log_return :: "jit_return option \<Rightarrow> jit_return list \<Rightarrow> jit_return list" where
  "log_return r rs = (case r of None \<Rightarrow> rs | Some x \<Rightarrow> x # rs)"

text \<open>Clearing goes over the map part by part, so one step of it keeps some of the entries.\<close>

inductive jit_step :: "(u8 list \<times> u64) set \<Rightarrow> jit_threads \<Rightarrow> jit_threads \<Rightarrow> bool"
  for keys :: "(u8 list \<times> u64) set" where
  call:
    "(bs, i) \<in> keys \<Longrightarrow> pcs s t = Idle \<Longrightarrow> jit_lookup bs i (engine s) = (pc, r) \<Longrightarrow>
     jit_step keys s (s\<lparr>pcs := (pcs s)(t := pc), returned := log_return r (returned s)\<rparr>)"
| advance:
    "pcs s t \<noteq> Idle \<Longrightarrow> jit_advance (pcs s t) (engine s) = (pc, r, j) \<Longrightarrow>
     jit_step keys s (s\<lparr>engine := j, pcs := (pcs s)(t := pc), returned := log_return r (returned s)\<rparr>)"
| clear:
    "jit_step keys s (s\<lparr>engine := (engine s)\<lparr>kernel_cache := kernel_cache (engine s) |` kept\<rparr>\<rparr>)"

inductive jit_reach :: "hardware_profile \<Rightarrow> (u8 list \<times> u64) set \<Rightarrow> jit_threads \<Rightarrow> bool"
  for hw :: hardware_profile and keys :: "(u8 list \<times> u64) set" where
  start: "jit_reach hw keys \<lparr>engine = jit_new hw, pcs = (\<lambda>t. Idle), returned = []\<rparr>"
| next_step: "jit_reach hw keys s \<Longrightarrow> jit_step keys s s' \<Longrightarrow> jit_reach hw keys s'"

section \<open>Every returned kernel is the compiled one\<close>

fun pc_ok :: "hardware_profile \<Rightarrow> (u8 list \<times> u64) set \<Rightarrow> jit_pc \<Rightarrow> bool" where
  "pc_ok hw keys Idle = True"
| "pc_ok hw keys (Compiling h bs i) \<longleftrightarrow> (bs, i) \<in> keys \<and> h = hash_ptx bs i"
| "pc_ok hw keys (Inserting h bs i k) \<longleftrightarrow>
     (bs, i) \<in> keys \<and> h = hash_ptx bs i \<and> compile_fresh hw bs i = Inr k"

definition return_ok :: "hardware_profile \<Rightarrow> jit_return \<Rightarrow> bool" where
  "return_ok hw x = (case x of ((bs, i), r) \<Rightarrow> r = compile_fresh hw bs i)"

definition threads_ok :: "hardware_profile \<Rightarrow> (u8 list \<times> u64) set \<Rightarrow> jit_threads \<Rightarrow> bool" where
  "threads_ok hw keys s \<longleftrightarrow>
     jit_hardware (engine s) = hw \<and> cache_ok keys (engine s) \<and> (\<forall>t. pc_ok hw keys (pcs s t)) \<and>
     list_all (return_ok hw) (returned s)"

lemma return_ok_simps [simp]:
  "return_ok hw ((bs, i), r) \<longleftrightarrow> r = compile_fresh hw bs i"
  "list_all (return_ok hw) (log_return None rs) \<longleftrightarrow> list_all (return_ok hw) rs"
  "list_all (return_ok hw) (log_return (Some x) rs) \<longleftrightarrow> return_ok hw x \<and> list_all (return_ok hw) rs"
  by (simp_all add: return_ok_def log_return_def)

lemma lookup_ok:
  assumes "threads_ok hw keys s" and "(bs, i) \<in> keys" and "jit_lookup bs i (engine s) = (pc, r)"
  shows "pc_ok hw keys pc \<and> list_all (return_ok hw) (log_return r (returned s))"
  using assms
  by (auto simp: threads_ok_def jit_lookup_def cache_ok_def Let_def split: option.splits)

lemma insert_ok:
  assumes "cache_ok keys j" and "(bs, i) \<in> keys" and "compile_fresh (jit_hardware j) bs i = Inr k"
    and "inj_on (\<lambda>(bs, i). hash_ptx bs i) keys"
  shows "cache_ok keys (jit_insert (hash_ptx bs i) k j)"
proof -
  have "hash_ptx cs l = hash_ptx bs i \<Longrightarrow> (cs, l) \<in> keys \<Longrightarrow> cs = bs \<and> l = i" for cs l
    using inj_onD [OF assms(4), of "(cs, l)" "(bs, i)"] assms(2) by simp
  then show ?thesis using assms(1,3) by (auto simp: cache_ok_def jit_insert_def)
qed

lemma advance_ok:
  assumes ok: "threads_ok hw keys s" and inj: "inj_on (\<lambda>(bs, i). hash_ptx bs i) keys"
    and step: "jit_advance (pcs s t) (engine s) = (pc, r, j)"
  shows "pc_ok hw keys pc \<and> list_all (return_ok hw) (log_return r (returned s)) \<and>
    cache_ok keys j \<and> jit_hardware j = hw"
proof (cases "pcs s t")
  case Idle
  then show ?thesis using ok step by (auto simp: threads_ok_def)
next
  case (Compiling h bs i)
  have "pc_ok hw keys (pcs s t)" using ok by (simp add: threads_ok_def)
  then show ?thesis
    using Compiling ok step
    by (cases "compile_fresh hw bs i") (auto simp: threads_ok_def jit_compile_def)
next
  case (Inserting h bs i k)
  have "pc_ok hw keys (pcs s t)" using ok by (simp add: threads_ok_def)
  then show ?thesis
    using Inserting ok step insert_ok [OF _ _ _ inj, of "engine s" bs i k]
    by (auto simp: threads_ok_def jit_insert_def)
qed

lemma step_ok:
  assumes "inj_on (\<lambda>(bs, i). hash_ptx bs i) keys"
  shows "jit_step keys s s' \<Longrightarrow> threads_ok hw keys s \<Longrightarrow> threads_ok hw keys s'"
proof (induction rule: jit_step.induct)
  case (call bs i s t pc r)
  with lookup_ok [OF call.prems call.hyps(1,3)] show ?case by (simp add: threads_ok_def)
next
  case (advance s t pc r j)
  with advance_ok [OF advance.prems assms advance.hyps(2)] show ?case by (simp add: threads_ok_def)
next
  case (clear s kept)
  then show ?case by (auto simp: threads_ok_def cache_ok_def restrict_map_def split: if_splits)
qed

lemma reach_ok:
  assumes "inj_on (\<lambda>(bs, i). hash_ptx bs i) keys"
  shows "jit_reach hw keys s \<Longrightarrow> threads_ok hw keys s"
proof (induction rule: jit_reach.induct)
  case start
  then show ?case by (simp add: threads_ok_def jit_new_def cache_ok_def)
qed (rule step_ok [OF assms])

text \<open>C16: The engine can be shared between threads: under every interleaving of lookups, compilations,
  insertions and partial clears, every call that returns has the result of a compilation without
  a cache, when no two of the requested kernels collide in their hash.\<close>

theorem concurrent_compilation_correct:
  assumes "jit_reach hw keys s" and "inj_on (\<lambda>(bs, i). hash_ptx bs i) keys"
    and "((bs, i), r) \<in> set (returned s)"
  shows "r = compile_fresh hw bs i"
  using reach_ok [OF assms(2,1)] assms(3) by (auto simp: threads_ok_def list_all_iff)

text \<open>Calls are wait-free: whatever the other threads do to the cache, a call returns after at most
  two steps that follow its lookup.\<close>

lemma call_wait_free:
  assumes "jit_lookup bs i j = (pc, r)"
  shows "fst (jit_advance (fst (jit_advance pc j')) j'') = Idle"
  using assms
  by (auto simp: jit_lookup_def jit_compile_def Let_def split: option.splits sum.splits)

text \<open>A run in which two threads miss on the same kernel, and both compile and insert it.\<close>

lemma advance_step:
  assumes "jit_reach hw keys \<lparr>engine = j, pcs = p, returned = rs\<rparr>" "p t = pc0"
    "pc0 \<noteq> Idle" "jit_advance pc0 j = (pc, r, j')"
  shows "jit_reach hw keys \<lparr>engine = j', pcs = p(t := pc), returned = log_return r rs\<rparr>"
  using next_step [OF assms(1) jit_step.advance [of _ t pc r j']] assms(2-4) by simp

lemma call_step:
  assumes "jit_reach hw keys \<lparr>engine = j, pcs = p, returned = rs\<rparr>" "(bs, i) \<in> keys" "p t = Idle"
    "jit_lookup bs i j = (pc, r)"
  shows "jit_reach hw keys \<lparr>engine = j, pcs = p(t := pc), returned = log_return r rs\<rparr>"
  using next_step [OF assms(1) jit_step.call [of bs i _ _ t pc r]] assms(2-4) by simp

lemma race_reachable:
  assumes "compile_fresh hw bs i = Inr k"
  shows "\<exists>s. jit_reach hw {(bs, i)} s \<and> returned s = [((bs, i), Inr k), ((bs, i), Inr k)]"
proof -
  let ?h = "hash_ptx bs i" and ?j0 = "jit_new hw"
  let ?j1 = "jit_insert ?h k ?j0" and ?R = "((bs, i), Inr k)"
  let ?p1 = "(\<lambda>t. Idle)(0 := Compiling ?h bs i)"
  let ?p2 = "?p1(1 := Compiling ?h bs i)"
  let ?p3 = "?p2(0 := Inserting ?h bs i k)"
  let ?p4 = "?p3(1 := Inserting ?h bs i k)"
  let ?p5 = "?p4(0 := Idle)"
  have look: "jit_lookup bs i ?j0 = (Compiling ?h bs i, None)"
    by (simp add: jit_lookup_def jit_new_def)
  have comp: "jit_advance (Compiling ?h bs i) ?j0 = (Inserting ?h bs i k, None, ?j0)"
    using assms by (simp add: jit_compile_def jit_new_def)
  have ins: "jit_advance (Inserting ?h bs i k) j = (Idle, Some ?R, jit_insert ?h k j)" for j by simp
  have 2: "jit_reach hw {(bs, i)} \<lparr>engine = ?j0, pcs = ?p2, returned = []\<rparr>"
    using call_step [OF call_step [OF start _ _ look, where t = 0] _ _ look, where t = 1]
    by (simp add: log_return_def)
  have 4: "jit_reach hw {(bs, i)} \<lparr>engine = ?j0, pcs = ?p4, returned = []\<rparr>"
    using advance_step [OF advance_step [OF 2 _ _ comp, where t = 0] _ _ comp, where t = 1]
    by (simp add: log_return_def)
  have "jit_reach hw {(bs, i)} \<lparr>engine = jit_insert ?h k ?j1, pcs = ?p5(1 := Idle), returned = [?R, ?R]\<rparr>"
    using advance_step [OF advance_step [OF 4 _ _ ins, where t = 0] _ _ ins, where t = 1]
    by (simp add: log_return_def)
  then show ?thesis by (intro exI conjI) (assumption, simp)
qed

lemma empty_opaque: "\<exists>h. classify_ptx [] = Opaque h"
  by (simp add: classify_ptx_def ptx_text_def Let_def string_of_bytes_def)

theorem concurrent_compilation_correct_witness:
  "\<exists>s r. jit_reach (cpu_fallback kfd_machine) {([], 0)} s \<and> length (returned s) = 2 \<and>
     (([], 0), r) \<in> set (returned s) \<and> r = compile_fresh (cpu_fallback kfd_machine) [] 0"
proof -
  obtain k where "compile_fresh (cpu_fallback kfd_machine) [] 0 = Inr k"
    using compile_fresh_name(2) [of "[]" _ "cpu_fallback kfd_machine" 0] empty_opaque
    by (cases "compile_fresh (cpu_fallback kfd_machine) [] 0") auto
  from race_reachable [OF this] obtain s where
    s: "jit_reach (cpu_fallback kfd_machine) {([], 0)} s" "returned s = [(([], 0), Inr k), (([], 0), Inr k)]"
    by blast
  then show ?thesis using concurrent_compilation_correct [OF s(1), of "[]" 0 "Inr k"] by auto
qed

end
