(* ===== verification/Shim_Api.thy ===== *)
theory Shim_Api
  imports Shim_Calls
begin

text \<open>
  The two APIs of the shim side by side. Memory obtained through either API can be released
  through either one and nothing leaks, and a program against the driver API behaves like its
  translation to the runtime API, up to the null checks that the driver copies do not make.
\<close>

section \<open>Obtaining and releasing blocks\<close>

datatype api = RuntimeApi | DriverApi

text \<open>Whether the call succeeds, with the next state; the out pointer is not null.\<close>

fun acquire_by :: "api \<Rightarrow> usize \<Rightarrow> u64 \<Rightarrow> shim \<Rightarrow> bool \<times> shim" where
  "acquire_by RuntimeApi n block st =
     (case cudaMalloc 8 n block st of (err, _, st') \<Rightarrow> (err = cudaSuccess, st'))"
| "acquire_by DriverApi n block st =
     (case cuMemAlloc 8 n block st of (err, _, st') \<Rightarrow> (err = CUDA_SUCCESS, st'))"

fun release_by :: "api \<Rightarrow> u64 \<Rightarrow> shim \<Rightarrow> bool \<times> shim" where
  "release_by RuntimeApi p st = (case cudaFree p st of (err, st') \<Rightarrow> (err = Some cudaSuccess, st'))"
| "release_by DriverApi p st = (case cuMemFree p st of (err, st') \<Rightarrow> (err = Some CUDA_SUCCESS, st'))"

text \<open>Sequences of such calls, and whether all of them succeed.\<close>

fun acquire_all ::
  "(usize \<Rightarrow> u64 \<Rightarrow> shim \<Rightarrow> bool \<times> shim) \<Rightarrow> (usize \<times> u64) list \<Rightarrow> shim \<Rightarrow> bool \<times> shim" where
  "acquire_all acq [] st = (True, st)"
| "acquire_all acq ((n, b) # rs) st =
     (case acq n b st of (ok, st1) \<Rightarrow>
        (case acquire_all acq rs st1 of (oks, st2) \<Rightarrow> (ok \<and> oks, st2)))"

fun release_all :: "(u64 \<Rightarrow> shim \<Rightarrow> bool \<times> shim) \<Rightarrow> u64 list \<Rightarrow> shim \<Rightarrow> bool \<times> shim" where
  "release_all rel [] st = (True, st)"
| "release_all rel (p # ps) st =
     (case rel p st of (ok, st1) \<Rightarrow>
        (case release_all rel ps st1 of (oks, st2) \<Rightarrow> (ok \<and> oks, st2)))"

lemma dom_map_of_swap: "dom (map_of (map (\<lambda>(n, b). (b, n)) rs)) = snd ` set rs"
  by (simp add: dom_map_of_conv_image_fst image_image split_beta)

text \<open>The contracts of the two operations on the states of the shim.\<close>

locale block_source =
  fixes acquire :: "usize \<Rightarrow> u64 \<Rightarrow> shim \<Rightarrow> bool \<times> shim"
  assumes acquire_inv: "shim_inv st \<Longrightarrow> b = 0 \<or> heap st b = None \<Longrightarrow> shim_inv (snd (acquire n b st))"
    and acquire_heap: "acquire n b st = (True, st') \<Longrightarrow> heap st' = (heap st)(b \<mapsto> n)"
    and acquire_fails: "acquire n b st = (False, st') \<Longrightarrow> st' = st"
begin

lemma acquire_all_heap:
  "acquire_all acquire rs st = (True, st') \<Longrightarrow> shim_inv st \<Longrightarrow> distinct (map snd rs) \<Longrightarrow>
   \<forall>r \<in> set rs. heap st (snd r) = None \<Longrightarrow>
   shim_inv st' \<and> heap st' = heap st ++ map_of (map (\<lambda>(n, b). (b, n)) rs)"
proof (induction rs arbitrary: st)
  case (Cons r rs)
  obtain n b where r: "r = (n, b)" by (cases r)
  from Cons.prems(1) r obtain st1 where 1: "acquire n b st = (True, st1)"
    and 2: "acquire_all acquire rs st1 = (True, st')"
    by (auto split: prod.splits)
  have "shim_inv st1" using acquire_inv [of st b n] Cons.prems(2,4) r 1 by simp
  moreover have h1: "heap st1 = (heap st)(b \<mapsto> n)" using 1 by (rule acquire_heap)
  moreover have "\<forall>r \<in> set rs. heap st1 (snd r) = None" using Cons.prems(3,4) r h1 by force
  moreover have "distinct (map snd rs)" using Cons.prems(3) by simp
  ultimately have inv: "shim_inv st'" and h: "heap st' = heap st1 ++ map_of (map (\<lambda>(n, b). (b, n)) rs)"
    using Cons.IH [OF 2] by blast+
  have "b \<notin> dom (map_of (map (\<lambda>(n, b). (b, n)) rs))"
    using Cons.prems(3) r by (simp add: dom_map_of_swap)
  then have "heap st' = heap st ++ map_of (map (\<lambda>(n, b). (b, n)) (r # rs))"
    unfolding h h1 r by (simp add: map_add_upd_left)
  with inv show ?case by blast
qed simp

end

locale block_sink =
  fixes release :: "u64 \<Rightarrow> shim \<Rightarrow> bool \<times> shim"
  assumes release_live: "shim_inv st \<Longrightarrow> heap st p \<noteq> None \<Longrightarrow>
      \<exists>st'. release p st = (True, st') \<and> shim_inv st' \<and> heap st' = (heap st)(p := None)"
    and release_dead: "shim_inv st \<Longrightarrow> heap st p = None \<Longrightarrow> p \<noteq> 0 \<Longrightarrow> release p st = (False, st)"
begin

lemma release_all_heap:
  "shim_inv st \<Longrightarrow> distinct ps \<Longrightarrow> set ps \<subseteq> dom (heap st) \<Longrightarrow>
   \<exists>st'. release_all release ps st = (True, st') \<and> shim_inv st' \<and> heap st' = heap st |` (- set ps)"
proof (induction ps arbitrary: st)
  case (Cons p ps)
  from Cons.prems obtain st1 where 1: "release p st = (True, st1)" "shim_inv st1"
    "heap st1 = (heap st)(p := None)" using release_live [of st p] by auto
  have "set ps \<subseteq> dom (heap st1)" using Cons.prems(2,3) unfolding 1(3) by auto
  moreover have "distinct ps" using Cons.prems(2) by simp
  ultimately obtain st' where 2: "release_all release ps st1 = (True, st')"
    "shim_inv st'" "heap st' = heap st1 |` (- set ps)" using Cons.IH [OF 1(2)] by blast
  have "heap st' = heap st |` (- set (p # ps))"
    unfolding 2(3) 1(3) by (auto simp: restrict_map_def fun_eq_iff)
  with 1(1) 2(1,2) show ?case by simp
qed (simp add: restrict_map_def)

lemma release_twice:
  assumes "shim_inv st" and "heap st p \<noteq> None" and "p \<noteq> 0"
  shows "\<exists>st'. release_all release [p, p] st = (False, st') \<and> release p st = (True, st')"
proof -
  obtain st' where "release p st = (True, st')" "shim_inv st'" "heap st' = (heap st)(p := None)"
    using release_live [OF assms(1,2)] by blast
  with release_dead [of st' p] assms(3) show ?thesis by simp
qed

end

locale memory_api = block_source + block_sink
begin

lemma release_what_was_acquired:
  assumes "acquire_all acquire rs st = (True, st')" and "shim_inv st" and "distinct (map snd rs)"
    and "\<forall>r \<in> set rs. heap st (snd r) = None" and "distinct ps" and "set ps = snd ` set rs"
  shows "\<exists>st''. release_all release ps st' = (True, st'') \<and> shim_inv st'' \<and> heap st'' = heap st"
proof -
  let ?m = "map_of (map (\<lambda>(n, b). (b, n)) rs)"
  have dom: "dom ?m = set ps"
    using assms(6) by (simp add: dom_map_of_swap)
  from acquire_all_heap [OF assms(1-4)] have inv: "shim_inv st'" and h: "heap st' = heap st ++ ?m"
    by blast+
  have "set ps \<subseteq> dom (heap st')" using dom h by auto
  from release_all_heap [OF inv assms(5) this] obtain st'' where
    "release_all release ps st' = (True, st'')" "shim_inv st''" "heap st'' = heap st' |` (- set ps)"
    by blast
  moreover have "(heap st ++ ?m) |` (- set ps) = heap st"
  proof
    fix x
    have "x \<in> set ps \<Longrightarrow> heap st x = None" using assms(4,6) by auto
    moreover have "x \<notin> set ps \<Longrightarrow> ?m x = None" using dom by auto
    ultimately show "((heap st ++ ?m) |` (- set ps)) x = heap st x"
      by (cases "x \<in> set ps") (simp_all add: restrict_map_def map_add_def)
  qed
  ultimately show ?thesis using h by metis
qed

end

interpretation source: block_source "acquire_by a" for a
proof
  show "shim_inv (snd (acquire_by a n b st))" if "shim_inv st" "b = 0 \<or> heap st b = None" for n b st
    using that(1) shim_inv_malloc [OF that, of 8 n] shim_inv_malloc [OF that, of 1 n]
      snd_cuMemAlloc [of 8 n b st]
    by (cases a) (simp_all add: split_def split: if_splits)
  show "heap st' = (heap st)(b \<mapsto> n)" if "acquire_by a n b st = (True, st')" for n b st st'
    using that by (cases a) (auto simp: cudaMalloc_def cuMemAlloc_def track_def heap_alloc_def split: if_splits)
  show "st' = st" if "acquire_by a n b st = (False, st')" for n b st st'
    using that by (cases a) (auto simp: cudaMalloc_def cuMemAlloc_def split: if_splits)
qed

interpretation sink: block_sink "release_by a" for a
proof
  show "\<exists>st'. release_by a p st = (True, st') \<and> shim_inv st' \<and> heap st' = (heap st)(p := None)"
    if inv: "shim_inv st" and live: "heap st p \<noteq> None" for p st
  proof -
    obtain e where e: "alloc_table st p = Some e" using inv live by (auto simp: shim_inv_def)
    have "shim_inv (snd (cudaFree p st))" using inv by (rule shim_inv_free)
    with free_known [OF inv e] show ?thesis by (cases a) (simp_all add: cuMemFree_def)
  qed
  show "release_by a p st = (False, st)" if "shim_inv st" "heap st p = None" "p \<noteq> 0" for p st
  proof -
    have "alloc_table st p = None" using that(1,2) by (simp add: shim_inv_def)
    with free_unknown [of st p] that(3) show ?thesis by (cases a) (simp_all add: cuMemFree_def)
  qed
qed

interpretation shim_memory: memory_api "acquire_by a" "release_by b" for a b
  by unfold_locales

text \<open>C18: Nothing leaks: blocks that an application obtained through one API can all be released
  through either API, in any order, each exactly once, and then the process holds the blocks that
  it held before.\<close>

theorem no_leak:
  assumes "shim_reach fs mem n st" and "acquire_all (acquire_by a) rs st = (True, st')"
    and "distinct (map snd rs)" and "\<forall>r \<in> set rs. heap st (snd r) = None"
    and "distinct ps" and "set ps = snd ` set rs"
  shows "\<exists>st''. release_all (release_by b) ps st' = (True, st'') \<and> heap st'' = heap st \<and>
    \<not> heap_fault st''"
  using shim_memory.release_what_was_acquired [OF assms(2) shim_inv_reach [OF assms(1)] assms(3-6), of b]
  by (auto simp: shim_inv_def)

theorem no_leak_witness:
  "\<forall>b. \<exists>st1 st2. acquire_all (acquire_by RuntimeApi) [(4096, 512), (16, 768)] example_shim = (True, st1) \<and>
     release_all (release_by b) [768, 512] st1 = (True, st2) \<and> heap st2 = [256 \<mapsto> 4096]"
proof
  fix b
  let ?rs = "[(4096, 512), (16, 768)] :: (usize \<times> u64) list"
  have "fst (acquire_all (acquire_by RuntimeApi) ?rs example_shim)"
    by (simp add: cudaMalloc_def layout_ok_def)
  then obtain st1 where st1: "acquire_all (acquire_by RuntimeApi) ?rs example_shim = (True, st1)"
    by (cases "acquire_all (acquire_by RuntimeApi) ?rs example_shim") (auto simp del: acquire_all.simps)
  show "\<exists>st1 st2. acquire_all (acquire_by RuntimeApi) ?rs example_shim = (True, st1) \<and>
     release_all (release_by b) [768, 512] st1 = (True, st2) \<and> heap st2 = [256 \<mapsto> 4096]"
    using no_leak [OF example_reach st1, of "[768, 512]" b] st1
    by (auto simp: example_heap simp del: acquire_all.simps release_all.simps)
qed


section \<open>Programs\<close>

text \<open>What the caller sees of a call: whether it succeeds, and the value written through its out
  pointer. Panics do not succeed.\<close>

fun answer :: "(string \<Rightarrow> u8 list option) \<Rightarrow> shim_call \<Rightarrow> shim \<Rightarrow> bool \<times> u64 option" where
  "answer fs (CudaMalloc p n b) st = (case cudaMalloc p n b st of (e, v, _) \<Rightarrow> (e = cudaSuccess, v))"
| "answer fs (CudaFree p) st = (fst (cudaFree p st) = Some cudaSuccess, None)"
| "answer fs (CudaMemcpy d s n k) st = (fst (cudaMemcpy d s n k st) = cudaSuccess, None)"
| "answer fs (CudaMemset d v n) st = (fst (cudaMemset d v n st) = cudaSuccess, None)"
| "answer fs (CudaStreamCreate p) st = (case cudaStreamCreate p st of (e, v, _) \<Rightarrow> (e = cudaSuccess, v))"
| "answer fs (CudaStreamDestroy h) st = (fst (cudaStreamDestroy h st) = cudaSuccess, None)"
| "answer fs (CudaStreamSynchronize h) st = (fst (cudaStreamSynchronize h st) = cudaSuccess, None)"
| "answer fs (CudaLaunchKernel f g b m h) st = (fst (cudaLaunchKernel f g b m h st) = cudaSuccess, None)"
| "answer fs (CudaGetLastError t) st = (fst (cudaGetLastError t st) = cudaSuccess, None)"
| "answer fs (CuModuleLoad p n) st = (case cuModuleLoad fs p n st of (e, v, _) \<Rightarrow> (e = CUDA_SUCCESS, v))"
| "answer fs (CuModuleLoadData p i) st = (case cuModuleLoadData p i st of (e, v, _) \<Rightarrow> (e = CUDA_SUCCESS, v))"
| "answer fs (CuModuleGetFunction p m n) st =
     (case cuModuleGetFunction p m n st of (e, v, _) \<Rightarrow> (e = CUDA_SUCCESS, v))"
| "answer fs (CuModuleUnload m) st = (fst (cuModuleUnload m st) = CUDA_SUCCESS, None)"
| "answer fs (CuLaunchKernel f g b m h) st = (fst (cuLaunchKernel f g b m h st) = CUDA_SUCCESS, None)"
| "answer fs (CuMemAlloc p n b) st = (case cuMemAlloc p n b st of (e, v, _) \<Rightarrow> (e = CUDA_SUCCESS, v))"
| "answer fs (CuMemFree p) st = (fst (cuMemFree p st) = Some CUDA_SUCCESS, None)"
| "answer fs (CuMemcpyHtoD d s n) st = (fst (cuMemcpyHtoD d s n st) = CUDA_SUCCESS, None)"
| "answer fs (CuMemcpyDtoH d s n) st = (fst (cuMemcpyDtoH d s n st) = CUDA_SUCCESS, None)"
| "answer fs (SetCurrentDevice t i) st = (True, None)"

fun run_calls ::
  "(string \<Rightarrow> u8 list option) \<Rightarrow> shim_call list \<Rightarrow> shim \<Rightarrow> (bool \<times> u64 option) list \<times> shim" where
  "run_calls fs [] st = ([], st)"
| "run_calls fs (c # cs) st =
     (case run_calls fs cs (perform fs c st) of (as, st') \<Rightarrow> (answer fs c st # as, st'))"

text \<open>The runtime calls that driver calls correspond to.\<close>

fun as_runtime :: "shim_call \<Rightarrow> shim_call" where
  "as_runtime (CuMemAlloc p n b) = CudaMalloc p n b"
| "as_runtime (CuMemFree p) = CudaFree p"
| "as_runtime (CuMemcpyHtoD d s n) = CudaMemcpy d s n cudaMemcpyHostToDevice"
| "as_runtime (CuMemcpyDtoH d s n) = CudaMemcpy d s n cudaMemcpyDeviceToHost"
| "as_runtime (CuLaunchKernel f g b m h) = CudaLaunchKernel f g b (ucast m) h"
| "as_runtime c = c"

text \<open>The device pointer that the driver copies do not check.\<close>

fun device_pointer_ok :: "shim_call \<Rightarrow> bool" where
  "device_pointer_ok (CuMemcpyHtoD d s n) \<longleftrightarrow> d \<noteq> 0"
| "device_pointer_ok (CuMemcpyDtoH d s n) \<longleftrightarrow> s \<noteq> 0"
| "device_pointer_ok c \<longleftrightarrow> True"

lemma as_runtime_step:
  assumes "device_pointer_ok c"
  shows "answer fs (as_runtime c) st = answer fs c st" "perform fs (as_runtime c) st = perform fs c st"
  using assms
  by (cases c; simp add: cuMemAlloc_def cudaMalloc_def cuMemFree_def cudaMemcpy_def cuMemcpyHtoD_def
      cuMemcpyDtoH_def cuLaunchKernel_def cudaLaunchKernel_def Let_def ucast_up_down
      split: prod.split option.split)+

text \<open>C17: The two APIs agree: a program whose device pointers are not null gets the same answers and
  reaches the same state as its translation, call by call, from the driver API to the runtime API.\<close>

theorem driver_runtime_equivalence:
  assumes "list_all device_pointer_ok cs"
  shows "run_calls fs (map as_runtime cs) st = run_calls fs cs st"
  using assms by (induction cs arbitrary: st) (simp_all add: as_runtime_step)

theorem driver_runtime_equivalence_witness:
  "\<forall>fs st. run_calls fs [CudaMalloc 8 64 512, CudaMemcpy 512 1024 64 cudaMemcpyHostToDevice, CudaFree 512] st =
     run_calls fs [CuMemAlloc 8 64 512, CuMemcpyHtoD 512 1024 64, CuMemFree 512] st"
  using driver_runtime_equivalence [of "[CuMemAlloc 8 64 512, CuMemcpyHtoD 512 1024 64, CuMemFree 512]"]
  by simp

section \<open>Copies are not checked\<close>

text \<open>The driver copy to the null device pointer succeeds, where the runtime copy is an error.\<close>

lemma null_device_copy:
  "s \<noteq> 0 \<Longrightarrow> answer fs (CuMemcpyHtoD 0 s n) st = (True, None) \<and>
     answer fs (CudaMemcpy 0 s n cudaMemcpyHostToDevice) st = (False, None)"
  by (simp add: cuMemcpyHtoD_def cudaMemcpy_def)

text \<open>A copy does not consult the allocation table: it succeeds with any addresses that are not
  null and any size, for memory that has been released as well.\<close>

lemma copy_after_free:
  assumes "p \<noteq> 0" "s \<noteq> 0"
  shows "fst (cudaMemcpy p s n k (snd (cudaFree p st))) = cudaSuccess"
  using assms by (simp add: cudaMemcpy_def)

end
