(* ===== verification/Shim_Log.thy ===== *)
theory Shim_Log
  imports Interceptor
begin

text \<open>
  What the shim logs: the banner and the devices of \<open>omni_shim_init\<close> (\<open>omni-shim/src/lib.rs\<close>), and
  the status of the interceptor, with the entry point of a Windows library
  (\<open>omni-shim/src/interceptor.rs\<close>). A log is a list of lines; box drawing characters and the dash
  are their UTF-8 bytes.
\<close>

definition box_char :: "nat \<Rightarrow> string" where
  "box_char n = [CHR 0xE2, CHR 0x95, char_of n]"

definition rule_line :: "nat \<Rightarrow> string" where
  "rule_line n = concat (replicate n (box_char 0x90))"

definition long_dash :: string where
  "long_dash = [CHR 0xE2, CHR 0x80, CHR 0x94]"

section \<open>Initialization\<close>

text \<open>\<open>{:?}\<close> of a backend; \<open>debug_str\<close> prints a quoted string.\<close>

fun debug_backend :: "(string \<Rightarrow> string) \<Rightarrow> hardware_backend \<Rightarrow> string" where
  "debug_backend debug_str NvidiaCuda = ''NvidiaCuda''"
| "debug_backend debug_str AmdRocmBackend = ''AmdRocm''"
| "debug_backend debug_str AppleMetalBackend = ''AppleMetal''"
| "debug_backend debug_str IntelVulkan = ''IntelVulkan''"
| "debug_backend debug_str GenericVulkan = ''GenericVulkan''"
| "debug_backend debug_str CpuFallback = ''CpuFallback''"
| "debug_backend debug_str (RemoteNode node_id) = ''RemoteP2p { node_id: '' @ debug_str node_id @ '' }''"

definition device_line :: "(string \<Rightarrow> string) \<Rightarrow> virtual_device \<Rightarrow> string" where
  "device_line debug_str dev =
     ''  ['' @ dec_int (sint (device_idx dev)) @ ''] '' @ device_label dev @ '' '' @ long_dash @
     '' backend='' @ debug_backend debug_str (backend dev) @
     '', mem='' @ dec (unat (total_memory dev div 1024 div 1024)) @ ''MB''"

definition omni_shim_init :: "(string \<Rightarrow> string) \<Rightarrow> string \<Rightarrow> shim \<Rightarrow> string list" where
  "omni_shim_init debug_str version st =
     [box_char 0x94 @ rule_line 54 @ box_char 0x97,
      box_char 0x91 @ ''         OmniCompute Shim v'' @ pad_right 27 version @ '' '' @ box_char 0x91,
      box_char 0x91 @ ''  Heterogeneous Hardware Virtualization Runtime       '' @ box_char 0x91,
      box_char 0x9A @ rule_line 54 @ box_char 0x9D,
      ''Registered '' @ dec (length (virtual_devices st)) @ '' virtual CUDA device(s):''] @
     map (device_line debug_str) (virtual_devices st) @
     [''Shim dispatch tables initialized'', ''OmniCompute JIT engine ready'']"

text \<open>The library is loaded: on attachment of a process the shim is initialized, and the answer is
  true in any case.\<close>

definition DllMain :: "(string \<Rightarrow> string) \<Rightarrow> string \<Rightarrow> u32 \<Rightarrow> shim \<Rightarrow> i32 \<times> string list" where
  "DllMain debug_str version fdw_reason st =
     (1, if fdw_reason = 1 then omni_shim_init debug_str version st else [])"

text \<open>What the loader of each system runs: \<open>INIT_SHIM\<close> in the section \<open>.init_array\<close>, or \<open>DllMain\<close>. On other
  systems nothing runs the initialization.\<close>

definition library_load :: "(string \<Rightarrow> string) \<Rightarrow> string \<Rightarrow> string \<Rightarrow> shim \<Rightarrow> string list" where
  "library_load debug_str version system st =
     (if system = ''linux'' then omni_shim_init debug_str version st
      else if system = ''windows'' then snd (DllMain debug_str version 1 st)
      else [])"

section \<open>Status\<close>

definition megabytes :: "u64 \<Rightarrow> string" where
  "megabytes n = dec (unat (n div 1024 div 1024)) @ '' MB''"

definition print_status :: "intercept_stats \<Rightarrow> (string \<rightharpoonup> hook_entry) \<Rightarrow> string list" where
  "print_status stats table =
     [rule_line 43,
      ''  OmniCompute Shim '' @ long_dash @ '' Interception Status'',
      rule_line 43,
      ''  Registered hooks : '' @ dec (card (dom table)),
      ''  Total API calls  : '' @ dec (unat (total_calls stats)),
      ''  Kernel launches  : '' @ dec (unat (launch_calls stats)),
      ''  cudaMalloc calls : '' @ dec (unat (malloc_calls stats)),
      ''  Bytes allocated  : '' @ megabytes (bytes_allocated stats),
      ''  Bytes transferred: '' @ megabytes (bytes_transferred stats),
      rule_line 43]"

text \<open>The banner names one device of 24576 megabytes, and the status 35 hooks, before any call.\<close>

lemma initial_log:
  "omni_shim_init debug_str version (shim_init mem) ! 5 =
     ''  ['' @ dec 0 @ ''] OmniCompute Virtual GPU 0 (Heterogeneous Backend) '' @ long_dash @
     '' backend=CpuFallback, mem='' @ dec 24576 @ ''MB''"
  by (simp add: omni_shim_init_def shim_init_def detect_virtual_devices_def device_line_def dec_int_def)

text \<open>The initialization runs on two of the three supported systems, with the same log.\<close>

lemma load_runs_init:
  "library_load debug_str version system st =
     (if system = ''linux'' \<or> system = ''windows'' then omni_shim_init debug_str version st else [])"
  by (simp add: library_load_def DllMain_def)

lemma initial_status: "print_status stats_new (dispatch_table addr_of) ! 3 = ''  Registered hooks : '' @ dec 35"
  by (simp add: print_status_def dispatch_table_size)

text \<open>The reported numbers follow the calls: after any number of recorded launches, less than \<open>2^64\<close>,
  the log shows exactly that number.\<close>

lemma status_counts_launches:
  assumes "n < 2 ^ 64"
  shows "print_status (fold (\<lambda>(c, b). record_call c b) (replicate n (Launch, 0)) stats_new) table ! 5 =
    ''  Kernel launches  : '' @ dec n"
  using assms
  by (simp add: record_calls_counts print_status_def stats_new_def unat_of_nat del: fold_replicate)

end
