(* ===== verification/Core_Tests.thy ===== *)
theory Core_Tests
  imports Runtime Cli Tee Obfuscator Emitted_Code
begin

text \<open>
  The unit and integration tests of \<open>omni-core\<close> and \<open>omni-net\<close>, translated as they are written:
  a test is true when no \<open>unwrap\<close> meets an error and all its assertions hold. What a test takes
  from its machine (the hardware, measured times) is an argument. That the model passes
  the tests of the program is a check of the model against the expectations of its authors.
\<close>

section \<open>Allocator and pager\<close>

definition test_alloc_and_free :: bool where
  "test_alloc_and_free =
     (let allocator = duvas_new (1024 * 1024);
          (r1, allocator) = alloc (100 * 1024) False allocator;
          (r2, allocator) = alloc (200 * 1024) False allocator
      in case (r1, r2) of
           (Inr addr1, Inr addr2) \<Rightarrow>
             addr1 < addr2 \<and> get_domain allocator addr1 = Some LocalDevice \<and>
             get_metrics allocator = (300 * 1024, 1024 * 1024, 300 * 1024) \<and>
             (case free addr1 allocator of
                (Inr _, allocator) \<Rightarrow> fst (get_metrics allocator) = 200 * 1024 | _ \<Rightarrow> False)
         | _ \<Rightarrow> False)"

definition test_overallocation_fallback :: bool where
  "test_overallocation_fallback =
     (let allocator = duvas_new (100 * 1024);
          (r1, allocator) = alloc (60 * 1024) False allocator;
          (r2, allocator) = alloc (60 * 1024) False allocator
      in case (r1, r2) of
           (Inr addr1, Inr addr2) \<Rightarrow>
             get_domain allocator addr1 = Some LocalDevice \<and> get_domain allocator addr2 = Some Host
         | _ \<Rightarrow> False)"

definition test_migration :: bool where
  "test_migration =
     (let allocator = duvas_new (100 * 1024);
          (r, allocator) = alloc (40 * 1024) False allocator
      in case r of
           Inr addr \<Rightarrow>
             get_domain allocator addr = Some LocalDevice \<and>
             (case migrate addr Host allocator of
                (Inr _, allocator) \<Rightarrow>
                  get_domain allocator addr = Some Host \<and> fst (get_metrics allocator) = 0
              | _ \<Rightarrow> False)
         | Inl _ \<Rightarrow> False)"

text \<open>The sleep of the test gives the worker time to empty its channel; \<open>clock\<close> are its measured
  times.\<close>

definition test_pager_slide_window :: "(nat \<Rightarrow> f64) \<Rightarrow> bool" where
  "test_pager_slide_window clock =
     (let allocator = duvas_new (100 * 1024 * 1024);
          (r1, allocator) = alloc (10 * 1024 * 1024) False allocator;
          (r2, allocator) = alloc (10 * 1024 * 1024) False allocator;
          (r3, allocator) = alloc (10 * 1024 * 1024) False allocator
      in case (r1, r2, r3) of
           (Inr layer1, Inr layer2, Inr layer3) \<Rightarrow>
             (case migrate layer3 Host allocator of
                (Inr _, allocator) \<Rightarrow>
                  get_domain allocator layer3 = Some Host \<and>
                  (case slide_window [layer2] [layer3] [layer1] (literal binary64 45 1) (pager_new allocator) of
                     (Inr _, p) \<Rightarrow>
                       (let p = run_worker get_domain migrate clock 0 (channel p) p in
                        get_domain (memory p) layer3 = Some LocalDevice \<and>
                        get_domain (memory p) layer1 = Some Host)
                   | _ \<Rightarrow> False)
              | _ \<Rightarrow> False)
         | _ \<Rightarrow> False)"

lemmas alloc_eval = duvas_new_def alloc_def align_page_def get_domain_def get_metrics_def free_def migrate_def

lemma alloc_tests: test_alloc_and_free test_overallocation_fallback test_migration
  by (simp_all add: test_alloc_and_free_def test_overallocation_fallback_def test_migration_def
      alloc_eval Let_def)

lemma pager_test: "test_pager_slide_window clock"
  by (simp add: test_pager_slide_window_def alloc_eval Let_def slide_window_def pager_new_def send_def
      handle_command_def check_command_def move_command_def)

section \<open>Dialect\<close>

definition test_element_type_widths :: bool where
  "test_element_type_widths \<longleftrightarrow>
     byte_width F32 = 4 \<and> byte_width F16 = 2 \<and> byte_width BF16 = 2 \<and> byte_width I8 = 1 \<and> byte_width F64 = 8"

definition test_tensor_type_display :: bool where
  "test_tensor_type_display \<longleftrightarrow>
     show_tensor (static_tensor [128, 256] F16) = ''tensor<128x256xf16>''"

definition test_dynamic_tensor_display :: bool where
  "test_dynamic_tensor_display \<longleftrightarrow> show_tensor (dynamic_tensor 3 BF16) = ''tensor<?x?x?xbf16>''"

definition test_tensor_byte_size :: bool where
  "test_tensor_byte_size \<longleftrightarrow> byte_size (static_tensor [4, 4] F32) = Some (4 * 4 * 4)"

definition test_module_push_and_count :: bool where
  "test_module_push_and_count =
     (let m = module_new;
          p = \<lparr>op_id = 0, kind = MatMul, inputs = [''a'', ''b''], output_name = ''c'',
               op_attrs = Map.empty, result_type = static_tensor [64, 64] F32\<rparr>;
          m' = snd (push_op p m)
      in op_count m = 0 \<and> op_count m' = 1 \<and> value_type m' ''c'' \<noteq> None)"

definition test_ir_lifter_creates_module :: bool where
  "test_ir_lifter_creates_module =
     (case fst (lift_ptx (bytes_of (''.version 8.0'' @ nl @ ''.target sm_90'' @ nl)) 0xDEAD lifter_new) of
        Inr m \<Rightarrow> 1 \<le> op_count m | Inl _ \<Rightarrow> False)"

lemma dialect_tests:
  test_element_type_widths test_tensor_type_display test_dynamic_tensor_display test_tensor_byte_size
  test_module_push_and_count test_ir_lifter_creates_module
proof -
  have d: "dec 128 = ''128''" "dec 256 = ''256''"
    by (simp_all add: dec_def digits_in.simps digit_char_def char_of_def bit_0)
  show test_tensor_type_display
    by (simp add: test_tensor_type_display_def show_tensor_def static_tensor_def dec_int_def d)
qed (simp_all add: test_element_type_widths_def test_dynamic_tensor_display_def test_tensor_byte_size_def
    test_module_push_and_count_def test_ir_lifter_creates_module_def show_tensor_def dynamic_tensor_def
    static_tensor_def byte_size_eq push_op_def module_new_def op_count_def value_type_def lift_ptx_eq
    numeral_3_eq_3 Let_def)

section \<open>Passes\<close>

definition test_constant_folding :: bool where
  "test_constant_folding =
     (let m = module_new;
          m = snd (push_op \<lparr>op_id = 0, kind = Fill (literal binary64 25 10), inputs = [], output_name = ''v0'',
                     op_attrs = Map.empty, result_type = static_tensor [1] F32\<rparr> m);
          m = snd (push_op \<lparr>op_id = 0, kind = Add, inputs = [''v0'', ''v0''], output_name = ''v1'',
                     op_attrs = Map.empty, result_type = static_tensor [1] F32\<rparr> m)
      in case run_constant_folding m of
           Inr m \<Rightarrow> length (ops m) = 2 \<and> kind (ops m ! 1) = Fill (literal binary64 5 1)
         | Inl _ \<Rightarrow> False)"

definition test_operator_fusion :: bool where
  "test_operator_fusion =
     (let m = module_new;
          m = snd (push_op \<lparr>op_id = 0, kind = MatMul, inputs = [''a'', ''b''], output_name = ''c'',
                     op_attrs = Map.empty, result_type = static_tensor [128, 128] F32\<rparr> m);
          m = snd (push_op \<lparr>op_id = 0, kind = Relu, inputs = [''c''], output_name = ''d'',
                     op_attrs = Map.empty, result_type = static_tensor [128, 128] F32\<rparr> m);
          m = run_operator_fusion m
      in length (ops m) = 1 \<and> output_name (ops m ! 0) = ''d'' \<and>
         op_attrs (ops m ! 0) ''fused_activation'' \<noteq> None)"

lemma passes_tests: test_constant_folding test_operator_fusion
proof -
  show test_constant_folding
    by (simp add: test_constant_folding_def push_op_def module_new_def run_constant_folding_def fold_op_def
        fold_binary_def Let_def float_eval)
  show test_operator_fusion
    by (simp add: test_operator_fusion_def push_op_def module_new_def run_operator_fusion_def fusible_def
        fuse_def Let_def)
qed

text \<open>The hardware profile of these tests, and what the whole pipeline makes of the fusion test on it.\<close>

definition passes_mock_hardware :: hardware_profile where
  "passes_mock_hardware =
     \<lparr>target_backend = AmdRocm ''gfx1100'' 32 96,
      vram_bytes = 8 * 1024 * 1024 * 1024, l2_cache_bytes = 4 * 1024 * 1024,
      fp16_tflops = literal binary64 123 1, memory_bandwidth_gbps = literal binary64 960 1,
      atomic_support = True, tensor_core_support = True, os = Windows\<rparr>"

lemma mock_pipeline_fuses_and_tiles:
  "\<exists>m p. run_passes passes_mock_hardware
     (snd (push_op \<lparr>op_id = 0, kind = Relu, inputs = [''c''], output_name = ''d'', op_attrs = Map.empty,
               result_type = static_tensor [128, 128] F32\<rparr>
       (snd (push_op \<lparr>op_id = 0, kind = MatMul, inputs = [''a'', ''b''], output_name = ''c'', op_attrs = Map.empty,
               result_type = static_tensor [128, 128] F32\<rparr> module_new)))) = Inr m \<and>
     ops m = [p] \<and> output_name p = ''d'' \<and> op_attrs p ''fused_activation'' = Some (AttrString ''Relu'') \<and>
     op_attrs p ''tile_m'' = Some (AttrInt 64)"
  by (simp add: push_op_def module_new_def run_passes_def run_constant_folding_def fold_op_def run_operator_fusion_def
      fusible_def fuse_def run_loop_tiling_def tile_op_def run_dce_def op_count_def passes_mock_hardware_def Let_def)

section \<open>Hardware, compiler and the whole pipeline\<close>

definition test_probe_always_succeeds :: "machine \<Rightarrow> bool" where
  "test_probe_always_succeeds mc =
     (case probe mc of Inr profile \<Rightarrow> 0 < vram_bytes profile \<and> 0 < l2_cache_bytes profile | Inl _ \<Rightarrow> False)"

definition test_os_detection :: "machine \<Rightarrow> bool" where
  "test_os_detection mc \<longleftrightarrow> current_os mc \<in> {Linux, MacOs, Windows}"

definition test_cpu_fallback_core_count :: "machine \<Rightarrow> bool" where
  "test_cpu_fallback_core_count mc =
     (case probe mc of
        Inr profile \<Rightarrow> (case target_backend profile of CpuVectorized cores w \<Rightarrow> 1 \<le> cores | _ \<Rightarrow> True)
      | Inl _ \<Rightarrow> False)"

definition create_mock_hardware :: hardware_profile where
  "create_mock_hardware =
     \<lparr>target_backend = VulkanGeneric ''Mock Intel Arc GPU'' 1024,
      vram_bytes = 4 * 1024 * 1024 * 1024, l2_cache_bytes = 1024 * 1024,
      fp16_tflops = literal binary64 10 1, memory_bandwidth_gbps = literal binary64 256 1,
      atomic_support = True, tensor_core_support = False, os = Windows\<rparr>"

definition test_jit_compilation_cache :: bool where
  "test_jit_compilation_cache =
     (let hw = create_mock_hardware;
          engine = jit_new hw;
          (r1, engine) = compile_ptx fake_ptx 42 engine;
          (r2, engine) = compile_ptx fake_ptx 42 engine
      in case (r1, r2) of
           (Inr kernel1, Inr kernel2) \<Rightarrow>
             contains_str (kernel_name kernel1) ''matmul'' \<and>
             kernel_name kernel1 = kernel_name kernel2 \<and> payload kernel1 = payload kernel2
         | _ \<Rightarrow> False)"

definition test_end_to_end_jit_pipeline :: "machine \<Rightarrow> bool" where
  "test_end_to_end_jit_pipeline mc =
     (case probe mc of
        Inl _ \<Rightarrow> False
      | Inr profile \<Rightarrow>
          (case target_backend profile of RemoteP2p n l \<Rightarrow> False | _ \<Rightarrow> True) \<and>
          (case alloc 1024 False (duvas_new (vram_bytes profile)) of
             (Inr ptr, allocator) \<Rightarrow>
               0 < ptr \<and>
               (case fst (compile_ptx (bytes_of ''dummy ptx payload'') 1 (jit_new profile)) of
                  Inr binary \<Rightarrow> payload binary \<noteq> []
                | Inl _ \<Rightarrow> False) \<and>
               \<not> isl (fst (free ptr allocator))
           | _ \<Rightarrow> False))"

lemma hardware_tests:
  "test_probe_always_succeeds mc" "test_os_detection mc"
  by (auto simp: test_probe_always_succeeds_def probe_def detector_defs Let_def test_os_detection_def
      current_os_def split: option.split)

text \<open>The third one needs a machine with at most \<open>2^32 - 1\<close> hardware threads, since the count is cut to
  32 bits.\<close>

lemma core_count_test:
  assumes "\<And>n. parallelism mc = Some n \<Longrightarrow> 0 < unat n \<and> unat n < 2 ^ 32"
  shows "test_cpu_fallback_core_count mc"
proof -
  have "1 \<le> (ucast n :: u32)" if "0 < unat n" "unat n < 2 ^ 32" for n :: usize
  proof -
    have "unat (ucast n :: u32) = unat n"
      using that(2) by (simp add: unsigned_ucast_eq take_bit_nat_eq_self)
    with that(1) show ?thesis by (simp add: word_le_nat_alt)
  qed
  with assms show ?thesis
    by (simp add: test_cpu_fallback_core_count_def probe_def detector_defs Let_def split: option.split)
qed

lemma fake_ptx_kernel:
  "\<exists>k. compile_fresh hw fake_ptx i = Inr k \<and> kernel_name k = ''omni_matmul_0''"
proof -
  have "classify_ptx fake_ptx = MatMul" by code_simp
  from compile_fresh_name(1) [OF this, of hw i] show ?thesis
    by (cases "compile_fresh hw fake_ptx i") auto
qed

lemma jit_test: test_jit_compilation_cache
proof -
  have twice: "compile_ptx fake_ptx 42 (jit_new hw) = (Inr k, j) \<Longrightarrow> compile_ptx fake_ptx 42 j = (Inr k, j)" for hw k j
    by (auto simp: compile_ptx_def jit_new_def Let_def split: option.splits sum.splits)
  have once: "\<exists>k j. compile_ptx fake_ptx 42 (jit_new hw) = (Inr k, j) \<and> kernel_name k = ''omni_matmul_0''" for hw
    using fake_ptx_kernel [of hw 42] by (auto simp: compile_ptx_def jit_new_def)
  obtain k j where k: "compile_ptx fake_ptx 42 (jit_new create_mock_hardware) = (Inr k, j)"
    "kernel_name k = ''omni_matmul_0''" using once by blast
  with twice [OF k(1)] show ?thesis by (simp add: test_jit_compilation_cache_def Let_def)
qed

lemma headers_nonempty: "bytes_of amd_header \<noteq> []" "bytes_of metal_header \<noteq> []" "bytes_of spirv_header \<noteq> []"
  by (simp_all add: amd_header_def metal_header_def spirv_header_def bytes_of_def)

lemma payload_nonempty: "generate_for b m = Inr k \<Longrightarrow> payload k \<noteq> []"
  by (cases b) (auto dest: emitted_pieces simp: headers_nonempty)

lemma compile_fresh_payload:
  assumes "compile_fresh hw bs i = Inr k"
  shows "payload k \<noteq> []"
proof -
  obtain m where "map_sum CodegenError id (generate_for (target_backend hw) m) = Inr k"
    using assms by (auto simp: compile_fresh_def split: prod.splits sum.splits)
  then have "generate_for (target_backend hw) m = Inr k"
    by (cases "generate_for (target_backend hw) m") auto
  then show ?thesis by (rule payload_nonempty)
qed

lemma dummy_opaque: "classify_ptx (bytes_of ''dummy ptx payload'') = Opaque (hash_bytes (bytes_of ''dummy ptx payload''))"
proof -
  have "ptx_text (bytes_of ''dummy ptx payload'') = ''dummy ptx payload''" by code_simp
  then show ?thesis by (simp add: classify_ptx_def)
qed

lemma pipeline_test: "test_end_to_end_jit_pipeline mc"
proof -
  obtain hw where hw: "probe mc = Inr hw" "profile_ok hw" using probe_usable by blast
  obtain k where k: "compile_fresh hw (bytes_of ''dummy ptx payload'') 1 = Inr k"
    using compile_fresh_name(2) [OF dummy_opaque, of hw 1]
    by (cases "compile_fresh hw (bytes_of ''dummy ptx payload'') 1") auto
  then have "fst (compile_ptx (bytes_of ''dummy ptx payload'') 1 (jit_new hw)) = Inr k"
    by (simp add: compile_ptx_def jit_new_def)
  moreover have "(case target_backend hw of RemoteP2p n l \<Rightarrow> False | _ \<Rightarrow> True)"
    using hw(2) by (auto simp: profile_ok_def split: target_backend.splits)
  ultimately show ?thesis
    using hw(1) compile_fresh_payload [OF k]
    by (simp add: test_end_to_end_jit_pipeline_def alloc_eval Let_def)
qed


section \<open>Scheduler, obfuscator, sandbox and protocol\<close>

definition test_blind_splitting :: bool where
  "test_blind_splitting =
     (let m = module_new;
          m = snd (push_op \<lparr>op_id = 0, kind = Gather 0, inputs = [''tokens'', ''weights''], output_name = ''v0'',
                     op_attrs = Map.empty, result_type = static_tensor [1, 4096] F32\<rparr> m);
          m = snd (push_op \<lparr>op_id = 0, kind = MatMul, inputs = [''v0'', ''layer1''], output_name = ''v1'',
                     op_attrs = Map.empty, result_type = static_tensor [1, 4096] F32\<rparr> m)
      in case blind_split m of
           Inr (local_ops, global_ops) \<Rightarrow>
             length local_ops = 1 \<and> kind (local_ops ! 0) = Gather 0 \<and>
             length global_ops = 1 \<and> kind (global_ops ! 0) = MatMul
         | Inl _ \<Rightarrow> False)"

definition test_elastic_scheduling :: bool where
  "test_elastic_scheduling =
     (let p = \<lparr>op_id = 12, kind = MatMul, inputs = [''a'', ''b''], output_name = ''c'',
               op_attrs = Map.empty, result_type = static_tensor [64, 64] F32\<rparr>;
          worker_a = \<lparr>worker_peer_id = ''worker-A-tflops-100'', worker_tflops = literal binary32 100 1,
                      rtt_ms = literal binary32 50 1, vram_capacity_bytes = 16 * 1024 * 1024 * 1024,
                      current_load = literal binary32 10 1\<rparr>;
          worker_b = \<lparr>worker_peer_id = ''worker-B-tflops-20'', worker_tflops = literal binary32 20 1,
                      rtt_ms = literal binary32 10 1, vram_capacity_bytes = 8 * 1024 * 1024 * 1024,
                      current_load = literal binary32 5 1\<rparr>
      in case schedule_global_ops [p] [worker_a, worker_b] of
           Inr dispatches \<Rightarrow>
             length dispatches = 1 \<and> target_peer_id (dispatches ! 0) = ''worker-A-tflops-100''
         | Inl _ \<Rightarrow> False)"

lemma router_tests: test_blind_splitting test_elastic_scheduling
proof -
  show test_blind_splitting
    by (simp add: test_blind_splitting_def blind_split_def push_op_def module_new_def placement_of_def Let_def)
  show test_elastic_scheduling
    by (simp add: test_elastic_scheduling_def schedule_global_ops_def dispatch_def best_of_def score_def
        load_factor_def Let_def float_eval)
qed

definition test_control_flow_flattening :: bool where
  "test_control_flow_flattening =
     (let code = ''kernel void test() {'' @ nl @ tab @ ''int x = 1;'' @ nl @ ''}''
      in contains_str (flatten_control_flow code) ''dummy_pred'')"

lemma flattening_test: test_control_flow_flattening
  by code_simp

definition test_tee_sandbox_init_and_crypt ::
  "cipher \<Rightarrow> cipher \<Rightarrow> bool \<Rightarrow> bool \<Rightarrow> u8 list \<Rightarrow> u8 list \<Rightarrow> bool" where
  "test_tee_sandbox_init_and_crypt aes_encrypt aes_decrypt amd intel key nonce =
     (case tee_init amd intel key of
        Inl _ \<Rightarrow> False
      | Inr sandbox \<Rightarrow>
          (let original_data = bytes_of ''FlashAttention-3-Parameters-Confidential'' in
           case encrypt_device_data aes_encrypt nonce sandbox original_data of
             Inl _ \<Rightarrow> False
           | Inr encrypted \<Rightarrow>
               original_data \<noteq> encrypted \<and>
               decrypt_device_data aes_decrypt sandbox encrypted = Inr original_data))"

definition test_attestation_verification :: "bool \<Rightarrow> bool \<Rightarrow> u8 list \<Rightarrow> bool" where
  "test_attestation_verification amd intel key =
     (case tee_init amd intel key of
        Inl _ \<Rightarrow> False
      | Inr sandbox \<Rightarrow>
          (case generate_attestation_report sandbox (bytes_of ''user_session_nonce_123'') of
             Inl _ \<Rightarrow> False
           | Inr report \<Rightarrow> verify_report report = Inr True))"

lemma attestation_test: "test_attestation_verification amd intel key"
  by (auto simp: test_attestation_verification_def tee_init_def generate_attestation_report_def verify_report_def
      length_report_header nth_append)

text \<open>The cipher must be authenticated encryption whose output is longer than its input by the tag.\<close>

lemma crypt_test:
  assumes "aead_inverse aes_encrypt aes_decrypt" and "length nonce = 12"
    and "\<And>k n p. \<exists>c. aes_encrypt k n p = Some c \<and> length p \<le> length c"
  shows "test_tee_sandbox_init_and_crypt aes_encrypt aes_decrypt amd intel key nonce"
proof -
  let ?data = "bytes_of ''FlashAttention-3-Parameters-Confidential''"
  obtain c where c: "aes_encrypt key nonce ?data = Some c" "length ?data \<le> length c"
    using assms(3) by blast
  then have "aes_decrypt key nonce c = Some ?data"
    using assms(1) unfolding aead_inverse_def by blast
  moreover have "?data \<noteq> nonce @ c"
  proof
    assume "?data = nonce @ c"
    then have "length ?data = length nonce + length c" by (metis length_append)
    with c(2) assms(2) show False by linarith
  qed
  ultimately show ?thesis
    using c assms(2)
    by (simp add: test_tee_sandbox_init_and_crypt_def tee_init_def encrypt_device_data_def
        decrypt_device_data_def Let_def)
qed

definition test_protocol_serialization ::
  "(network_message \<Rightarrow> string + u8 list) \<Rightarrow> (u8 list \<Rightarrow> string + network_message) \<Rightarrow> bool" where
  "test_protocol_serialization serialize deserialize =
     (let p = \<lparr>op_id = 7, kind = Add, inputs = [''a'', ''b''], output_name = ''c'',
               op_attrs = Map.empty, result_type = static_tensor [32] F32\<rparr>;
          msg = TaskRequest \<lparr>target_peer_id = ''test-peer'', dispatch_op_id = 7, dispatch_op = p,
                             priority = literal binary32 10 1\<rparr> [1, 2, 3, 4]
      in case encode serialize msg of
           Inl _ \<Rightarrow> False
         | Inr encoded \<Rightarrow>
             encoded \<noteq> [] \<and>
             (case decode deserialize encoded of
                Inr (TaskRequest task input_data) \<Rightarrow> dispatch_op_id task = 7 \<and> input_data = [1, 2, 3, 4]
              | _ \<Rightarrow> False))"

lemma protocol_test:
  assumes "\<And>msg. \<exists>bytes. serialize msg = Inr bytes \<and> bytes \<noteq> [] \<and> deserialize bytes = Inr msg"
  shows "test_protocol_serialization serialize deserialize"
proof -
  let ?msg = "TaskRequest \<lparr>target_peer_id = ''test-peer'', dispatch_op_id = 7,
    dispatch_op = \<lparr>op_id = 7, kind = Add, inputs = [''a'', ''b''], output_name = ''c'',
      op_attrs = Map.empty, result_type = static_tensor [32] F32\<rparr>,
    priority = literal binary32 10 1\<rparr> [1, 2, 3, 4]"
  obtain bytes where "serialize ?msg = Inr bytes" "bytes \<noteq> []" "deserialize bytes = Inr ?msg"
    using assms by blast
  then show ?thesis by (simp add: test_protocol_serialization_def encode_def decode_def Let_def)
qed

text \<open>The two readings of the clock, \<open>t\<close> nanoseconds since the epoch and \<open>d\<close> later.\<close>

definition test_rtt_calculation :: "u64 \<Rightarrow> u64 \<Rightarrow> bool" where
  "test_rtt_calculation t d =
     (let sent = t - 10000000;
          rtt = calculate_rtt (t + d) sent
      in fle (literal binary32 95 10) rtt \<and> fle rtt (literal binary32 15 1))"

lemma rtt_test: "10000000 \<le> t \<Longrightarrow> test_rtt_calculation t 0"
proof -
  assume "10000000 \<le> t"
  then have "t - 10000000 < t" by (simp add: word_less_nat_alt word_le_nat_alt unat_sub)
  then have "\<not> t \<le> t - 10000000" by simp
  then show ?thesis by (simp add: test_rtt_calculation_def calculate_rtt_def Let_def float_eval)
qed


section \<open>The version\<close>

text \<open>The package version of the workspace.\<close>

definition version :: string where
  "version = ''0.1.0''"

definition test_version_not_empty :: bool where
  "test_version_not_empty = (version \<noteq> [])"

lemma version_test: test_version_not_empty
  by (simp add: test_version_not_empty_def version_def)

section \<open>All of them\<close>

text \<open>The model passes the tests that the core and network crates state without conditions: allocation,
  fallback to the host, migration and paging with any measured times, the dialect's sizes and
  printed forms, folding and fusion, hardware detection and the end-to-end pipeline on every
  machine, the kernel cache, splitting and scheduling, flattening and attestation.\<close>

theorem core_tests_pass:
  "test_alloc_and_free \<and> test_overallocation_fallback \<and> test_migration \<and> test_pager_slide_window clock \<and>
   test_element_type_widths \<and> test_tensor_type_display \<and> test_dynamic_tensor_display \<and>
   test_tensor_byte_size \<and> test_module_push_and_count \<and> test_ir_lifter_creates_module \<and>
   test_constant_folding \<and> test_operator_fusion \<and> test_probe_always_succeeds mc \<and> test_os_detection mc \<and>
   test_jit_compilation_cache \<and> test_end_to_end_jit_pipeline mc \<and> test_blind_splitting \<and>
   test_elastic_scheduling \<and> test_control_flow_flattening \<and> test_attestation_verification amd intel key \<and>
   test_version_not_empty"
  by (intro conjI alloc_tests pager_test dialect_tests passes_tests hardware_tests jit_test pipeline_test
      router_tests flattening_test attestation_test version_test)

end
