(* ===== verification/Shim_Tests.thy ===== *)
theory Shim_Tests
  imports Shim_Calls
begin

text \<open>
  The unit tests of \<open>omni-shim\<close>, translated as they are written. Each test starts on the state of a
  new process; the addresses of its local variables and the answers of the allocator are
  arguments.
\<close>

section \<open>Runtime API\<close>

definition test_device_count :: "(u64 \<Rightarrow> u8) \<Rightarrow> u64 \<Rightarrow> bool" where
  "test_device_count mem count =
     (case cudaGetDeviceCount count (shim_init mem) of
        (err, Some n) \<Rightarrow> err = cudaSuccess \<and> 0 < sint n | _ \<Rightarrow> False)"

definition test_device_properties :: "(u64 \<Rightarrow> u8) \<Rightarrow> u64 \<Rightarrow> bool" where
  "test_device_properties mem prop =
     (case cudaGetDeviceProperties prop 0 (shim_init mem) of
        (err, Some p) \<Rightarrow> err = cudaSuccess \<and> 0 < totalGlobalMem p \<and> major p = 8 | _ \<Rightarrow> False)"

definition test_malloc_free_roundtrip :: "(u64 \<Rightarrow> u8) \<Rightarrow> u64 \<Rightarrow> u64 \<Rightarrow> bool" where
  "test_malloc_free_roundtrip mem ptr block =
     (case cudaMalloc ptr 4096 block (shim_init mem) of
        (err, Some p, st) \<Rightarrow> err = cudaSuccess \<and> p \<noteq> 0 \<and> fst (cudaFree p st) = Some cudaSuccess
      | _ \<Rightarrow> False)"

text \<open>\<open>host\<close> and \<open>result\<close> are the buffers of four floats.\<close>

definition test_memcpy_h2d_d2h :: "(u64 \<Rightarrow> u8) \<Rightarrow> u64 \<Rightarrow> u64 \<Rightarrow> u64 \<Rightarrow> u64 \<Rightarrow> bool" where
  "test_memcpy_h2d_d2h mem ptr block host result =
     (case cudaMalloc ptr (4 * 4) block (shim_init mem) of
        (_, Some p, st) \<Rightarrow>
          (case cudaMemcpy p host 16 cudaMemcpyHostToDevice st of
             (copy_err, st) \<Rightarrow>
               copy_err = cudaSuccess \<and>
               (case cudaMemcpy result p 16 cudaMemcpyDeviceToHost st of
                  (back_err, st) \<Rightarrow>
                    back_err = cudaSuccess \<and>
                    read_bytes result 16 (bytes_at st) = read_bytes host 16 (bytes_at st)))
      | _ \<Rightarrow> False)"

definition test_stream_lifecycle :: "(u64 \<Rightarrow> u8) \<Rightarrow> u64 \<Rightarrow> bool" where
  "test_stream_lifecycle mem p_stream =
     (case cudaStreamCreate p_stream (shim_init mem) of
        (create_err, Some stream, st) \<Rightarrow>
          create_err = cudaSuccess \<and> stream \<noteq> 0 \<and>
          (case cudaStreamSynchronize stream st of
             (sync_err, st) \<Rightarrow> sync_err = cudaSuccess \<and> fst (cudaStreamDestroy stream st) = cudaSuccess)
      | _ \<Rightarrow> False)"

lemmas runtime_test_defs =
  test_device_count_def test_device_properties_def test_malloc_free_roundtrip_def test_stream_lifecycle_def

lemma runtime_tests:
  assumes "p \<noteq> 0" and "block \<noteq> 0"
  shows "test_device_count mem p" "test_device_properties mem p" "test_malloc_free_roundtrip mem p block"
    "test_stream_lifecycle mem p"
  using assms
  by (simp_all add: runtime_test_defs cudaGetDeviceCount_def cudaGetDeviceProperties_def fill_properties_def
      cudaMalloc_def layout_ok_def track_def heap_alloc_def cudaFree_def untrack_def cudaStreamCreate_def
      cudaStreamSynchronize_def cudaStreamDestroy_def shim_init_def detect_virtual_devices_def Let_def)

lemma memcpy_test:
  assumes "p \<noteq> 0" "block \<noteq> 0" "host \<noteq> 0" "result \<noteq> 0"
    and "apart host block 16" "apart host result 16" "apart block result 16"
  shows "test_memcpy_h2d_d2h mem p block host result"
proof -
  have n: "unat (16 :: usize) = 16" by simp
  have "read_bytes result 16 (copy_bytes result block 16 (copy_bytes block host 16 mem)) = read_bytes host 16 mem"
    using read_copy_bytes [of result 16 block "copy_bytes block host 16 mem"] read_copy_bytes [of block 16 host mem]
    by (simp only: n)
  moreover have "read_bytes host 16 (copy_bytes result block 16 (copy_bytes block host 16 mem)) = read_bytes host 16 mem"
    using read_copy_apart [OF assms(6), of block "copy_bytes block host 16 mem"] read_copy_apart [OF assms(5), of host mem]
    by (simp only: n)
  ultimately show ?thesis
    using assms(1-4)
    by (simp add: test_memcpy_h2d_d2h_def cudaMalloc_def layout_ok_def cudaMemcpy_def shim_init_def track_def
        heap_alloc_def)
qed

section \<open>Driver API\<close>

definition test_cu_init :: bool where
  "test_cu_init \<longleftrightarrow> cuInit 0 = CUDA_SUCCESS"

definition test_cu_device_count :: "(u64 \<Rightarrow> u8) \<Rightarrow> u64 \<Rightarrow> bool" where
  "test_cu_device_count mem count =
     (case cuDeviceGetCount count (shim_init mem) of
        (err, Some n) \<Rightarrow> err = CUDA_SUCCESS \<and> 0 < sint n | _ \<Rightarrow> False)"

definition test_cu_mem_alloc_free :: "(u64 \<Rightarrow> u8) \<Rightarrow> u64 \<Rightarrow> u64 \<Rightarrow> bool" where
  "test_cu_mem_alloc_free mem ptr block =
     (case cuMemAlloc ptr 1024 block (shim_init mem) of
        (err, Some p, st) \<Rightarrow> err = CUDA_SUCCESS \<and> p \<noteq> 0 \<and> fst (cuMemFree p st) = Some CUDA_SUCCESS
      | _ \<Rightarrow> False)"

lemma driver_tests:
  assumes "p \<noteq> 0" and "block \<noteq> 0"
  shows test_cu_init "test_cu_device_count mem p" "test_cu_mem_alloc_free mem p block"
  using assms
  by (simp_all add: test_cu_init_def cuInit_def test_cu_device_count_def cuDeviceGetCount_def
      test_cu_mem_alloc_free_def cuMemAlloc_def cuMemFree_def cudaMalloc_def layout_ok_def track_def
      heap_alloc_def cudaFree_def untrack_def shim_init_def detect_virtual_devices_def)

section \<open>State and interceptor\<close>

definition test_virtual_devices_non_empty :: bool where
  "test_virtual_devices_non_empty \<longleftrightarrow> detect_virtual_devices \<noteq> []"

definition test_virtual_device_fields :: bool where
  "test_virtual_device_fields =
     (let dev = detect_virtual_devices ! 0
      in device_idx dev = 0 \<and> 0 < total_memory dev \<and> compute_capability_major dev = 8)"

definition test_global_tables_init :: "(u64 \<Rightarrow> u8) \<Rightarrow> bool" where
  "test_global_tables_init mem \<longleftrightarrow>
     stream_table (shim_init mem) = Map.empty \<and> alloc_table (shim_init mem) = Map.empty"

definition test_dispatch_table_populated :: "(string \<Rightarrow> u64) \<Rightarrow> bool" where
  "test_dispatch_table_populated addr_of =
     (let table = dispatch_table addr_of
      in table ''cudaMalloc'' \<noteq> None \<and> table ''cuLaunchKernel'' \<noteq> None \<and> table ''cuModuleLoad'' \<noteq> None \<and>
         30 \<le> card (dom table))"

definition test_thread_local_device :: "nat \<Rightarrow> shim \<Rightarrow> bool" where
  "test_thread_local_device t st \<longleftrightarrow> get_current_device t (set_current_device t 0 st) = 0"

definition test_record_call_stats :: bool where
  "test_record_call_stats =
     (let stats = stats_new;
          stats = record_call Launch 0 stats;
          stats = record_call Malloc 4096 stats
      in total_calls stats = 2 \<and> launch_calls stats = 1 \<and> malloc_calls stats = 1 \<and>
         bytes_allocated stats = 4096)"

lemma state_tests:
  test_virtual_devices_non_empty test_virtual_device_fields "test_global_tables_init mem"
  "test_dispatch_table_populated addr_of" "test_thread_local_device t st" test_record_call_stats
  by (simp_all add: test_virtual_devices_non_empty_def test_virtual_device_fields_def detect_virtual_devices_def
      test_global_tables_init_def shim_init_def test_dispatch_table_populated_def dispatch_table_entries
      dispatch_table_size runtime_hooks_def driver_hooks_def test_thread_local_device_def
      get_current_device_def set_current_device_def test_record_call_stats_def stats_new_def Let_def)


section \<open>All of them\<close>

text \<open>The model passes the tests of the shim, whatever the contents of memory, as soon as the
  variables whose addresses are passed and the block that the allocator grants are not at null and
  the copied buffers do not overlap.\<close>

theorem shim_tests_pass:
  assumes "p \<noteq> 0" "block \<noteq> 0" "host \<noteq> 0" "result \<noteq> 0"
    and "apart host block 16" "apart host result 16" "apart block result 16"
  shows "test_device_count mem p \<and> test_device_properties mem p \<and> test_malloc_free_roundtrip mem p block \<and>
    test_memcpy_h2d_d2h mem p block host result \<and> test_stream_lifecycle mem p \<and> test_cu_init \<and>
    test_cu_device_count mem p \<and> test_cu_mem_alloc_free mem p block \<and> test_virtual_devices_non_empty \<and>
    test_virtual_device_fields \<and> test_global_tables_init mem \<and> test_dispatch_table_populated addr_of \<and>
    test_thread_local_device t st \<and> test_record_call_stats"
  using memcpy_test [OF assms]
    runtime_tests [OF assms(1,2)] driver_tests [OF assms(1,2)] state_tests
  by simp

theorem shim_tests_pass_witness:
  "\<forall>mem. test_memcpy_h2d_d2h mem 8 256 512 1024 \<and> test_malloc_free_roundtrip mem 8 256"
proof -
  have "apart 512 256 16" "apart 512 1024 16" "apart 256 1024 16"
    using apart_sym [of 512 256 16] by (simp_all add: apart_after)
  with shim_tests_pass [of 8 256 512 1024] show ?thesis by simp
qed

end
