(* ===== verification/Jit_Latency.thy ===== *)
theory Jit_Latency
  imports Core_Tests
begin

text \<open>
  The workloads of the benchmark \<open>omni-core/benches/jit_latency.rs\<close>: cold and hot compilation of
  one kernel, and sliding a window over three layers again and again while the worker runs. The
  measured times are left out; what is modelled is what the loops call, and that none of their
  \<open>unwrap\<close> calls panics.
\<close>

section \<open>Compilation\<close>

definition create_mock_amdgpu_profile :: hardware_profile where
  "create_mock_amdgpu_profile =
     \<lparr>target_backend = AmdRocm ''gfx1100'' 32 96,
      vram_bytes = 16 * 1024 * 1024 * 1024, l2_cache_bytes = 4 * 1024 * 1024,
      fp16_tflops = literal binary64 123 1, memory_bandwidth_gbps = literal binary64 960 1,
      atomic_support = True, tensor_core_support = True, os = Linux\<rparr>"

definition bench_ptx :: "u8 list" where
  "bench_ptx = bytes_of (''.version 8.0'' @ nl @ ''.target sm_90'' @ nl @ '' mma.sync.aligned.m16n8k16 '')"

text \<open>A new engine for every iteration; the iteration number is the kernel id.\<close>

definition cold_path :: "hardware_profile \<Rightarrow> nat \<Rightarrow> (jit_error + generated_kernel) list" where
  "cold_path hw iters = map (\<lambda>i. fst (compile_ptx bench_ptx (word_of_nat i) (jit_new hw))) [0..<iters]"

text \<open>One engine; an \<open>unwrap\<close> of an error is None.\<close>

fun hot_loop :: "nat \<Rightarrow> jit_engine \<Rightarrow> (generated_kernel list \<times> jit_engine) option" where
  "hot_loop 0 engine = Some ([], engine)"
| "hot_loop (Suc n) engine =
     (case compile_ptx bench_ptx 999 engine of
        (Inl _, _) \<Rightarrow> None
      | (Inr res, engine) \<Rightarrow>
          (case hot_loop n engine of None \<Rightarrow> None | Some (rs, engine) \<Rightarrow> Some (res # rs, engine)))"

text \<open>The whole benchmark: a warm-up, the cold loop, one compilation that fills the cache, the hot loop.\<close>

definition bench_jit_compilation ::
  "nat \<Rightarrow> nat \<Rightarrow> ((jit_error + generated_kernel) list \<times> generated_kernel list) option" where
  "bench_jit_compilation iters hot_iters =
     (let hw = create_mock_amdgpu_profile in
      case compile_ptx bench_ptx 100 (jit_new hw) of
        (Inl _, _) \<Rightarrow> None
      | (Inr _, engine) \<Rightarrow>
          (let cold = cold_path hw iters in
           case compile_ptx bench_ptx 999 engine of
             (Inl _, _) \<Rightarrow> None
           | (Inr _, engine) \<Rightarrow>
               (case hot_loop hot_iters engine of None \<Rightarrow> None | Some (hot, _) \<Rightarrow> Some (cold, hot))))"

lemma bench_ptx_matmul: "classify_ptx bench_ptx = MatMul"
  by code_simp

lemma bench_kernel:
  "\<exists>k. compile_fresh hw bench_ptx i = Inr k \<and> kernel_name k = ''omni_matmul_0''"
  using compile_fresh_name(1) [OF bench_ptx_matmul, of hw i]
  by (cases "compile_fresh hw bench_ptx i") auto

lemma compile_ptx_cached:
  "compile_ptx bs i j = (Inr k, j') \<Longrightarrow> compile_ptx bs i j' = (Inr k, j')"
  by (auto simp: compile_ptx_def Let_def split: option.splits sum.splits)

lemma hot_loop_cached:
  "compile_ptx bench_ptx 999 j = (Inr k, j) \<Longrightarrow> hot_loop n j = Some (replicate n k, j)"
  by (induction n) simp_all

lemma compile_ptx_matmul:
  assumes "\<And>h k. kernel_cache j h = Some k \<Longrightarrow> kernel_name k = ''omni_matmul_0''"
  shows "\<exists>k j'. compile_ptx bench_ptx i j = (Inr k, j') \<and> kernel_name k = ''omni_matmul_0'' \<and>
    (\<forall>h k. kernel_cache j' h = Some k \<longrightarrow> kernel_name k = ''omni_matmul_0'')"
proof -
  obtain k where "compile_fresh (jit_hardware j) bench_ptx i = Inr k" "kernel_name k = ''omni_matmul_0''"
    using bench_kernel by blast
  then show ?thesis
    using assms by (cases "kernel_cache j (hash_ptx bench_ptx i)") (auto simp: compile_ptx_def Let_def)
qed

section \<open>Paging\<close>

text \<open>Before each iteration the worker makes some steps; \<open>ts\<close> are the times it measures in them.\<close>

fun slide_loop :: "u64 \<Rightarrow> u64 \<Rightarrow> u64 \<Rightarrow> f64 list list \<Rightarrow> duvas_allocator pager \<Rightarrow> duvas_allocator pager option" where
  "slide_loop layer1 layer2 layer3 [] pg = Some pg"
| "slide_loop layer1 layer2 layer3 (ts # tss) pg =
     (case slide_window [layer1] [layer2] [layer3] (literal binary64 355 10)
             (worker_iter get_domain migrate ts pg) of
        (Inl _, _) \<Rightarrow> None
      | (Inr _, pg) \<Rightarrow> slide_loop layer1 layer2 layer3 tss pg)"

definition bench_memory_paging :: "f64 list list \<Rightarrow> duvas_allocator pager option" where
  "bench_memory_paging tss =
     (let allocator = duvas_new (24 * 1024 * 1024 * 1024);
          (r1, allocator) = alloc (16 * 1024 * 1024) False allocator;
          (r2, allocator) = alloc (16 * 1024 * 1024) False allocator;
          (r3, allocator) = alloc (16 * 1024 * 1024) False allocator
      in case (r1, r2, r3) of
           (Inr layer1, Inr layer2, Inr layer3) \<Rightarrow>
             slide_loop layer1 layer2 layer3 tss (pager_new allocator)
         | _ \<Rightarrow> None)"

lemma worker_iter_reach:
  "pager_reach dom_of move others s p \<Longrightarrow> pager_reach dom_of move others s (worker_iter dom_of move ts p)"
proof (induction ts arbitrary: p)
  case (Cons t ts)
  show ?case
  proof (cases "worker_step dom_of move t p")
    case (Some q)
    with Cons.IH [OF pager_next [OF Cons.prems step_worker [OF Some]]] show ?thesis by simp
  qed (simp add: Cons.prems)
qed simp

lemma slide_window_reach:
  assumes r: "pager_reach dom_of move others s p"
  shows "\<exists>q. slide_window act pre ev k p = (Inr (), q) \<and> pager_reach dom_of move others s q"
proof -
  have send: "\<exists>q. send_all cs p = (Inr (), q) \<and> pager_reach dom_of move others s q"
    if "pager_reach dom_of move others s p" "Shutdown \<notin> set cs" for cs p
    using that
  proof (induction cs arbitrary: p)
    case (Cons c cs)
    have "worker p \<noteq> Exited" using no_shutdown_reach [OF Cons.prems(1)] by (simp add: no_shutdown_def)
    then have "send c p = (Inr (), snd (send c p))" by (simp add: send_def)
    moreover have "pager_reach dom_of move others s (snd (send c p))"
      using Cons.prems by (intro pager_next [OF _ step_send]) auto
    ultimately show ?case using Cons.IH [of "snd (send c p)"] Cons.prems(2) by (auto split: prod.split)
  qed simp
  from send [OF r, of "map Evict ev"] obtain q where
    "send_all (map Evict ev) p = (Inr (), q)" "pager_reach dom_of move others s q" by auto
  moreover have "Shutdown \<notin> set (map (\<lambda>a. Prefetch a k) pre)" by auto
  ultimately show ?thesis using send [of q "map (\<lambda>a. Prefetch a k) pre"] by (simp add: slide_window_def)
qed

lemma slide_loop_reach:
  "pager_reach get_domain migrate others s p \<Longrightarrow>
     \<exists>q. slide_loop l1 l2 l3 tss p = Some q \<and> pager_reach get_domain migrate others s q"
proof (induction tss arbitrary: p)
  case (Cons ts tss)
  obtain q where "slide_window [l1] [l2] [l3] (literal binary64 355 10) (worker_iter get_domain migrate ts p) = (Inr (), q)"
    "pager_reach get_domain migrate others s q"
    using slide_window_reach [OF worker_iter_reach [OF Cons.prems]] by blast
  with Cons.IH [of q] show ?case by simp
qed simp

section \<open>Result\<close>

text \<open>The benchmark runs to its end for any number of iterations and any progress of the worker: no
  call fails, every hot iteration returns the same kernel, the cold ones compile the matrix
  kernel, and the allocator behind the pager keeps its invariant.\<close>

theorem benchmarks_complete:
  "(\<exists>cold k. bench_jit_compilation iters hot_iters = Some (cold, replicate hot_iters k) \<and>
      length cold = iters \<and> kernel_name k = ''omni_matmul_0'' \<and>
      list_all (\<lambda>r. \<exists>k. r = Inr k \<and> kernel_name k = ''omni_matmul_0'') cold) \<and>
   (\<exists>p. bench_memory_paging tss = Some p \<and> alloc_inv (memory p))"
proof
  let ?hw = create_mock_amdgpu_profile
  obtain k j where warm: "compile_ptx bench_ptx 100 (jit_new ?hw) = (Inr k, j)"
    "\<forall>h k. kernel_cache j h = Some k \<longrightarrow> kernel_name k = ''omni_matmul_0''"
    using compile_ptx_matmul [of "jit_new ?hw" 100] by (auto simp: jit_new_def)
  then obtain k' j' where filled: "compile_ptx bench_ptx 999 j = (Inr k', j')" "kernel_name k' = ''omni_matmul_0''"
    using compile_ptx_matmul [of j 999] by blast
  have "\<exists>k. fst (compile_ptx bench_ptx i (jit_new ?hw)) = Inr k \<and> kernel_name k = ''omni_matmul_0''" for i
    using compile_ptx_matmul [of "jit_new ?hw" i] by (auto simp: jit_new_def)
  then show "\<exists>cold k. bench_jit_compilation iters hot_iters = Some (cold, replicate hot_iters k) \<and>
      length cold = iters \<and> kernel_name k = ''omni_matmul_0'' \<and>
      list_all (\<lambda>r. \<exists>k. r = Inr k \<and> kernel_name k = ''omni_matmul_0'') cold"
    using warm(1) filled hot_loop_cached [OF compile_ptx_cached [OF filled(1)], of hot_iters]
    by (intro exI [of _ "cold_path ?hw iters"] exI [of _ k'])
      (simp add: bench_jit_compilation_def Let_def cold_path_def list_all_iff)
next
  let ?n = "16 * 1024 * 1024 :: usize" and ?grow = "\<lambda>a. snd (alloc (16 * 1024 * 1024) False a)"
  let ?start = "duvas_new (24 * 1024 * 1024 * 1024)"
  have "alloc ?n False a = (Inr (next_addr (state a)), ?grow a)" for a by (simp add: alloc_eq)
  then obtain l1 l2 l3 where run: "bench_memory_paging tss = slide_loop l1 l2 l3 tss (pager_new (?grow (?grow (?grow ?start))))"
    unfolding bench_memory_paging_def Let_def by (metis (no_types, lifting) case_prod_conv sum.case(2))
  have inv: "alloc_inv (?grow (?grow (?grow ?start)))"
    by (intro alloc_inv_alloc alloc_inv_new) (simp_all add: fits_def alloc_eval Let_def)
  obtain p where "slide_loop l1 l2 l3 tss (pager_new (?grow (?grow (?grow ?start)))) = Some p"
    "pager_reach get_domain migrate duvas_step (?grow (?grow (?grow ?start))) p"
    using slide_loop_reach [OF pager_start] by blast
  with run inv show "\<exists>p. bench_memory_paging tss = Some p \<and> alloc_inv (memory p)"
    using duvas.inv_pager_reach [OF _ inv] duvas_step_inv by auto
qed

end
