(* ===== verification/Kernel_Language.thy ===== *)
theory Kernel_Language
  imports Simt_Kernels "HOL-Library.Signed_Division"
begin

text \<open>
  The language in which the code generators write their kernels: the statements that the
  templates of \<open>omni-core/src/codegen/\<close> use, how each of the three target languages spells them,
  and what a block of threads does when it runs them. An access out of bounds, a variable without
  a value and a division by zero end an execution with the value None. Elements are of any type and come with
  their arithmetic; indices are integers of 32 bits.
\<close>

section \<open>Syntax\<close>

datatype axis = AxisX | AxisY

datatype expr =
    Lit int
  | Name string
  | Param string
  | ThreadId axis
  | GroupId axis
  | ZeroElem
  | Plus expr expr
  | Minus expr expr
  | Times expr expr
  | Quot expr expr
  | Elem string "expr list"
  | BlockDim
  | GlobalId
  | AsUint expr
  | Rectify expr

datatype cond = Lt expr expr | Both cond cond

text \<open>
  \<open>StoreIf\<close> is a conditional with one store in each branch, to the same place; \<open>Activate\<close> replaces
  the variable \<open>sum\<close> by its activation; a \<open>Note\<close> is a comment, a pragma or an empty line. \<open>StoreWhen\<close> is
  a conditional with one store and no other branch, on one line. \<open>Rectify\<close> is the positive part; it stands
  for a whole right-hand side.
\<close>

datatype stmt =
    DeclInt string expr
  | DeclElem string expr
  | AddTo string expr
  | Store string "expr list" expr
  | StoreIf cond string "expr list" expr expr
  | Activate string
  | Loop string expr "stmt list"
  | When cond "stmt list"
  | Barrier
  | Note string
  | StoreWhen cond string "expr list" expr

section \<open>Spelling\<close>

text \<open>What a language has no use for is empty.\<close>

record language =
  thread_id :: "axis \<Rightarrow> string"
  group_id :: "axis \<Rightarrow> string"
  param_prefix :: string
  elem_name :: string
  zero_text :: string
  barrier_text :: string
  braces :: bool
  activation_lines :: "string \<Rightarrow> string list"
  block_dim :: string
  global_id :: string
  rectify_text :: "string \<Rightarrow> string"

text \<open>Expressions with the parentheses that the precedence of C requires: 1 for sums, 2 for products, 3 for
  the rest.\<close>

definition paren :: "bool \<Rightarrow> string \<Rightarrow> string" where
  "paren b s = (if b then ''('' @ s @ '')'' else s)"

fun show_expr :: "language \<Rightarrow> nat \<Rightarrow> expr \<Rightarrow> string" and show_indices :: "language \<Rightarrow> expr list \<Rightarrow> string" where
  "show_expr l p (Lit i) = dec_int i"
| "show_expr l p (Name x) = x"
| "show_expr l p (Param x) = param_prefix l @ x"
| "show_expr l p (ThreadId a) = thread_id l a"
| "show_expr l p (GroupId a) = group_id l a"
| "show_expr l p ZeroElem = zero_text l"
| "show_expr l p (Plus a b) = paren (1 < p) (show_expr l 1 a @ '' + '' @ show_expr l 2 b)"
| "show_expr l p (Minus a b) = paren (1 < p) (show_expr l 1 a @ '' - '' @ show_expr l 2 b)"
| "show_expr l p (Times a b) = paren (2 < p) (show_expr l 2 a @ '' * '' @ show_expr l 3 b)"
| "show_expr l p (Quot a b) = paren (2 < p) (show_expr l 2 a @ '' / '' @ show_expr l 3 b)"
| "show_expr l p (Elem a es) = a @ show_indices l es"
| "show_expr l p BlockDim = block_dim l"
| "show_expr l p GlobalId = global_id l"
| "show_expr l p (AsUint e) = ''uint('' @ show_expr l 1 e @ '')''"
| "show_expr l p (Rectify e) = rectify_text l (show_expr l 1 e)"
| "show_indices l [] = []"
| "show_indices l (e # es) = ''['' @ show_expr l 1 e @ '']'' @ show_indices l es"

fun show_cond :: "language \<Rightarrow> cond \<Rightarrow> string" where
  "show_cond l (Lt a b) = show_expr l 1 a @ '' < '' @ show_expr l 1 b"
| "show_cond l (Both c d) = show_cond l c @ '' && '' @ show_cond l d"

definition indent :: "nat \<Rightarrow> string \<Rightarrow> string" where
  "indent n s = replicate n (CHR 0x09) @ s"

definition show_store :: "language \<Rightarrow> string \<Rightarrow> expr list \<Rightarrow> expr \<Rightarrow> string" where
  "show_store l a es e = a @ show_indices l es @ '' = '' @ show_expr l 1 e @ '';''"

fun show_stmt :: "language \<Rightarrow> nat \<Rightarrow> stmt \<Rightarrow> string list"
  and show_stmts :: "language \<Rightarrow> nat \<Rightarrow> stmt list \<Rightarrow> string list" where
  "show_stmt l n (DeclInt x e) = [indent n (''int '' @ x @ '' = '' @ show_expr l 1 e @ '';'')]"
| "show_stmt l n (DeclElem x e) = [indent n (elem_name l @ '' '' @ x @ '' = '' @ show_expr l 1 e @ '';'')]"
| "show_stmt l n (AddTo x e) = [indent n (x @ '' += '' @ show_expr l 1 e @ '';'')]"
| "show_stmt l n (Store a es e) = [indent n (show_store l a es e)]"
| "show_stmt l n (StoreIf c a es e e') =
     (if braces l
      then [indent n (''if ('' @ show_cond l c @ '') {''), indent (n + 1) (show_store l a es e),
            indent n ''} else {'', indent (n + 1) (show_store l a es e'), indent n ''}'']
      else [indent n (''if ('' @ show_cond l c @ '') '' @ show_store l a es e),
            indent n (''else '' @ show_store l a es e')])"
| "show_stmt l n (Activate act) = activation_lines l act"
| "show_stmt l n (Loop v b body) =
     indent n (''for (int '' @ v @ '' = 0; '' @ v @ '' < '' @ show_expr l 1 b @ ''; ++'' @ v @ '') {'') #
     show_stmts l (n + 1) body @ [indent n ''}'']"
| "show_stmt l n (When c body) =
     indent n (''if ('' @ show_cond l c @ '') {'') # show_stmts l (n + 1) body @ [indent n ''}'']"
| "show_stmt l n Barrier = [indent n (barrier_text l)]"
| "show_stmt l n (Note s) = [if s = [] then [] else indent n s]"
| "show_stmt l n (StoreWhen c a es e) = [indent n (''if ('' @ show_cond l c @ '') '' @ show_store l a es e)]"
| "show_stmts l n [] = []"
| "show_stmts l n (s # ss) = show_stmt l n s @ show_stmts l n ss"

section \<open>Execution by one thread\<close>

text \<open>The parameters, the place of the block and its width, and the arithmetic of the elements. A variable
  holds an index or an element; the domain of an array are its indices.\<close>

record 'e launch =
  param_of :: "string \<rightharpoonup> int"
  group_y :: nat
  group_x :: nat
  block_width :: nat
  act_fun :: "string \<Rightarrow> 'e \<Rightarrow> 'e"
  zero_elem :: 'e
  add_elem :: "'e \<Rightarrow> 'e \<Rightarrow> 'e"
  mul_elem :: "'e \<Rightarrow> 'e \<Rightarrow> 'e"
  pos_elem :: "'e \<Rightarrow> 'e"

datatype 'e val = IntV int | ElemV 'e

type_synonym 'e vars = "string \<rightharpoonup> 'e val"
type_synonym 'e arrays = "string \<Rightarrow> int list \<rightharpoonup> 'e"

definition lift2 :: "('a \<Rightarrow> 'b \<Rightarrow> 'c) \<Rightarrow> 'a option \<Rightarrow> 'b option \<Rightarrow> 'c option" where
  "lift2 f a b = (case a of None \<Rightarrow> None | Some x \<Rightarrow> map_option (f x) b)"

lemma lift2_Some [simp]: "lift2 f (Some x) (Some y) = Some (f x y)"
  by (simp add: lift2_def)

text \<open>Indices have the type \<open>int\<close> of 32 bits in all three languages. A value outside its range ends the execution:
  what runs to its end does not overflow, whether the language wraps around or leaves an overflow undefined.\<close>

definition int32 :: "int option \<Rightarrow> int option" where
  "int32 v = (case v of None \<Rightarrow> None | Some i \<Rightarrow> if - (2 ^ 31) \<le> i \<and> i < 2 ^ 31 then Some i else None)"

definition uint32 :: "int option \<Rightarrow> int option" where
  "uint32 v = (case v of None \<Rightarrow> None | Some i \<Rightarrow> if 0 \<le> i \<and> i < 2 ^ 32 then Some i else None)"

lemma int32_None [simp]: "int32 None = None"
  by (simp add: int32_def)

lemma int32_in_range: "- (2 ^ 31) \<le> i \<Longrightarrow> i < 2 ^ 31 \<Longrightarrow> int32 (Some i) = Some i"
  by (simp add: int32_def)

lemma int32_SomeD: "int32 v = Some i \<Longrightarrow> v = Some i \<and> - (2 ^ 31) \<le> i \<and> i < 2 ^ 31"
  by (simp add: int32_def split: option.splits if_splits)

lemma uint32_in_range: "0 \<le> i \<Longrightarrow> i < 2 ^ 32 \<Longrightarrow> uint32 (Some i) = Some i"
  by (simp add: uint32_def)

lemma int32_nat: "n < 2 ^ 31 \<Longrightarrow> int32 (Some (int n)) = Some (int n)"
  by (rule int32_in_range) simp_all

lemma uint32_nat: "n < 2 ^ 32 \<Longrightarrow> uint32 (Some (int n)) = Some (int n)"
  by (rule uint32_in_range) simp_all

text \<open>Expressions for indices do not read arrays.\<close>

fun eval :: "'e launch \<Rightarrow> thread \<Rightarrow> 'e vars \<Rightarrow> expr \<Rightarrow> int option" where
  "eval L th vs (Lit i) = Some i"
| "eval L th vs (Name x) = (case vs x of Some (IntV i) \<Rightarrow> Some i | _ \<Rightarrow> None)"
| "eval L th vs (Param x) = int32 (param_of L x)"
| "eval L th vs (ThreadId a) = uint32 (Some (int (case a of AxisX \<Rightarrow> snd th | AxisY \<Rightarrow> fst th)))"
| "eval L th vs (GroupId a) = uint32 (Some (int (case a of AxisX \<Rightarrow> group_x L | AxisY \<Rightarrow> group_y L)))"
| "eval L th vs (Plus a b) = int32 (lift2 (+) (eval L th vs a) (eval L th vs b))"
| "eval L th vs (Minus a b) = int32 (lift2 (-) (eval L th vs a) (eval L th vs b))"
| "eval L th vs (Times a b) = int32 (lift2 (*) (eval L th vs a) (eval L th vs b))"
| "eval L th vs (Quot a b) =
     (if eval L th vs b = Some 0 then None else int32 (lift2 (sdiv) (eval L th vs a) (eval L th vs b)))"
| "eval L th vs BlockDim = uint32 (Some (int (block_width L)))"
| "eval L th vs GlobalId = uint32 (Some (int (group_x L * block_width L + snd th)))"
| "eval L th vs (AsUint e) = map_option (\<lambda>v. v mod 2 ^ 32) (eval L th vs e)"
| "eval L th vs _ = None"

primrec eval_list :: "(expr \<Rightarrow> int option) \<Rightarrow> expr list \<Rightarrow> int list option" where
  "eval_list ev [] = Some []"
| "eval_list ev (e # es) =
     (case ev e of None \<Rightarrow> None | Some i \<Rightarrow> map_option ((#) i) (eval_list ev es))"

abbreviation evals :: "'e launch \<Rightarrow> thread \<Rightarrow> 'e vars \<Rightarrow> expr list \<Rightarrow> int list option" where
  "evals L th vs \<equiv> eval_list (eval L th vs)"

fun eval_elem :: "'e launch \<Rightarrow> thread \<Rightarrow> 'e vars \<Rightarrow> 'e arrays \<Rightarrow> expr \<Rightarrow> 'e option" where
  "eval_elem L th vs m (Name x) = (case vs x of Some (ElemV v) \<Rightarrow> Some v | _ \<Rightarrow> None)"
| "eval_elem L th vs m ZeroElem = Some (zero_elem L)"
| "eval_elem L th vs m (Plus a b) = lift2 (add_elem L) (eval_elem L th vs m a) (eval_elem L th vs m b)"
| "eval_elem L th vs m (Times a b) = lift2 (mul_elem L) (eval_elem L th vs m a) (eval_elem L th vs m b)"
| "eval_elem L th vs m (Rectify e) = map_option (pos_elem L) (eval_elem L th vs m e)"
| "eval_elem L th vs m (Elem a es) = (case evals L th vs es of None \<Rightarrow> None | Some js \<Rightarrow> m a js)"
| "eval_elem L th vs m _ = None"

text \<open>The second operand of \<open>&&\<close> is only evaluated when the first one holds.\<close>

fun holds :: "'e launch \<Rightarrow> thread \<Rightarrow> 'e vars \<Rightarrow> cond \<Rightarrow> bool option" where
  "holds L th vs (Lt a b) = lift2 (<) (eval L th vs a) (eval L th vs b)"
| "holds L th vs (Both c d) =
     (case holds L th vs c of None \<Rightarrow> None | Some b \<Rightarrow> if b then holds L th vs d else Some False)"

definition write_elem :: "string \<Rightarrow> int list \<Rightarrow> 'e \<Rightarrow> 'e arrays \<Rightarrow> 'e arrays option" where
  "write_elem a js v m = (if m a js = None then None else Some (m(a := (m a)(js \<mapsto> v))))"

definition store ::
  "'e launch \<Rightarrow> thread \<Rightarrow> string \<Rightarrow> expr list \<Rightarrow> expr \<Rightarrow> 'e vars \<times> 'e arrays \<Rightarrow> ('e vars \<times> 'e arrays) option" where
  "store L th a es e s =
     (case evals L th (fst s) es of
        None \<Rightarrow> None
      | Some js \<Rightarrow>
          (case eval_elem L th (fst s) (snd s) e of
             None \<Rightarrow> None
           | Some v \<Rightarrow> map_option (Pair (fst s)) (write_elem a js v (snd s))))"

primrec fold_opt :: "('a \<Rightarrow> 's \<Rightarrow> 's option) \<Rightarrow> 'a list \<Rightarrow> 's \<Rightarrow> 's option" where
  "fold_opt f [] s = Some s"
| "fold_opt f (x # xs) s = (case f x s of None \<Rightarrow> None | Some t \<Rightarrow> fold_opt f xs t)"

lemma fold_opt_cong [fundef_cong]:
  "xs = ys \<Longrightarrow> s = t \<Longrightarrow> (\<And>x s. x \<in> set ys \<Longrightarrow> f x s = g x s) \<Longrightarrow> fold_opt f xs s = fold_opt g ys t"
  by (induction xs arbitrary: ys s t) (auto split: option.split)

lemma fold_opt_append:
  "fold_opt f (xs @ ys) s = (case fold_opt f xs s of None \<Rightarrow> None | Some t \<Rightarrow> fold_opt f ys t)"
  by (induction xs arbitrary: s) (auto split: option.split)

text \<open>The rectification is arithmetic; the other activations that the generators know are parameters. For any other
  name the generators emit nothing.\<close>

definition activate :: "'e launch \<Rightarrow> string \<Rightarrow> 'e \<Rightarrow> 'e" where
  "activate L act v =
     (if act = ''Relu'' then pos_elem L v else if act = ''Gelu'' \<or> act = ''Silu'' then act_fun L act v else v)"

text \<open>
  The bound of a loop is evaluated once: it consists of parameters and literals in all templates.
  A barrier has no effect on a single thread.
\<close>

fun run_stmt :: "'e launch \<Rightarrow> thread \<Rightarrow> stmt \<Rightarrow> 'e vars \<times> 'e arrays \<Rightarrow> ('e vars \<times> 'e arrays) option"
  and run_stmts :: "'e launch \<Rightarrow> thread \<Rightarrow> stmt list \<Rightarrow> 'e vars \<times> 'e arrays \<Rightarrow> ('e vars \<times> 'e arrays) option" where
  "run_stmt L th (DeclInt x e) s = map_option (\<lambda>v. ((fst s)(x \<mapsto> IntV v), snd s)) (int32 (eval L th (fst s) e))"
| "run_stmt L th (DeclElem x e) s =
     map_option (\<lambda>v. ((fst s)(x \<mapsto> ElemV v), snd s)) (eval_elem L th (fst s) (snd s) e)"
| "run_stmt L th (AddTo x e) s =
     map_option (\<lambda>v. ((fst s)(x \<mapsto> ElemV v), snd s)) (eval_elem L th (fst s) (snd s) (Plus (Name x) e))"
| "run_stmt L th (Store a es e) s = store L th a es e s"
| "run_stmt L th (StoreIf c a es e e') s =
     (case holds L th (fst s) c of None \<Rightarrow> None | Some b \<Rightarrow> store L th a es (if b then e else e') s)"
| "run_stmt L th (Activate act) s =
     map_option (\<lambda>v. ((fst s)(''sum'' \<mapsto> ElemV (activate L act v)), snd s)) (eval_elem L th (fst s) (snd s) (Name ''sum''))"
| "run_stmt L th (Loop v b body) s =
     (case int32 (eval L th (fst s) b) of None \<Rightarrow> None
      | Some n \<Rightarrow> fold_opt (\<lambda>i t. run_stmts L th body ((fst t)(v \<mapsto> IntV (int i)), snd t)) [0..<nat n] s)"
| "run_stmt L th (When c body) s =
     (case holds L th (fst s) c of None \<Rightarrow> None
      | Some b \<Rightarrow> if b then run_stmts L th body s else Some s)"
| "run_stmt L th Barrier s = Some s"
| "run_stmt L th (Note t) s = Some s"
| "run_stmt L th (StoreWhen c a es e) s =
     (case holds L th (fst s) c of None \<Rightarrow> None
      | Some b \<Rightarrow> if b then store L th a es e s else Some s)"
| "run_stmts L th [] s = Some s"
| "run_stmts L th (x # xs) s = (case run_stmt L th x s of None \<Rightarrow> None | Some t \<Rightarrow> run_stmts L th xs t)"

lemma run_stmts_append:
  "run_stmts L th (xs @ ys) s = (case run_stmts L th xs s of None \<Rightarrow> None | Some t \<Rightarrow> run_stmts L th ys t)"
  by (induction xs arbitrary: s) (auto split: option.split)

section \<open>Execution by a block\<close>

fun has_barrier :: "stmt \<Rightarrow> bool" and has_barriers :: "stmt list \<Rightarrow> bool" where
  "has_barrier Barrier = True"
| "has_barrier (Loop v b body) = has_barriers body"
| "has_barrier (When c body) = has_barriers body"
| "has_barrier _ = False"
| "has_barriers [] = False"
| "has_barriers (s # ss) = (has_barrier s \<or> has_barriers ss)"

text \<open>
  A loop with barriers is unrolled, which needs a bound without variables; a barrier under a
  condition is undefined. What remains is a list of statements whose barriers are all at the top,
  and the statements between two of them form a segment.
\<close>

fun unroll :: "'e launch \<Rightarrow> stmt \<Rightarrow> stmt list option" and unrolls :: "'e launch \<Rightarrow> stmt list \<Rightarrow> stmt list option" where
  "unroll L (Loop v b body) =
     (if \<not> has_barriers body then Some [Loop v b body]
      else case int32 (eval L (0, 0) Map.empty b) of None \<Rightarrow> None
         | Some n \<Rightarrow> map_option (\<lambda>ss. concat (map (\<lambda>i. DeclInt v (Lit (int i)) # ss) [0..<nat n])) (unrolls L body))"
| "unroll L (When c body) = (if has_barriers body then None else Some [When c body])"
| "unroll L s = Some [s]"
| "unrolls L [] = Some []"
| "unrolls L (s # ss) =
     (case unroll L s of None \<Rightarrow> None | Some xs \<Rightarrow> map_option ((@) xs) (unrolls L ss))"

fun segments :: "stmt list \<Rightarrow> stmt list list" where
  "segments [] = [[]]"
| "segments (s # ss) =
     (if s = Barrier then [] # segments ss
      else case segments ss of [] \<Rightarrow> [[s]] | seg # segs \<Rightarrow> (s # seg) # segs)"

record 'e block_run =
  vars_of :: "thread \<Rightarrow> 'e vars"
  arrays_of :: "'e arrays"

definition thread_step :: "'e launch \<Rightarrow> stmt list \<Rightarrow> thread \<Rightarrow> 'e block_run \<Rightarrow> 'e block_run option" where
  "thread_step L seg th g =
     map_option (\<lambda>(vs, m). \<lparr>vars_of = (vars_of g)(th := vs), arrays_of = m\<rparr>)
       (run_stmts L th seg (vars_of g th, arrays_of g))"

text \<open>Between two barriers the threads run in the order \<open>ord i\<close>.\<close>

primrec run_segments ::
  "'e launch \<Rightarrow> (nat \<Rightarrow> thread list) \<Rightarrow> nat \<Rightarrow> stmt list list \<Rightarrow> 'e block_run \<Rightarrow> 'e block_run option" where
  "run_segments L ord i [] g = Some g"
| "run_segments L ord i (seg # segs) g =
     (case fold_opt (thread_step L seg) (ord i) g of None \<Rightarrow> None
      | Some g \<Rightarrow> run_segments L ord (Suc i) segs g)"

definition run_code :: "'e launch \<Rightarrow> (nat \<Rightarrow> thread list) \<Rightarrow> stmt list \<Rightarrow> 'e block_run \<Rightarrow> 'e block_run option" where
  "run_code L ord code g =
     (case unrolls L code of None \<Rightarrow> None | Some ss \<Rightarrow> run_segments L ord 0 (segments ss) g)"

lemma segments_nonempty: "segments ss \<noteq> []"
  by (induction ss) (simp_all split: list.split)

lemma segments_append:
  "Barrier \<notin> set xs \<Longrightarrow> segments (xs @ Barrier # ys) = xs # segments ys"
  by (induction xs) auto

lemma segments_single: "Barrier \<notin> set xs \<Longrightarrow> segments xs = [xs]"
  by (induction xs) auto

lemma run_segments_append:
  "run_segments L ord i (xs @ ys) g =
     (case run_segments L ord i xs g of None \<Rightarrow> None | Some h \<Rightarrow> run_segments L ord (i + length xs) ys h)"
  by (induction xs arbitrary: i g) (auto split: option.split)

lemma has_barriers_append: "has_barriers (xs @ ys) = (has_barriers xs \<or> has_barriers ys)"
  by (induction xs) auto

lemma has_barriers_map: "(\<And>x. \<not> has_barrier (f x)) \<Longrightarrow> \<not> has_barriers (map f xs)"
  by (induction xs) auto

lemma unroll_flat: "s = Barrier \<or> \<not> has_barrier s \<Longrightarrow> unroll L s = Some [s]"
  by (cases s) auto

lemma unrolls_flat: "(\<And>s. s \<in> set ss \<Longrightarrow> s = Barrier \<or> \<not> has_barrier s) \<Longrightarrow> unrolls L ss = Some ss"
  by (induction ss) (auto simp: unroll_flat)

lemma unrolls_append:
  "unrolls L (xs @ ys) =
     (case unrolls L xs of None \<Rightarrow> None
      | Some us \<Rightarrow> (case unrolls L ys of None \<Rightarrow> None | Some vs \<Rightarrow> Some (us @ vs)))"
  by (induction xs) (auto split: option.split)

end
