(* ===== verification/Kernel_Steps.thy ===== *)
theory Kernel_Steps
  imports Kernel_Language
begin

text \<open>
  The threads of a block, statement by statement: between two barriers they take their steps in any
  interleaving. A segment in which no thread touches what another one writes has one result, the one
  of running its threads one after another, and every interleaving gets there.
\<close>

section \<open>Steps\<close>

text \<open>One step of a thread executes a statement and may put others in its place: a loop is unrolled, a
  conditional is replaced by its body.\<close>

fun step_stmt :: "'e launch \<Rightarrow> thread \<Rightarrow> stmt \<Rightarrow> 'e vars \<times> 'e arrays \<Rightarrow> (stmt list \<times> 'e vars \<times> 'e arrays) option" where
  "step_stmt L th (Loop v b body) s =
     (case int32 (eval L th (fst s) b) of None \<Rightarrow> None
      | Some n \<Rightarrow> Some (concat (map (\<lambda>i. DeclInt v (Lit (int i)) # body) [0..<nat n]), s))"
| "step_stmt L th (When c body) s =
     (case holds L th (fst s) c of None \<Rightarrow> None | Some b \<Rightarrow> Some (if b then body else [], s))"
| "step_stmt L th x s = map_option (Pair []) (run_stmt L th x s)"

type_synonym 'e thread_state = "stmt list \<times> 'e vars \<times> 'e arrays"

text \<open>\<open>n\<close> steps of one thread alone.\<close>

fun solo :: "nat \<Rightarrow> 'e launch \<Rightarrow> thread \<Rightarrow> 'e thread_state \<Rightarrow> 'e thread_state option" where
  "solo 0 L th c = Some c"
| "solo (Suc n) L th (ss, s) =
     (case ss of [] \<Rightarrow> None
      | x # xs \<Rightarrow> (case step_stmt L th x s of None \<Rightarrow> None | Some (new, t) \<Rightarrow> solo n L th (new @ xs, t)))"

lemma solo_add:
  "solo (m + n) L th c = (case solo m L th c of None \<Rightarrow> None | Some d \<Rightarrow> solo n L th d)"
  by (induction m L th c rule: solo.induct) (auto split: list.splits option.splits)

lemma solo_Suc_end: "solo (Suc n) L th c = (case solo n L th c of None \<Rightarrow> None | Some d \<Rightarrow> solo 1 L th d)"
  using solo_add [of n 1 L th c] by simp

lemma loop_index: "int32 v = Some n \<Longrightarrow> i \<in> set [0..<nat n] \<Longrightarrow> i < 2 ^ 31"
  by (auto dest: int32_SomeD)

lemma fold_opt_unrolled:
  "\<forall>i \<in> set is. i < 2 ^ 31 \<Longrightarrow> run_stmts L th (concat (map (\<lambda>i. DeclInt v (Lit (int i)) # body) is)) s =
     fold_opt (\<lambda>i t. run_stmts L th body ((fst t)(v \<mapsto> IntV (int i)), snd t)) is s"
  by (induction "is" arbitrary: s) (simp_all add: run_stmts_append int32_nat split: option.split)

lemma loop_unrolled:
  "int32 w = Some n \<Longrightarrow> run_stmts L th (concat (map (\<lambda>i. DeclInt v (Lit (int i)) # body) [0..<nat n])) s =
     fold_opt (\<lambda>i t. run_stmts L th body ((fst t)(v \<mapsto> IntV (int i)), snd t)) [0..<nat n] s"
  by (rule fold_opt_unrolled) (use loop_index in blast)

lemma solo_trans: "solo m L th c = Some d \<Longrightarrow> solo n L th d = Some e \<Longrightarrow> solo (m + n) L th c = Some e"
  by (simp add: solo_add)

lemma solo_unrolled:
  assumes body: "\<And>s t rest. run_stmts L th body s = Some t \<Longrightarrow> \<exists>n. solo n L th (body @ rest, s) = Some (rest, t)"
    and "run_stmts L th (concat (map (\<lambda>i. DeclInt v (Lit (int i)) # body) is)) s = Some t"
    and "\<forall>i \<in> set is. i < 2 ^ 31"
  shows "\<exists>n. solo n L th (concat (map (\<lambda>i. DeclInt v (Lit (int i)) # body) is) @ rest, s) = Some (rest, t)"
  using assms(2,3)
proof (induction "is" arbitrary: s)
  case Nil
  then show ?case by (auto intro: exI [of _ 0])
next
  case (Cons i "is")
  let ?U = "concat (map (\<lambda>i. DeclInt v (Lit (int i)) # body) is)"
  let ?s = "((fst s)(v \<mapsto> IntV (int i)), snd s)"
  from Cons.prems obtain u where u: "run_stmts L th body ?s = Some u" "run_stmts L th ?U u = Some t"
    by (auto simp: run_stmts_append int32_nat split: option.splits)
  have i: "i < 2 ^ 31" and rest: "\<forall>j \<in> set is. j < 2 ^ 31" using Cons.prems(2) by simp_all
  from body [OF u(1)] obtain n where n: "solo n L th (body @ ?U @ rest, ?s) = Some (?U @ rest, u)" by blast
  from Cons.IH [OF u(2) rest] obtain k where k: "solo k L th (?U @ rest, u) = Some (rest, t)" by blast
  have "solo (Suc (n + k)) L th (concat (map (\<lambda>i. DeclInt v (Lit (int i)) # body) (i # is)) @ rest, s) = Some (rest, t)"
    using solo_trans [OF n k] by (simp add: int32_nat [OF i])
  then show ?case by blast
qed

text \<open>A run of a thread alone is a sequence of steps.\<close>

lemma solo_run:
  "run_stmt L th x s = Some t \<Longrightarrow> \<exists>n. solo n L th (x # rest, s) = Some (rest, t)"
  "run_stmts L th ss s = Some t \<Longrightarrow> \<exists>n. solo n L th (ss @ rest, s) = Some (rest, t)"
proof (induction x and ss arbitrary: s t rest and s t rest rule: show_stmt_show_stmts.induct)
  case (7 l n v b body)
  from "7.prems" obtain k where k: "int32 (eval L th (fst s) b) = Some k"
    and r: "run_stmts L th (concat (map (\<lambda>i. DeclInt v (Lit (int i)) # body) [0..<nat k])) s = Some t"
    by (auto simp: loop_unrolled split: option.splits)
  have "\<forall>i \<in> set [0..<nat k]. i < 2 ^ 31" using loop_index [OF k] by blast
  from solo_unrolled [OF "7.IH" r this] obtain m where
    "solo m L th (concat (map (\<lambda>i. DeclInt v (Lit (int i)) # body) [0..<nat k]) @ rest, s) = Some (rest, t)" by blast
  then have "solo (Suc m) L th (Loop v b body # rest, s) = Some (rest, t)" using k by simp
  then show ?case by blast
next
  case (8 l n c body)
  then obtain b where b: "holds L th (fst s) c = Some b" by (auto split: option.splits)
  have "\<exists>m. solo m L th ((if b then body else []) @ rest, s) = Some (rest, t)"
    using "8.prems" "8.IH" b by (cases b) (auto intro: exI [of _ 0])
  then obtain m where "solo (Suc m) L th (When c body # rest, s) = Some (rest, t)" using b by auto
  then show ?case by blast
next
  case (12 l n)
  then show ?case by (auto intro: exI [of _ 0])
next
  case (13 l n x ss)
  then obtain u where "run_stmt L th x s = Some u" "run_stmts L th ss u = Some t" by (auto split: option.splits)
  with "13.IH" obtain m k where "solo m L th (x # ss @ rest, s) = Some (ss @ rest, u)"
    "solo k L th (ss @ rest, u) = Some (rest, t)" by meson
  from solo_trans [OF this] show ?case by auto
qed (auto intro!: exI [of _ 1] simp del: run_stmt.simps)

lemma run_step:
  "run_stmts L th (x # xs) s =
     (case step_stmt L th x s of None \<Rightarrow> None | Some (new, t) \<Rightarrow> run_stmts L th (new @ xs) t)"
proof (cases x)
  case (Loop v b body)
  then show ?thesis by (auto simp: run_stmts_append loop_unrolled split: option.split)
next
  case (When c body)
  then show ?thesis by (auto simp: run_stmts_append split: option.split)
qed (auto simp del: run_stmt.simps split: option.split)

lemma run_solo: "solo n L th (ss, s) = Some ([], t) \<Longrightarrow> run_stmts L th ss s = Some t"
proof (induction n arbitrary: ss s)
  case (Suc n)
  then obtain x xs new u where "ss = x # xs" "step_stmt L th x s = Some (new, u)" "solo n L th (new @ xs, u) = Some ([], t)"
    by (auto split: list.splits option.splits)
  then show ?case using Suc.IH [of "new @ xs" u] by (simp only: run_step option.case prod.case)
qed simp

text \<open>A finished thread has no further step, so it finishes after a definite number of steps.\<close>

lemma solo_before_end:
  assumes N: "solo N L th c = Some ([], t)" and k: "solo k L th c = Some (ss, u)"
  shows "k \<le> N" and "ss = [] \<longleftrightarrow> k = N" and "k = N \<Longrightarrow> u = t"
    and "ss \<noteq> [] \<Longrightarrow> solo 1 L th (ss, u) \<noteq> None"
proof -
  have stop: "solo n L th ([], t) = None" if "0 < n" for n t using that by (cases n) auto
  show le: "k \<le> N"
  proof (rule ccontr)
    assume "\<not> k \<le> N"
    then have "k = N + (k - N)" "0 < k - N" by auto
    then have "solo k L th c = None" using solo_add [of N "k - N" L th c] N stop by simp
    with k show False by simp
  qed
  have rest: "solo (N - k) L th (ss, u) = Some ([], t)"
    using solo_add [of k "N - k" L th c] N k le by simp
  show "ss = [] \<longleftrightarrow> k = N"
  proof
    assume "ss = []"
    then have "\<not> 0 < N - k" using rest stop [of "N - k" u] by (metis option.distinct(1))
    then show "k = N" using le by simp
  next
    assume "k = N" then show "ss = []" using N k by simp
  qed
  show "k = N \<Longrightarrow> u = t" using N k by simp
  show "solo 1 L th (ss, u) \<noteq> None" if "ss \<noteq> []"
  proof -
    have "N - k \<noteq> 0" using rest that by (cases "N - k") auto
    then have "N - k = 1 + (N - k - 1)" by simp
    then show ?thesis using rest solo_add [of 1 "N - k - 1" L th "(ss, u)"] by (auto split: option.splits)
  qed
qed

section \<open>What a thread can touch\<close>

text \<open>Of the arrays in \<open>W\<close> a thread sees the elements in \<open>P\<close>. What it can do on this part of memory it does on
  the whole memory in the same way, and leaves the rest alone.\<close>

definition own_view :: "string set \<Rightarrow> (string \<Rightarrow> int list set) \<Rightarrow> 'e arrays \<Rightarrow> 'e arrays" where
  "own_view W P m = (\<lambda>a. if a \<in> W then m a |` P a else m a)"

lemma view_other: "a \<notin> W \<Longrightarrow> own_view W P m a = m a"
  by (simp add: own_view_def)

lemma view_own: "a \<in> W \<Longrightarrow> js \<in> P a \<Longrightarrow> own_view W P m a js = m a js"
  by (simp add: own_view_def)

lemma view_Some: "own_view W P m a js = Some v \<Longrightarrow> m a js = Some v"
  by (auto simp: own_view_def restrict_map_def split: if_splits)

lemma lift2_eq_Some: "lift2 f x y = Some z \<longleftrightarrow> (\<exists>a b. x = Some a \<and> y = Some b \<and> z = f a b)"
  by (cases x; cases y) (auto simp: lift2_def)

lemma eval_elem_view:
  "eval_elem L th vs (own_view W P m) e = Some v \<Longrightarrow> eval_elem L th vs m e = Some v"
  by (induction e arbitrary: v) (auto simp: lift2_eq_Some split: option.splits dest: view_Some)

text \<open>Statements that store only to arrays in \<open>W\<close>.\<close>

fun stores_in :: "string set \<Rightarrow> stmt \<Rightarrow> bool" where
  "stores_in W (Store a es e) = (a \<in> W)"
| "stores_in W (StoreIf c a es e e') = (a \<in> W)"
| "stores_in W (StoreWhen c a es e) = (a \<in> W)"
| "stores_in W (Loop v b body) = list_all (stores_in W) body"
| "stores_in W (When c body) = list_all (stores_in W) body"
| "stores_in W _ = True"

lemma stores_in_mono: "stores_in W s \<Longrightarrow> W \<subseteq> W' \<Longrightarrow> stores_in W' s"
  by (induction W s rule: stores_in.induct) (auto simp: list_all_iff)

text \<open>Outside of the part that a thread owns, nothing changes.\<close>

definition same_outside :: "string set \<Rightarrow> (string \<Rightarrow> int list set) \<Rightarrow> 'e arrays \<Rightarrow> 'e arrays \<Rightarrow> bool" where
  "same_outside W P m m' \<longleftrightarrow> (\<forall>a js. a \<notin> W \<or> js \<notin> P a \<longrightarrow> m' a js = m a js)"

lemma same_outside_refl [simp]: "same_outside W P m m"
  by (simp add: same_outside_def)

lemma same_outside_trans: "same_outside W P m m' \<Longrightarrow> same_outside W P m' m'' \<Longrightarrow> same_outside W P m m''"
  by (simp add: same_outside_def)

lemma view_upd:
  "a \<in> W \<Longrightarrow> js \<in> P a \<Longrightarrow>
     own_view W P (m(a := (m a)(js \<mapsto> v))) = (own_view W P m)(a := (own_view W P m a)(js \<mapsto> v))"
  by (intro ext) (simp add: own_view_def restrict_map_def)

lemma store_view:
  assumes "store L th a es e (vs, own_view W P m) = Some (vs', m1)" and "a \<in> W"
  shows "\<exists>m'. store L th a es e (vs, m) = Some (vs', m') \<and> m1 = own_view W P m' \<and> same_outside W P m m'"
proof -
  obtain js v where j: "evals L th vs es = Some js" "eval_elem L th vs (own_view W P m) e = Some v"
    "write_elem a js v (own_view W P m) = Some m1" and vs: "vs' = vs"
    using assms(1) by (auto simp: store_def split: option.splits)
  then have own: "js \<in> P a" "m a js \<noteq> None"
    using assms(2) by (auto simp: write_elem_def own_view_def restrict_map_def split: if_splits)
  let ?m = "m(a := (m a)(js \<mapsto> v))"
  have "m1 = own_view W P ?m"
    using j(3) unfolding view_upd [of a W js P, OF assms(2) own(1)] by (simp add: write_elem_def split: if_splits)
  moreover have "store L th a es e (vs, m) = Some (vs, ?m)"
    using own eval_elem_view [OF j(2)] j(1) by (simp add: store_def write_elem_def)
  moreover have "same_outside W P m ?m" using own assms(2) by (auto simp: same_outside_def)
  ultimately show ?thesis using vs by blast
qed

lemma step_view:
  assumes "step_stmt L th x (vs, own_view W P m) = Some (new, vs', m1)" and "stores_in W x"
  shows "\<exists>m'. step_stmt L th x (vs, m) = Some (new, vs', m') \<and> m1 = own_view W P m' \<and> same_outside W P m m' \<and>
    list_all (stores_in W) new"
proof (cases x)
  case (Store a es e)
  then show ?thesis using assms store_view [of L th a es e vs W P m vs' m1] by auto
next
  case (StoreIf c a es e e')
  then obtain b where b: "holds L th vs c = Some b"
    "store L th a es (if b then e else e') (vs, own_view W P m) = Some (vs', m1)"
    using assms(1) by (auto split: option.splits)
  show ?thesis
    using store_view [OF b(2)] assms StoreIf b by auto
next
  case (StoreWhen c a es e)
  then obtain b where b: "holds L th vs c = Some b"
    "(if b then store L th a es e (vs, own_view W P m) else Some (vs, own_view W P m)) = Some (vs', m1)"
    using assms(1) by (auto split: option.splits)
  then show ?thesis
    using store_view [of L th a es e vs W P m vs' m1] assms StoreWhen b(1) by (cases b) auto
next
  case (Loop v b body)
  then show ?thesis using assms
    by (auto simp: list_all_iff split: option.splits)
next
  case (When c body)
  then show ?thesis using assms
    by (auto split: option.splits if_splits)
next
  case (AddTo y e)
  then show ?thesis using assms eval_elem_view [of L th vs W P m] by (auto simp: lift2_eq_Some split: option.splits)
qed (use assms eval_elem_view [of L th vs W P m] in \<open>auto split: option.splits\<close>)

lemma solo_view:
  "solo n L th (ss, vs, own_view W P m) = Some (ss', vs', m1) \<Longrightarrow> list_all (stores_in W) ss \<Longrightarrow>
     \<exists>m'. solo n L th (ss, vs, m) = Some (ss', vs', m') \<and> m1 = own_view W P m' \<and> same_outside W P m m' \<and>
       list_all (stores_in W) ss'"
proof (induction n arbitrary: ss vs m)
  case (Suc n)
  then obtain x xs new ws m2 where x: "ss = x # xs" "step_stmt L th x (vs, own_view W P m) = Some (new, ws, m2)"
    "solo n L th (new @ xs, ws, m2) = Some (ss', vs', m1)"
    by (auto split: list.splits option.splits)
  with Suc.prems(2) step_view [OF x(2)] obtain m3 where
    m3: "step_stmt L th x (vs, m) = Some (new, ws, m3)" "m2 = own_view W P m3" "same_outside W P m m3"
    "list_all (stores_in W) new" by auto
  with Suc.IH [of "new @ xs" ws m3] Suc.prems(2) x obtain m' where
    "solo n L th (new @ xs, ws, m3) = Some (ss', vs', m')" "m1 = own_view W P m'" "same_outside W P m3 m'"
    "list_all (stores_in W) ss'" by auto
  then show ?case using m3 x(1) by (auto intro: same_outside_trans)
qed auto

section \<open>Interleavings\<close>

text \<open>The threads of a segment: what each has left to do, their variables, and memory.\<close>

type_synonym 'e seg_state = "(thread \<Rightarrow> stmt list) \<times> (thread \<Rightarrow> 'e vars) \<times> 'e arrays"

inductive seg_step :: "'e launch \<Rightarrow> 'e seg_state \<Rightarrow> 'e seg_state \<Rightarrow> bool" for L where
  thread_moves: "code th = x # xs \<Longrightarrow> step_stmt L th x (vs th, m) = Some (new, ws, m') \<Longrightarrow>
    seg_step L (code, vs, m) (code(th := new @ xs), vs(th := ws), m')"

definition seg_start :: "thread set \<Rightarrow> stmt list \<Rightarrow> 'e block_run \<Rightarrow> 'e seg_state" where
  "seg_start ths seg g = (\<lambda>th. if th \<in> ths then seg else [], vars_of g, arrays_of g)"

text \<open>Threads that can finish with what they own, and own nothing together.\<close>

definition race_free ::
  "'e launch \<Rightarrow> string set \<Rightarrow> (thread \<Rightarrow> string \<Rightarrow> int list set) \<Rightarrow> thread set \<Rightarrow> stmt list \<Rightarrow> 'e block_run \<Rightarrow> bool" where
  "race_free L W own ths seg g \<longleftrightarrow>
     list_all (stores_in W) seg \<and>
     (\<forall>th \<in> ths. \<forall>th' \<in> ths. \<forall>a \<in> W. th \<noteq> th' \<longrightarrow> own th a \<inter> own th' a = {}) \<and>
     (\<forall>th \<in> ths. run_stmts L th seg (vars_of g th, own_view W (own th) (arrays_of g)) \<noteq> None)"

text \<open>A state in which every thread \<open>th\<close> has made the first \<open>k th\<close> steps of its run alone.\<close>

definition on_track ::
  "'e launch \<Rightarrow> string set \<Rightarrow> (thread \<Rightarrow> string \<Rightarrow> int list set) \<Rightarrow> thread set \<Rightarrow> stmt list \<Rightarrow> 'e block_run \<Rightarrow>
   (thread \<Rightarrow> nat) \<Rightarrow> 'e seg_state \<Rightarrow> bool" where
  "on_track L W own ths seg g k st \<longleftrightarrow>
     (let (code, vs, m) = st in
      (\<forall>th \<in> ths. solo (k th) L th (seg, vars_of g th, own_view W (own th) (arrays_of g)) =
           Some (code th, vs th, own_view W (own th) m) \<and> list_all (stores_in W) (code th)) \<and>
      (\<forall>th. th \<notin> ths \<longrightarrow> code th = [] \<and> vs th = vars_of g th) \<and>
      (\<forall>a js. (\<forall>th \<in> ths. a \<notin> W \<or> js \<notin> own th a) \<longrightarrow> m a js = arrays_of g a js))"

lemma on_track_start: "list_all (stores_in W) seg \<Longrightarrow> on_track L W own ths seg g (\<lambda>th. 0) (seg_start ths seg g)"
  by (simp add: on_track_def seg_start_def)

lemma on_trackD:
  assumes "on_track L W own ths seg g k (code, vs, m)"
  shows "th \<in> ths \<Longrightarrow> solo (k th) L th (seg, vars_of g th, own_view W (own th) (arrays_of g)) =
      Some (code th, vs th, own_view W (own th) m)"
    and "th \<in> ths \<Longrightarrow> list_all (stores_in W) (code th)"
    and "th \<notin> ths \<Longrightarrow> code th = []" and "th \<notin> ths \<Longrightarrow> vs th = vars_of g th"
    and "(\<And>th. th \<in> ths \<Longrightarrow> a \<notin> W \<or> js \<notin> own th a) \<Longrightarrow> m a js = arrays_of g a js"
  using assms unfolding on_track_def Let_def prod.case by blast+

lemma on_trackI:
  assumes "\<And>th. th \<in> ths \<Longrightarrow> solo (k th) L th (seg, vars_of g th, own_view W (own th) (arrays_of g)) =
      Some (code th, vs th, own_view W (own th) m)"
    and "\<And>th. th \<in> ths \<Longrightarrow> list_all (stores_in W) (code th)"
    and "\<And>th. th \<notin> ths \<Longrightarrow> code th = []" and "\<And>th. th \<notin> ths \<Longrightarrow> vs th = vars_of g th"
    and "\<And>a js. (\<And>th. th \<in> ths \<Longrightarrow> a \<notin> W \<or> js \<notin> own th a) \<Longrightarrow> m a js = arrays_of g a js"
  shows "on_track L W own ths seg g k (code, vs, m)"
  unfolding on_track_def Let_def prod.case using assms by blast

lemma view_same_outside:
  "same_outside W P m m' \<Longrightarrow> (\<And>a. a \<in> W \<Longrightarrow> P a \<inter> Q a = {}) \<Longrightarrow> own_view W Q m' = own_view W Q m"
  by (intro ext) (auto simp: own_view_def same_outside_def restrict_map_def)

text \<open>What a thread does with what it owns it does in the whole memory, and no other thread notices.\<close>

lemma advance:
  assumes rf: "race_free L W own ths seg g" and tr: "on_track L W own ths seg g k (code, vs, m)"
    and th: "th \<in> ths" and run: "solo n L th (code th, vs th, own_view W (own th) m) = Some (ss, ws, m1)"
  shows "\<exists>m'. solo n L th (code th, vs th, m) = Some (ss, ws, m') \<and>
    on_track L W own ths seg g (k(th := k th + n)) (code(th := ss), vs(th := ws), m')"
proof -
  have here: "solo (k th) L th (seg, vars_of g th, own_view W (own th) (arrays_of g)) =
      Some (code th, vs th, own_view W (own th) m)" and stores: "list_all (stores_in W) (code th)"
    using on_trackD(1,2) [OF tr th] by simp_all
  obtain m' where m': "solo n L th (code th, vs th, m) = Some (ss, ws, m')" "m1 = own_view W (own th) m'"
    "same_outside W (own th) m m'" "list_all (stores_in W) ss"
    using solo_view [OF run stores] by blast
  have other: "own_view W (own th') m' = own_view W (own th') m" if "th' \<in> ths" "th' \<noteq> th" for th'
    using rf th that unfolding race_free_def by (intro view_same_outside [OF m'(3)]) blast
  have "solo (k th + n) L th (seg, vars_of g th, own_view W (own th) (arrays_of g)) =
      Some (ss, ws, own_view W (own th) m')"
    using solo_trans [OF here run] m'(2) by simp
  then have "on_track L W own ths seg g (k(th := k th + n)) (code(th := ss), vs(th := ws), m')"
  proof (intro on_trackI)
    fix a js assume out: "\<And>th. th \<in> ths \<Longrightarrow> a \<notin> W \<or> js \<notin> own th a"
    have "m' a js = m a js" using out [OF th] m'(3) unfolding same_outside_def by blast
    then show "m' a js = arrays_of g a js" using on_trackD(5) [OF tr out] by simp
  next
    fix th' assume th': "th' \<in> ths"
    show "list_all (stores_in W) ((code(th := ss)) th')" using m'(4) on_trackD(2) [OF tr th'] by simp
    show "solo ((k(th := k th + n)) th') L th' (seg, vars_of g th', own_view W (own th') (arrays_of g)) =
        Some ((code(th := ss)) th', (vs(th := ws)) th', own_view W (own th') m')"
      if "solo (k th + n) L th (seg, vars_of g th, own_view W (own th) (arrays_of g)) =
          Some (ss, ws, own_view W (own th) m')"
      using that other [OF th'] on_trackD(1) [OF tr th'] by (cases "th' = th") simp_all
  next
    fix th' assume "th' \<notin> ths"
    then show "(code(th := ss)) th' = []" "(vs(th := ws)) th' = vars_of g th'"
      using on_trackD(3,4) [OF tr] th by auto
  qed
  with m'(1) show ?thesis by blast
qed

text \<open>The number of steps that each thread needs, and where it gets.\<close>

definition runs_end ::
  "'e launch \<Rightarrow> string set \<Rightarrow> (thread \<Rightarrow> string \<Rightarrow> int list set) \<Rightarrow> thread set \<Rightarrow> stmt list \<Rightarrow> 'e block_run \<Rightarrow>
   (thread \<Rightarrow> nat) \<Rightarrow> bool" where
  "runs_end L W own ths seg g N \<longleftrightarrow>
     (\<forall>th \<in> ths. \<exists>t. solo (N th) L th (seg, vars_of g th, own_view W (own th) (arrays_of g)) = Some ([], t))"

lemma race_free_runs_end:
  assumes "race_free L W own ths seg g"
  obtains N where "runs_end L W own ths seg g N"
proof -
  have "\<exists>n t. solo n L th (seg, vars_of g th, own_view W (own th) (arrays_of g)) = Some ([], t)" if "th \<in> ths" for th
  proof -
    have "run_stmts L th seg (vars_of g th, own_view W (own th) (arrays_of g)) \<noteq> None"
      using assms that by (simp add: race_free_def)
    then obtain t where "run_stmts L th seg (vars_of g th, own_view W (own th) (arrays_of g)) = Some t"
      unfolding not_None_eq ..
    from solo_run(2) [OF this, of "[]"] show ?thesis unfolding append_Nil2 by blast
  qed
  then have "\<forall>th \<in> ths. \<exists>n t. solo n L th (seg, vars_of g th, own_view W (own th) (arrays_of g)) = Some ([], t)" by blast
  from bchoice [OF this] obtain N where "runs_end L W own ths seg g N" unfolding runs_end_def by blast
  then show thesis by (rule that)
qed

lemma on_track_progress:
  assumes ends: "runs_end L W own ths seg g N" and tr: "on_track L W own ths seg g k (code, vs, m)" and th: "th \<in> ths"
  shows "k th \<le> N th" and "code th = [] \<longleftrightarrow> k th = N th"
    and "code th \<noteq> [] \<Longrightarrow> solo 1 L th (code th, vs th, own_view W (own th) m) \<noteq> None"
    and "solo (N th - k th) L th (code th, vs th, own_view W (own th) m) \<noteq> None"
proof -
  obtain t where N: "solo (N th) L th (seg, vars_of g th, own_view W (own th) (arrays_of g)) = Some ([], t)"
    using ends th unfolding runs_end_def by blast
  have here: "solo (k th) L th (seg, vars_of g th, own_view W (own th) (arrays_of g)) =
      Some (code th, vs th, own_view W (own th) m)"
    by (rule on_trackD(1) [OF tr th])
  note before = solo_before_end [OF N here]
  show "k th \<le> N th" "code th = [] \<longleftrightarrow> k th = N th" using before by auto
  show "code th \<noteq> [] \<Longrightarrow> solo 1 L th (code th, vs th, own_view W (own th) m) \<noteq> None" using before by auto
  have "N th = k th + (N th - k th)" using before by simp
  then show "solo (N th - k th) L th (code th, vs th, own_view W (own th) m) \<noteq> None"
    using N here solo_add [of "k th" "N th - k th" L th] by (metis option.case(2) option.distinct(1))
qed

text \<open>There is one state in which all threads have finished.\<close>

lemma on_track_end_unique:
  assumes ends: "runs_end L W own ths seg g N"
    and a: "on_track L W own ths seg g N (code, vs, m)" and b: "on_track L W own ths seg g N (code', vs', m')"
  shows "code = (\<lambda>th. [])" and "vs = vs'" and "m = m'"
proof -
  show "code = (\<lambda>th. [])"
    using on_track_progress(2) [OF ends a] on_trackD(3) [OF a] by blast
  show "vs = vs'"
  proof
    fix th show "vs th = vs' th"
      using on_trackD(1,4) [OF a, of th] on_trackD(1,4) [OF b, of th] by (cases "th \<in> ths") simp_all
  qed
  have view: "own_view W (own th) m = own_view W (own th) m'" if "th \<in> ths" for th
    using on_trackD(1) [OF a that] on_trackD(1) [OF b that] by simp
  show "m = m'"
  proof (intro ext)
    fix c js
    show "m c js = m' c js"
    proof (cases "\<forall>th \<in> ths. c \<notin> W \<or> js \<notin> own th c")
      case True
      then show ?thesis using on_trackD(5) [OF a] on_trackD(5) [OF b] by simp
    next
      case False
      then obtain th where "th \<in> ths" "c \<in> W" "js \<in> own th c" by blast
      with fun_cong [OF fun_cong [OF view], of th c js] show ?thesis by (simp add: own_view_def)
    qed
  qed
qed

lemma seg_step_on_track:
  assumes rf: "race_free L W own ths seg g" and ends: "runs_end L W own ths seg g N"
    and tr: "on_track L W own ths seg g k st" and step: "seg_step L st st'"
  shows "\<exists>th \<in> ths. on_track L W own ths seg g (k(th := Suc (k th))) st'"
  using step
proof cases
  case (thread_moves code th x xs vs m new ws m')
  note tr' = tr [unfolded thread_moves(1)]
  have th: "th \<in> ths" using on_trackD(3) [OF tr'] thread_moves(3) by (metis list.distinct(1))
  obtain ss us m1 where "solo 1 L th (code th, vs th, own_view W (own th) m) = Some (ss, us, m1)"
    using on_track_progress(3) [OF ends tr' th] thread_moves(3) by (metis list.distinct(1) option.exhaust prod_cases3)
  from advance [OF rf tr' th this] thread_moves show ?thesis by (intro bexI [OF _ th]) auto
qed

text \<open>All interleavings of a race-free segment have the same length, never get stuck before, and end in
  the state that one thread after the other reaches, in whatever order.\<close>

lemma interleaving_on_track:
  assumes rf: "race_free L W own ths seg g" and ends: "runs_end L W own ths seg g N" and fin: "finite ths"
    and "(seg_step L ^^ n) (seg_start ths seg g) st"
  shows "\<exists>k. on_track L W own ths seg g k st \<and> n = (\<Sum>th \<in> ths. k th)"
  using assms(4)
proof (induction n arbitrary: st)
  case 0
  then show ?case
    using on_track_start [of W seg L own ths g] rf by (auto simp: race_free_def intro!: exI [of _ "\<lambda>th. 0"])
next
  case (Suc n)
  then obtain st0 where "(seg_step L ^^ n) (seg_start ths seg g) st0" and step: "seg_step L st0 st" by auto
  with Suc.IH obtain k where k: "on_track L W own ths seg g k st0" "n = (\<Sum>th \<in> ths. k th)" by blast
  from seg_step_on_track [OF rf ends k(1) step] obtain th where
    th: "th \<in> ths" "on_track L W own ths seg g (k(th := Suc (k th))) st" by blast
  have "(\<Sum>t \<in> ths. (k(th := Suc (k th))) t) = Suc (\<Sum>t \<in> ths. k t)"
    using fin th(1) by (simp add: sum.remove [of ths th])
  then show ?case using th(2) k(2) by metis
qed

lemma sum_bounded_eq:
  fixes k N :: "'a \<Rightarrow> nat"
  assumes "finite S" and "\<And>x. x \<in> S \<Longrightarrow> k x \<le> N x"
  shows "(\<Sum>x \<in> S. k x) \<le> (\<Sum>x \<in> S. N x)"
    and "(\<Sum>x \<in> S. k x) = (\<Sum>x \<in> S. N x) \<longleftrightarrow> (\<forall>x \<in> S. k x = N x)"
proof -
  show "(\<Sum>x \<in> S. k x) \<le> (\<Sum>x \<in> S. N x)" using assms(2) by (rule sum_mono)
  show "(\<Sum>x \<in> S. k x) = (\<Sum>x \<in> S. N x) \<longleftrightarrow> (\<forall>x \<in> S. k x = N x)"
  proof
    assume eq: "(\<Sum>x \<in> S. k x) = (\<Sum>x \<in> S. N x)"
    show "\<forall>x \<in> S. k x = N x"
    proof (rule ccontr)
      assume "\<not> (\<forall>x \<in> S. k x = N x)"
      then obtain x where "x \<in> S" "k x < N x" using assms(2) by (meson le_neq_implies_less)
      then have "(\<Sum>x \<in> S. k x) < (\<Sum>x \<in> S. N x)" using assms by (meson sum_strict_mono_ex1)
      then show False using eq by simp
    qed
  qed simp
qed

text \<open>One thread after another.\<close>

lemma seq_on_track:
  assumes rf: "race_free L W own ths seg g" and ends: "runs_end L W own ths seg g N"
  shows "on_track L W own ths seg g k (code, vars_of g1, arrays_of g1) \<Longrightarrow> set xs \<subseteq> ths \<Longrightarrow> distinct xs \<Longrightarrow>
    (\<And>th. th \<in> set xs \<Longrightarrow> k th = 0) \<Longrightarrow>
    \<exists>h code'. fold_opt (thread_step L seg) xs g1 = Some h \<and>
      on_track L W own ths seg g (\<lambda>th. if th \<in> set xs then N th else k th) (code', vars_of h, arrays_of h)"
proof (induction xs arbitrary: k code g1)
  case Nil
  then show ?case by auto
next
  case (Cons th xs)
  have th: "th \<in> ths" and k: "k th = 0" using Cons.prems(2,4) by auto
  have code: "code th = seg" using on_trackD(1) [OF Cons.prems(1) th] k by simp
  obtain ss ws m1 where ss: "solo (N th) L th (code th, vars_of g1 th, own_view W (own th) (arrays_of g1)) = Some (ss, ws, m1)"
    using on_track_progress(4) [OF ends Cons.prems(1) th] k by (metis diff_zero option.exhaust prod_cases3)
  from advance [OF rf Cons.prems(1) th ss] obtain m' where
    m': "solo (N th) L th (code th, vars_of g1 th, arrays_of g1) = Some (ss, ws, m')"
    "on_track L W own ths seg g (k(th := N th)) (code(th := ss), (vars_of g1)(th := ws), m')"
    unfolding k add_0 by blast
  have "ss = []" using on_track_progress(2) [OF ends m'(2) th] by simp
  with m'(1) code have "run_stmts L th seg (vars_of g1 th, arrays_of g1) = Some (ws, m')" by (metis run_solo)
  then have step: "thread_step L seg th g1 = Some \<lparr>vars_of = (vars_of g1)(th := ws), arrays_of = m'\<rparr>"
    by (simp add: thread_step_def)
  let ?g = "\<lparr>vars_of = (vars_of g1)(th := ws), arrays_of = m'\<rparr>"
  have g: "on_track L W own ths seg g (k(th := N th)) (code(th := ss), vars_of ?g, arrays_of ?g)" using m'(2) by simp
  have k0: "(k(th := N th)) t = 0" if "t \<in> set xs" for t using Cons.prems(3,4) that by auto
  have prems: "set xs \<subseteq> ths" "distinct xs" using Cons.prems(2,3) by auto
  from Cons.IH [OF g prems k0] obtain h code' where
    h: "fold_opt (thread_step L seg) xs ?g = Some h"
    "on_track L W own ths seg g (\<lambda>t. if t \<in> set xs then N t else (k(th := N th)) t) (code', vars_of h, arrays_of h)"
    by blast
  have "(\<lambda>t. if t \<in> set xs then N t else (k(th := N th)) t) = (\<lambda>t. if t \<in> set (th # xs) then N t else k t)" by auto
  with h(2) have "on_track L W own ths seg g (\<lambda>t. if t \<in> set (th # xs) then N t else k t) (code', vars_of h, arrays_of h)"
    by (simp only:)
  moreover have "fold_opt (thread_step L seg) (th # xs) g1 = Some h" using step h(1) by simp
  ultimately show ?case by blast
qed

text \<open>All interleavings of a race-free segment have the same number of steps and are never stuck before the
  last one, and they end where the threads get one after another, in any order.\<close>

lemma interleavings_agree:
  assumes rf: "race_free L W own (set xs) seg g" and xs: "distinct xs"
  shows "\<exists>N h. fold_opt (thread_step L seg) xs g = Some h \<and>
    (\<forall>n st. (seg_step L ^^ n) (seg_start (set xs) seg g) st \<longrightarrow>
       n \<le> N \<and> (n < N \<longrightarrow> (\<exists>st'. seg_step L st st')) \<and>
       (n = N \<longrightarrow> st = (\<lambda>th. [], vars_of h, arrays_of h)))"
proof -
  obtain N where ends: "runs_end L W own (set xs) seg g N" using race_free_runs_end [OF rf] .
  have start: "on_track L W own (set xs) seg g (\<lambda>th. 0) (fst (seg_start (set xs) seg g), vars_of g, arrays_of g)"
    using on_track_start [of W seg L own "set xs" g] rf by (simp add: race_free_def seg_start_def)
  from seq_on_track [OF rf ends start subset_refl xs] obtain h code where
    h: "fold_opt (thread_step L seg) xs g = Some h"
    "on_track L W own (set xs) seg g (\<lambda>th. if th \<in> set xs then N th else 0) (code, vars_of h, arrays_of h)" by blast
  have cong: "on_track L W own (set xs) seg g k st = on_track L W own (set xs) seg g k' st" if "\<And>th. th \<in> set xs \<Longrightarrow> k th = k' th"
    for k k' st using that by (simp add: on_track_def cong: conj_cong)
  have h': "on_track L W own (set xs) seg g N (code, vars_of h, arrays_of h)"
    using h(2) by (subst cong [of N "\<lambda>th. if th \<in> set xs then N th else 0"]) simp_all
  show ?thesis
  proof (intro exI [of _ "\<Sum>th \<in> set xs. N th"] exI [of _ h] conjI h(1) allI impI)
    fix n st assume "(seg_step L ^^ n) (seg_start (set xs) seg g) st"
    from interleaving_on_track [OF rf ends _ this] obtain k where
      k: "on_track L W own (set xs) seg g k st" "n = (\<Sum>th \<in> set xs. k th)" by auto
    obtain c v m where st: "st = (c, v, m)" by (cases st)
    note tr = k(1) [unfolded st]
    note bound = sum_bounded_eq [where S = "set xs" and k = k and N = N, OF finite_set on_track_progress(1) [OF ends tr]]
    show "n \<le> (\<Sum>th \<in> set xs. N th)" using bound(1) k(2) by simp
    show "\<exists>st'. seg_step L st st'" if less: "n < (\<Sum>th \<in> set xs. N th)"
    proof -
      have "(\<Sum>th \<in> set xs. k th) \<noteq> (\<Sum>th \<in> set xs. N th)" using less k(2) by simp
      then obtain th where th: "th \<in> set xs" "k th \<noteq> N th" using bound(2) by blast
      then have "c th \<noteq> []" using on_track_progress(2) [OF ends tr] by simp
      from on_track_progress(3) [OF ends tr th(1) this] obtain ss ws m1 where
        s: "solo 1 L th (c th, v th, own_view W (own th) m) = Some (ss, ws, m1)" by (metis option.exhaust prod_cases3)
      from advance [OF rf tr th(1) s] obtain m' where "solo 1 L th (c th, v th, m) = Some (ss, ws, m')" by blast
      then obtain x ys new where x: "c th = x # ys" "step_stmt L th x (v th, m) = Some (new, ws, m')"
        by (auto split: list.splits option.splits)
      show ?thesis unfolding st using seg_step.thread_moves [of c th x ys L v m new ws m', OF x] by blast
    qed
    show "st = (\<lambda>th. [], vars_of h, arrays_of h)" if "n = (\<Sum>th \<in> set xs. N th)"
    proof -
      have "on_track L W own (set xs) seg g N (c, v, m)"
        using tr bound(2) k(2) that by (subst cong [of N k]) simp_all
      from on_track_end_unique [OF ends this h'] st show ?thesis by simp
    qed
  qed
qed

section \<open>Segments without races\<close>

definition block_start :: "(string \<rightharpoonup> (int list \<rightharpoonup> 'e)) \<Rightarrow> 'e arrays \<Rightarrow> 'e block_run" where
  "block_start shared m =
     \<lparr>vars_of = (\<lambda>th. Map.empty), arrays_of = (\<lambda>a. case shared a of None \<Rightarrow> m a | Some s \<Rightarrow> s)\<rparr>"

abbreviation in_block :: "'e launch \<Rightarrow> nat \<times> nat \<Rightarrow> 'e launch" where
  "in_block L b \<equiv> L\<lparr>group_y := fst b, group_x := snd b\<rparr>"

primrec races_free :: "'e launch \<Rightarrow> thread list \<Rightarrow> stmt list list \<Rightarrow> 'e block_run \<Rightarrow> bool" where
  "races_free L xs [] g \<longleftrightarrow> True"
| "races_free L xs (seg # segs) g \<longleftrightarrow>
     (\<exists>W own. race_free L W own (set xs) seg g) \<and>
     (\<forall>h. fold_opt (thread_step L seg) xs g = Some h \<longrightarrow> races_free L xs segs h)"

end
