(* ===== verification/Grid_Steps.thy ===== *)
theory Grid_Steps
  imports Kernel_Steps
begin

text \<open>
  The grid: all threads of all blocks take their steps in any order, a block passes a barrier when its
  threads have all come to it, and each block has shared arrays of its own. Blocks that write to different
  places and do not read what others write end in one memory, the one that each of them produces alone.
\<close>

section \<open>Blocks\<close>

text \<open>The segments that are left, and what the threads have left of the current one.\<close>

type_synonym 'e block_conf = "stmt list list \<times> (thread \<Rightarrow> stmt list) \<times> (thread \<Rightarrow> 'e vars)"

inductive block_step :: "'e launch \<Rightarrow> thread set \<Rightarrow> 'e block_conf \<times> 'e arrays \<Rightarrow> 'e block_conf \<times> 'e arrays \<Rightarrow> bool" for L ths where
  statement: "seg_step L (code, vs, m) (code', vs', m') \<Longrightarrow>
    block_step L ths ((segs, code, vs), m) ((segs, code', vs'), m')"
| barrier: "(\<And>th. code th = []) \<Longrightarrow>
    block_step L ths ((seg # segs, code, vs), m) ((segs, (\<lambda>th. if th \<in> ths then seg else []), vs), m)"

inductive_cases block_stepE: "block_step L ths ((segs, code, vs), m) st"

definition block_init :: "stmt list list \<Rightarrow> (thread \<Rightarrow> 'e vars) \<Rightarrow> 'e block_conf" where
  "block_init segs vs = (segs, \<lambda>th. [], vs)"

fun block_done :: "'e block_conf \<Rightarrow> bool" where
  "block_done (segs, code, vs) \<longleftrightarrow> segs = [] \<and> (\<forall>th. code th = [])"

text \<open>No thread is stuck.\<close>

fun threads_ready :: "'e launch \<Rightarrow> 'e block_conf \<Rightarrow> 'e arrays \<Rightarrow> bool" where
  "threads_ready L (segs, code, vs) m \<longleftrightarrow>
     (\<forall>th x xs. code th = x # xs \<longrightarrow> step_stmt L th x (vs th, m) \<noteq> None)"

text \<open>Every run of the block is finite and never stuck, and leaves the memory \<open>E\<close>.\<close>

definition block_total ::
  "'e launch \<Rightarrow> thread set \<Rightarrow> stmt list list \<Rightarrow> (thread \<Rightarrow> 'e vars) \<Rightarrow> 'e arrays \<Rightarrow> 'e arrays \<Rightarrow> bool" where
  "block_total L ths segs vs m E \<longleftrightarrow>
     (\<exists>N. \<forall>n c m'. (block_step L ths ^^ n) (block_init segs vs, m) (c, m') \<longrightarrow>
        n \<le> N \<and> threads_ready L c m' \<and> (block_done c \<longrightarrow> m' = E))"

lemma ready_steps:
  assumes "threads_ready L c m" and "\<not> block_done c"
  shows "\<exists>st. block_step L ths (c, m) st"
proof -
  obtain segs code vs where c: "c = (segs, code, vs)" by (cases c)
  show ?thesis
  proof (cases "\<forall>th. code th = []")
    case True
    then obtain seg rest where "segs = seg # rest" using assms(2) c by (cases segs) auto
    then show ?thesis using block_step.barrier [of code] True c by blast
  next
    case False
    then obtain th x xs where x: "code th = x # xs" by (meson neq_Nil_conv)
    then have "step_stmt L th x (vs th, m) \<noteq> None"
      using assms(1) unfolding c threads_ready.simps by blast
    then obtain new ws m' where "step_stmt L th x (vs th, m) = Some (new, ws, m')" by (metis option.exhaust prod_cases3)
    from seg_step.thread_moves [where code = code and vs = vs, OF x this] show ?thesis using block_step.statement c by blast
  qed
qed

text \<open>A run of a block is in its first segment, or has left it.\<close>

lemma block_run_split:
  "(block_step L ths ^^ n) ((segs, code, vs), m) st \<Longrightarrow>
     (\<exists>code' vs' m'. (seg_step L ^^ n) (code, vs, m) (code', vs', m') \<and> st = ((segs, code', vs'), m')) \<or>
     (\<exists>j vs' m'. j \<le> n \<and> (seg_step L ^^ j) (code, vs, m) (\<lambda>th. [], vs', m') \<and>
        (block_step L ths ^^ (n - j)) ((segs, \<lambda>th. [], vs'), m') st)"
proof (induction n arbitrary: st)
  case (Suc n)
  then obtain s where s: "(block_step L ths ^^ n) ((segs, code, vs), m) s" and step: "block_step L ths s st" by auto
  from Suc.IH [OF s] show ?case
  proof (elim disjE exE conjE)
    fix code' vs' m'
    assume run: "(seg_step L ^^ n) (code, vs, m) (code', vs', m')" and s: "s = ((segs, code', vs'), m')"
    from step [unfolded s] show ?thesis
    proof (rule block_stepE)
      fix code2 vs2 m2 assume "st = ((segs, code2, vs2), m2)" "seg_step L (code', vs', m') (code2, vs2, m2)"
      then show ?thesis using relpowp_Suc_I [OF run] by blast
    next
      fix seg rest assume b: "st = ((rest, \<lambda>th. if th \<in> ths then seg else [], vs'), m')" "segs = seg # rest" "\<And>th. code' th = []"
      then have e: "code' = (\<lambda>th. [])" by auto
      have "(block_step L ths ^^ (Suc n - n)) ((segs, \<lambda>th. [], vs'), m') st"
        using step [unfolded s e] by (simp add: eq_OO)
      then show ?thesis using run [unfolded e] by (intro disjI2 exI [of _ n]) auto
    qed
  next
    fix j vs' m'
    assume j: "j \<le> n" "(seg_step L ^^ j) (code, vs, m) (\<lambda>th. [], vs', m')"
      and run: "(block_step L ths ^^ (n - j)) ((segs, \<lambda>th. [], vs'), m') s"
    have "(block_step L ths ^^ (Suc n - j)) ((segs, \<lambda>th. [], vs'), m') st"
      using relpowp_Suc_I [OF run step] j(1) by (simp add: Suc_diff_le)
    then show ?thesis using j by (intro disjI2 exI [of _ j]) auto
  qed
qed auto

text \<open>A segment without races: all threads go on, and where they finish.\<close>

lemma seg_total:
  assumes rf: "race_free L W own (set xs) seg g" and xs: "distinct xs"
  shows "\<exists>N h. fold_opt (thread_step L seg) xs g = Some h \<and>
    (\<forall>n code vs m. (seg_step L ^^ n) (seg_start (set xs) seg g) (code, vs, m) \<longrightarrow>
       n \<le> N \<and> (\<forall>th x ss. code th = x # ss \<longrightarrow> step_stmt L th x (vs th, m) \<noteq> None) \<and>
       ((\<forall>th. code th = []) \<longrightarrow> vs = vars_of h \<and> m = arrays_of h))"
proof -
  obtain N where ends: "runs_end L W own (set xs) seg g N" using race_free_runs_end [OF rf] .
  obtain M h where h: "fold_opt (thread_step L seg) xs g = Some h"
    "\<And>n st. (seg_step L ^^ n) (seg_start (set xs) seg g) st \<Longrightarrow>
       n \<le> M \<and> (n < M \<longrightarrow> (\<exists>st'. seg_step L st st')) \<and> (n = M \<longrightarrow> st = (\<lambda>th. [], vars_of h, arrays_of h))"
    using interleavings_agree [OF rf xs] by blast
  have "n \<le> M \<and> (\<forall>th x ss. code th = x # ss \<longrightarrow> step_stmt L th x (vs th, m) \<noteq> None) \<and>
      ((\<forall>th. code th = []) \<longrightarrow> vs = vars_of h \<and> m = arrays_of h)"
    if run: "(seg_step L ^^ n) (seg_start (set xs) seg g) (code, vs, m)" for n code vs m
  proof (intro conjI impI allI)
    show "n \<le> M" using h(2) [OF run] by blast
    obtain k where tr: "on_track L W own (set xs) seg g k (code, vs, m)"
      using interleaving_on_track [OF rf ends _ run] by auto
    fix th x ss assume x: "code th = x # ss"
    then have th: "th \<in> set xs" using on_trackD(3) [OF tr] by (metis list.distinct(1))
    obtain ss' ws m1 where "solo 1 L th (code th, vs th, own_view W (own th) m) = Some (ss', ws, m1)"
      using on_track_progress(3) [OF ends tr th] x by (metis list.distinct(1) option.exhaust prod_cases3)
    from advance [OF rf tr th this] obtain m' where "solo 1 L th (code th, vs th, m) = Some (ss', ws, m')" by blast
    then show "step_stmt L th x (vs th, m) \<noteq> None" using x by (auto split: option.splits)
  next
    assume fin: "\<forall>th. code th = []"
    have "\<not> seg_step L (code, vs, m) st'" for st' using fin by (auto elim: seg_step.cases)
    then have "n = M" using h(2) [OF run] by (metis le_neq_implies_less)
    then show "vs = vars_of h" "m = arrays_of h" using h(2) [OF run] by auto
  qed
  with h(1) show ?thesis by blast
qed

text \<open>A block whose segments are free of races.\<close>

lemma block_init_stuck: "(block_step L ths ^^ n) (block_init [] vs, m) st \<Longrightarrow> n = 0 \<and> st = (block_init [] vs, m)"
proof (induction n arbitrary: st)
  case (Suc n)
  then obtain s where "(block_step L ths ^^ n) (block_init [] vs, m) s" "block_step L ths s st" by auto
  then have "block_step L ths (([], \<lambda>th. [], vs), m) st" using Suc.IH [of s] by (simp add: block_init_def)
  then show ?case by (rule block_stepE) (auto elim: seg_step.cases)
qed auto

lemma races_free_total:
  assumes xs: "distinct xs"
  shows "races_free L xs segs g \<Longrightarrow>
    \<exists>h. run_segments L (\<lambda>i. xs) i segs g = Some h \<and> block_total L (set xs) segs (vars_of g) (arrays_of g) (arrays_of h)"
proof (induction segs arbitrary: g i)
  case Nil
  show ?case
    by (auto simp: block_total_def block_init_def dest!: block_init_stuck [unfolded block_init_def])
next
  case (Cons seg segs)
  then obtain W own where rf: "race_free L W own (set xs) seg g" by auto
  from seg_total [OF rf xs] obtain N k where k: "fold_opt (thread_step L seg) xs g = Some k" and
    seg: "\<And>n code vs m. (seg_step L ^^ n) (seg_start (set xs) seg g) (code, vs, m) \<Longrightarrow>
       n \<le> N \<and> (\<forall>th x ss. code th = x # ss \<longrightarrow> step_stmt L th x (vs th, m) \<noteq> None) \<and>
       ((\<forall>th. code th = []) \<longrightarrow> vs = vars_of k \<and> m = arrays_of k)" by blast
  from Cons.prems k have "races_free L xs segs k" by simp
  from Cons.IH [OF this, of "Suc i"] obtain h M where h: "run_segments L (\<lambda>i. xs) (Suc i) segs k = Some h" and
    rest: "\<And>n c m'. (block_step L (set xs) ^^ n) (block_init segs (vars_of k), arrays_of k) (c, m') \<Longrightarrow>
        n \<le> M \<and> threads_ready L c m' \<and> (block_done c \<longrightarrow> m' = arrays_of h)"
    unfolding block_total_def by blast
  have "n \<le> Suc (N + M) \<and> threads_ready L c m' \<and> (block_done c \<longrightarrow> m' = arrays_of h)"
    if run: "(block_step L (set xs) ^^ n) (block_init (seg # segs) (vars_of g), arrays_of g) (c, m')" for n c m'
  proof (cases n)
    case 0
    then show ?thesis using run by (auto simp: block_init_def)
  next
    case (Suc j)
    then obtain s where s: "block_step L (set xs) (block_init (seg # segs) (vars_of g), arrays_of g) s"
      "(block_step L (set xs) ^^ j) s (c, m')" using relpowp_Suc_D2 [OF run [unfolded Suc]] by blast
    obtain code where start: "seg_start (set xs) seg g = (code, vars_of g, arrays_of g)" by (simp add: seg_start_def)
    have "s = ((segs, code, vars_of g), arrays_of g)"
      using s(1) start by (auto simp: block_init_def seg_start_def elim!: block_stepE seg_step.cases)
    from block_run_split [OF s(2) [unfolded this]] show ?thesis
    proof (elim disjE exE conjE)
      fix code' vs' m1
      assume r: "(seg_step L ^^ j) (code, vars_of g, arrays_of g) (code', vs', m1)"
        and "(c, m') = ((segs, code', vs'), m1)"
      then have c: "c = (segs, code', vs')" "m' = m1" by simp_all
      note s = seg [unfolded start, OF r]
      have "m1 = arrays_of h" if "block_done c"
      proof -
        have e: "segs = []" "\<forall>th. code' th = []" using that c by simp_all
        then have "m1 = arrays_of k" using s by blast
        moreover have "arrays_of k = arrays_of h" using rest [of 0 "block_init segs (vars_of k)" "arrays_of k"] e(1)
          by (simp add: block_init_def)
        ultimately show ?thesis by simp
      qed
      then show ?thesis using s Suc unfolding c by simp
    next
      fix j1 vs' m1
      assume j1: "j1 \<le> j" "(seg_step L ^^ j1) (code, vars_of g, arrays_of g) (\<lambda>th. [], vs', m1)"
        and r: "(block_step L (set xs) ^^ (j - j1)) ((segs, \<lambda>th. [], vs'), m1) (c, m')"
      have eq: "j1 \<le> N" "vs' = vars_of k" "m1 = arrays_of k" using seg [unfolded start, OF j1(2)] by auto
      from rest [of "j - j1" c m'] r eq(1) j1(1) Suc show ?thesis unfolding eq block_init_def by linarith
    qed
  qed
  then have "block_total L (set xs) (seg # segs) (vars_of g) (arrays_of g) (arrays_of h)"
    unfolding block_total_def by blast
  then show ?case using k h by auto
qed

section \<open>Blocks that see a part of memory\<close>

definition conf_stores :: "string set \<Rightarrow> 'e block_conf \<Rightarrow> bool" where
  "conf_stores W c \<longleftrightarrow>
     (\<forall>seg \<in> set (fst c). list_all (stores_in W) seg) \<and> (\<forall>th. list_all (stores_in W) (fst (snd c) th))"

lemma block_step_view:
  assumes step: "block_step L ths (c, m) (c', m1)" and ready: "threads_ready L c (own_view W P m)"
    and stores: "conf_stores W c"
  shows "block_step L ths (c, own_view W P m) (c', own_view W P m1) \<and> same_outside W P m m1 \<and> conf_stores W c'"
  using step
proof (cases rule: block_step.cases)
  case (statement code vs code' vs' segs)
  from statement(3) show ?thesis
  proof (cases rule: seg_step.cases)
    case (thread_moves th x xs new ws)
    have "step_stmt L th x (vs th, own_view W P m) \<noteq> None"
      using ready thread_moves(3) unfolding statement(1) threads_ready.simps by blast
    then obtain new2 ws2 m2 where v: "step_stmt L th x (vs th, own_view W P m) = Some (new2, ws2, m2)"
      by (metis option.exhaust prod_cases3)
    have "list_all (stores_in W) (code th)" using stores unfolding statement(1) conf_stores_def fst_conv snd_conv by blast
    then have "stores_in W x" "list_all (stores_in W) xs" unfolding thread_moves(3) by simp_all
    with step_view [OF v] thread_moves(4) have
      "new2 = new" "ws2 = ws" "m2 = own_view W P m1" "same_outside W P m m1" "list_all (stores_in W) (new @ xs)" by auto
    moreover have "block_step L ths ((segs, code, vs), own_view W P m) ((segs, code(th := new2 @ xs), vs(th := ws2)), m2)"
      by (rule block_step.statement, rule seg_step.thread_moves [where code = code and vs = vs, OF thread_moves(3) v])
    ultimately show ?thesis using stores unfolding statement(1,2) thread_moves(1,2) by (auto simp: conf_stores_def)
  qed
next
  case (barrier code seg segs vs)
  then show ?thesis using stores by (auto simp: conf_stores_def intro!: block_step.barrier)
qed

text \<open>What is possible with a part of memory is possible with all of it.\<close>

lemma ready_mono:
  assumes "threads_ready L c (own_view W P m)" and stores: "conf_stores W c"
  shows "threads_ready L c m"
proof -
  obtain segs code vs where c: "c = (segs, code, vs)" by (cases c)
  show ?thesis
    unfolding c threads_ready.simps
  proof (intro allI impI)
    fix th x xs assume x: "code th = x # xs"
    then have "step_stmt L th x (vs th, own_view W P m) \<noteq> None" using assms(1) unfolding c threads_ready.simps by blast
    then obtain new ws m1 where v: "step_stmt L th x (vs th, own_view W P m) = Some (new, ws, m1)"
      by (metis option.exhaust prod_cases3)
    have "list_all (stores_in W) (code th)" using stores unfolding c conf_stores_def fst_conv snd_conv by blast
    then have "stores_in W x" unfolding x by simp
    from step_view [OF v this] show "step_stmt L th x (vs th, m) \<noteq> None" by auto
  qed
qed

section \<open>The grid\<close>

text \<open>What a block sees, and what remains when it has changed it.\<close>

definition seen :: "(string \<rightharpoonup> (int list \<rightharpoonup> 'e)) \<Rightarrow> 'e arrays \<Rightarrow> 'e arrays" where
  "seen sh m = (\<lambda>a. case sh a of None \<Rightarrow> m a | Some s \<Rightarrow> s)"

definition kept :: "(string \<rightharpoonup> (int list \<rightharpoonup> 'e)) \<Rightarrow> 'e arrays \<Rightarrow> string \<rightharpoonup> (int list \<rightharpoonup> 'e)" where
  "kept sh m = (\<lambda>a. map_option (\<lambda>s. m a) (sh a))"

definition put_back :: "(string \<rightharpoonup> (int list \<rightharpoonup> 'e)) \<Rightarrow> 'e arrays \<Rightarrow> 'e arrays \<Rightarrow> 'e arrays" where
  "put_back sh m m1 = (\<lambda>a. if sh a = None then m1 a else m a)"

type_synonym 'e grid_state =
  "(nat \<times> nat \<Rightarrow> 'e block_conf) \<times> (nat \<times> nat \<Rightarrow> string \<rightharpoonup> (int list \<rightharpoonup> 'e)) \<times> 'e arrays"

inductive grid_step :: "'e launch \<Rightarrow> thread set \<Rightarrow> (nat \<times> nat) set \<Rightarrow> 'e grid_state \<Rightarrow> 'e grid_state \<Rightarrow> bool" for L ths B where
  block_moves: "b \<in> B \<Longrightarrow> block_step (in_block L b) ths (conf b, seen (sh b) m) (c, m1) \<Longrightarrow>
    grid_step L ths B (conf, sh, m) (conf(b := c), sh(b := kept (sh b) m1), put_back (sh b) m m1)"

definition grid_start ::
  "'e launch \<Rightarrow> (nat \<times> nat \<Rightarrow> string \<rightharpoonup> (int list \<rightharpoonup> 'e)) \<Rightarrow> stmt list \<Rightarrow> 'e arrays \<Rightarrow> 'e grid_state" where
  "grid_start L shared code m =
     (\<lambda>b. block_init (segments (the (unrolls (in_block L b) code))) (\<lambda>th. Map.empty), shared, m)"

text \<open>
  Every execution of the grid comes to its end, whatever order the steps of its threads are taken in: their
  number is bounded, and where there is no further step all threads of all blocks have finished and memory
  is \<open>m'\<close>.
\<close>

definition grid_total ::
  "'e launch \<Rightarrow> thread set \<Rightarrow> (nat \<times> nat \<Rightarrow> string \<rightharpoonup> (int list \<rightharpoonup> 'e)) \<Rightarrow> stmt list \<Rightarrow> (nat \<times> nat) set \<Rightarrow>
   'e arrays \<Rightarrow> 'e arrays \<Rightarrow> bool" where
  "grid_total L ths shared code B m m' \<longleftrightarrow>
     (\<forall>b \<in> B. unrolls (in_block L b) code \<noteq> None) \<and>
     (\<exists>N. \<forall>n conf sh m1. (grid_step L ths B ^^ n) (grid_start L shared code m) (conf, sh, m1) \<longrightarrow>
        n \<le> N \<and>
        ((\<exists>st. grid_step L ths B (conf, sh, m1) st) \<or> (\<forall>b \<in> B. block_done (conf b)) \<and> m1 = m'))"

lemma seen_start: "block_start sh m = \<lparr>vars_of = (\<lambda>th. Map.empty), arrays_of = seen sh m\<rparr>"
  by (simp add: block_start_def seen_def)

lemma dom_kept [simp]: "dom (kept sh m) = dom sh"
  by (auto simp: kept_def)

lemma seen_put_back [simp]: "seen (kept sh m1) (put_back sh m m1) = m1"
  by (auto simp: seen_def kept_def put_back_def fun_eq_iff split: option.split)

abbreviation all_shared :: "(string \<rightharpoonup> (int list \<rightharpoonup> 'e)) \<Rightarrow> (string \<Rightarrow> int list set) \<Rightarrow> string \<Rightarrow> int list set" where
  "all_shared sh P \<equiv> \<lambda>a. if a \<in> dom sh then UNIV else P a"

lemma seen_view:
  assumes "W \<inter> dom sh = {}"
  shows "seen sh (own_view W P m) = own_view (W \<union> dom sh) (all_shared sh P) (seen sh m)"
proof
  fix a
  show "seen sh (own_view W P m) a = own_view (W \<union> dom sh) (all_shared sh P) (seen sh m) a"
    using assms by (cases "sh a") (auto simp: seen_def own_view_def domIff)
qed

lemma put_back_outside:
  assumes "same_outside (W \<union> dom sh) (all_shared sh P) (seen sh m) m1" and "W \<inter> dom sh = {}"
  shows "same_outside W P m (put_back sh m m1)"
  unfolding same_outside_def
proof (intro allI impI)
  fix a js assume a: "a \<notin> W \<or> js \<notin> P a"
  show "put_back sh m m1 a js = m a js"
  proof (cases "sh a")
    case None
    then have "a \<notin> dom sh" by (simp add: domIff)
    then have "a \<notin> W \<union> dom sh \<or> js \<notin> all_shared sh P a" using a by auto
    then have "m1 a js = seen sh m a js" using assms(1) unfolding same_outside_def by blast
    then show ?thesis using None by (simp add: put_back_def seen_def)
  qed (simp add: put_back_def)
qed

lemma segments_subset: "seg \<in> set (segments ss) \<Longrightarrow> set seg \<subseteq> set ss"
proof (induction ss arbitrary: seg)
  case (Cons s ss)
  then show ?case by (cases "segments ss"; cases "s = Barrier"; fastforce)
qed simp

section \<open>Blocks that do not meet\<close>

text \<open>After \<open>n\<close> steps, of which the block \<open>b\<close> has made \<open>k b\<close>, each block is where it could be alone on its part
  of the memory.\<close>

definition on_its_own ::
  "'e launch \<Rightarrow> thread set \<Rightarrow> string set \<Rightarrow> (nat \<times> nat \<Rightarrow> string \<Rightarrow> int list set) \<Rightarrow> (nat \<times> nat) set \<Rightarrow> 'e grid_state \<Rightarrow>
   (nat \<times> nat \<Rightarrow> nat) \<Rightarrow> 'e grid_state \<Rightarrow> bool" where
  "on_its_own L ths W P B st0 k st \<longleftrightarrow>
     (let (conf0, sh0, m0) = st0; (conf, sh, m) = st in
      (\<forall>b \<in> B. (block_step (in_block L b) ths ^^ k b) (conf0 b, seen (sh0 b) (own_view W (P b) m0))
           (conf b, seen (sh b) (own_view W (P b) m)) \<and>
         dom (sh b) = dom (sh0 b) \<and> conf_stores (W \<union> dom (sh0 b)) (conf b)) \<and>
      (\<forall>a js. (\<forall>b \<in> B. a \<notin> W \<or> js \<notin> P b a) \<longrightarrow> m a js = m0 a js))"

lemma on_its_ownD:
  assumes "on_its_own L ths W P B (conf0, sh0, m0) k (conf, sh, m)"
  shows "b \<in> B \<Longrightarrow> (block_step (in_block L b) ths ^^ k b) (conf0 b, seen (sh0 b) (own_view W (P b) m0))
           (conf b, seen (sh b) (own_view W (P b) m))"
    and "b \<in> B \<Longrightarrow> dom (sh b) = dom (sh0 b)" and "b \<in> B \<Longrightarrow> conf_stores (W \<union> dom (sh0 b)) (conf b)"
    and "(\<And>b. b \<in> B \<Longrightarrow> a \<notin> W \<or> js \<notin> P b a) \<Longrightarrow> m a js = m0 a js"
  using assms unfolding on_its_own_def Let_def prod.case by blast+

lemma on_its_ownI:
  assumes "\<And>b. b \<in> B \<Longrightarrow> (block_step (in_block L b) ths ^^ k b) (conf0 b, seen (sh0 b) (own_view W (P b) m0))
           (conf b, seen (sh b) (own_view W (P b) m))"
    and "\<And>b. b \<in> B \<Longrightarrow> dom (sh b) = dom (sh0 b)" and "\<And>b. b \<in> B \<Longrightarrow> conf_stores (W \<union> dom (sh0 b)) (conf b)"
    and "\<And>a js. (\<And>b. b \<in> B \<Longrightarrow> a \<notin> W \<or> js \<notin> P b a) \<Longrightarrow> m a js = m0 a js"
  shows "on_its_own L ths W P B (conf0, sh0, m0) k (conf, sh, m)"
  unfolding on_its_own_def Let_def prod.case using assms by blast

text \<open>Blocks that own different places, each of which is total on its part.\<close>

definition apart ::
  "'e launch \<Rightarrow> thread set \<Rightarrow> string set \<Rightarrow> (nat \<times> nat \<Rightarrow> string \<Rightarrow> int list set) \<Rightarrow> (nat \<times> nat) set \<Rightarrow> 'e grid_state \<Rightarrow>
   (nat \<times> nat \<Rightarrow> 'e arrays) \<Rightarrow> (nat \<times> nat \<Rightarrow> nat) \<Rightarrow> bool" where
  "apart L ths W P B st0 E N \<longleftrightarrow>
     (let (conf0, sh0, m0) = st0 in
      (\<forall>b \<in> B. \<forall>b' \<in> B. b \<noteq> b' \<longrightarrow> (\<forall>a \<in> W. P b a \<inter> P b' a = {})) \<and>
      (\<forall>b \<in> B. W \<inter> dom (sh0 b) = {} \<and> conf_stores (W \<union> dom (sh0 b)) (conf0 b) \<and>
         (\<forall>n c m'. (block_step (in_block L b) ths ^^ n) (conf0 b, seen (sh0 b) (own_view W (P b) m0)) (c, m') \<longrightarrow>
            n \<le> N b \<and> threads_ready (in_block L b) c m' \<and> (block_done c \<longrightarrow> m' = E b))))"

lemma apartD:
  assumes "apart L ths W P B (conf0, sh0, m0) E N"
  shows "b \<in> B \<Longrightarrow> b' \<in> B \<Longrightarrow> b \<noteq> b' \<Longrightarrow> a \<in> W \<Longrightarrow> P b a \<inter> P b' a = {}"
    and "b \<in> B \<Longrightarrow> W \<inter> dom (sh0 b) = {}" and "b \<in> B \<Longrightarrow> conf_stores (W \<union> dom (sh0 b)) (conf0 b)"
    and "b \<in> B \<Longrightarrow> (block_step (in_block L b) ths ^^ n) (conf0 b, seen (sh0 b) (own_view W (P b) m0)) (c, m') \<Longrightarrow>
      n \<le> N b \<and> threads_ready (in_block L b) c m' \<and> (block_done c \<longrightarrow> m' = E b)"
  using assms unfolding apart_def Let_def prod.case by blast+

lemma on_its_own_ready:
  assumes ap: "apart L ths W P B (conf0, sh0, m0) E N" and inv: "on_its_own L ths W P B (conf0, sh0, m0) k (conf, sh, m)"
    and b: "b \<in> B"
  shows "seen (sh b) (own_view W (P b) m) = own_view (W \<union> dom (sh b)) (all_shared (sh b) (P b)) (seen (sh b) m)"
    and "k b \<le> N b" and "threads_ready (in_block L b) (conf b) (seen (sh b) (own_view W (P b) m))"
    and "block_done (conf b) \<Longrightarrow> seen (sh b) (own_view W (P b) m) = E b"
proof -
  have "W \<inter> dom (sh b) = {}" using apartD(2) [OF ap b] on_its_ownD(2) [OF inv b] by simp
  then show "seen (sh b) (own_view W (P b) m) = own_view (W \<union> dom (sh b)) (all_shared (sh b) (P b)) (seen (sh b) m)"
    by (rule seen_view)
  show "k b \<le> N b" "threads_ready (in_block L b) (conf b) (seen (sh b) (own_view W (P b) m))"
    "block_done (conf b) \<Longrightarrow> seen (sh b) (own_view W (P b) m) = E b"
    using apartD(4) [OF ap b on_its_ownD(1) [OF inv b]] by blast+
qed

lemma grid_step_on_its_own:
  assumes ap: "apart L ths W P B (conf0, sh0, m0) E N" and inv: "on_its_own L ths W P B (conf0, sh0, m0) k st"
    and step: "grid_step L ths B st st'"
  shows "\<exists>b \<in> B. on_its_own L ths W P B (conf0, sh0, m0) (k(b := Suc (k b))) st'"
  using step
proof (cases rule: grid_step.cases)
  case (block_moves b conf sh m c m1)
  note inv = inv [unfolded block_moves(1)]
  let ?W = "W \<union> dom (sh b)" and ?P = "all_shared (sh b) (P b)" and ?m = "put_back (sh b) m m1"
  note here = on_its_own_ready [OF ap inv block_moves(3)]
  have disj: "W \<inter> dom (sh b) = {}" using apartD(2) [OF ap block_moves(3)] on_its_ownD(2) [OF inv block_moves(3)] by simp
  have stores: "conf_stores ?W (conf b)"
    using on_its_ownD(3) [OF inv block_moves(3)] on_its_ownD(2) [OF inv block_moves(3)] by simp
  from block_step_view [OF block_moves(4) here(3) [unfolded here(1)] stores] have
    v: "block_step (in_block L b) ths (conf b, own_view ?W ?P (seen (sh b) m)) (c, own_view ?W ?P m1)"
    "same_outside ?W ?P (seen (sh b) m) m1" "conf_stores ?W c" by blast+
  have out: "same_outside W (P b) m ?m" by (rule put_back_outside [OF v(2) disj])
  have after: "seen (kept (sh b) m1) (own_view W (P b) ?m) = own_view ?W ?P m1"
    using seen_view [of W "kept (sh b) m1" "P b" ?m] disj by simp
  have other: "own_view W (P b') ?m = own_view W (P b') m" if "b' \<in> B" "b' \<noteq> b" for b'
    by (rule view_same_outside [OF out]) (use apartD(1) [OF ap block_moves(3) that(1)] that(2) in blast)
  have "on_its_own L ths W P B (conf0, sh0, m0) (k(b := Suc (k b))) (conf(b := c), sh(b := kept (sh b) m1), ?m)"
  proof (rule on_its_ownI)
    fix b' assume b': "b' \<in> B"
    show "(block_step (in_block L b') ths ^^ (k(b := Suc (k b))) b') (conf0 b', seen (sh0 b') (own_view W (P b') m0))
        ((conf(b := c)) b', seen ((sh(b := kept (sh b) m1)) b') (own_view W (P b') ?m))"
    proof (cases "b' = b")
      case True
      have "(block_step (in_block L b) ths ^^ Suc (k b)) (conf0 b, seen (sh0 b) (own_view W (P b) m0))
          (c, seen (kept (sh b) m1) (own_view W (P b) ?m))"
        using relpowp_Suc_I [OF on_its_ownD(1) [OF inv block_moves(3)]] v(1) unfolding after here(1) by blast
      then show ?thesis unfolding True by (simp only: fun_upd_same)
    next
      case False
      then show ?thesis using on_its_ownD(1) [OF inv b'] other [OF b' False] by simp
    qed
    show "dom ((sh(b := kept (sh b) m1)) b') = dom (sh0 b')" using on_its_ownD(2) [OF inv b'] by (cases "b' = b") simp_all
    show "conf_stores (W \<union> dom (sh0 b')) ((conf(b := c)) b')"
      using on_its_ownD(2,3) [OF inv b'] v(3) by (cases "b' = b") simp_all
  next
    fix a js assume un: "\<And>b. b \<in> B \<Longrightarrow> a \<notin> W \<or> js \<notin> P b a"
    have "?m a js = m a js" using out un [OF block_moves(3)] unfolding same_outside_def by blast
    then show "?m a js = m0 a js" using on_its_ownD(4) [OF inv un] by simp
  qed
  then show ?thesis unfolding block_moves(2) using block_moves(3) by blast
qed

lemma grid_run_on_its_own:
  assumes ap: "apart L ths W P B (conf0, sh0, m0) E N" and B: "finite B"
    and "(grid_step L ths B ^^ n) (conf0, sh0, m0) st"
  shows "\<exists>k. on_its_own L ths W P B (conf0, sh0, m0) k st \<and> n = (\<Sum>b \<in> B. k b)"
  using assms(3)
proof (induction n arbitrary: st)
  case 0
  have "on_its_own L ths W P B (conf0, sh0, m0) (\<lambda>b. 0) (conf0, sh0, m0)"
    by (rule on_its_ownI) (use apartD(3) [OF ap] in auto)
  then show ?case using 0 by (intro exI [of _ "\<lambda>b. 0"]) simp
next
  case (Suc n)
  then obtain s where "(grid_step L ths B ^^ n) (conf0, sh0, m0) s" and step: "grid_step L ths B s st" by auto
  with Suc.IH obtain k where k: "on_its_own L ths W P B (conf0, sh0, m0) k s" "n = (\<Sum>b \<in> B. k b)" by blast
  from grid_step_on_its_own [OF ap k(1) step] obtain b where
    b: "b \<in> B" "on_its_own L ths W P B (conf0, sh0, m0) (k(b := Suc (k b))) st" by blast
  have "(\<Sum>x \<in> B. (k(b := Suc (k b))) x) = Suc (\<Sum>x \<in> B. k x)"
    using B b(1) by (simp add: sum.remove [of B b])
  then show ?case using b(2) k(2) by metis
qed

theorem grid_totalI:
  assumes B: "finite B" and code: "\<And>b. b \<in> B \<Longrightarrow> unrolls (in_block L b) code \<noteq> None"
    and ap: "apart L ths W P B (grid_start L shared code m) E N"
    and owned: "\<And>b a js. b \<in> B \<Longrightarrow> a \<in> W \<Longrightarrow> js \<in> P b a \<Longrightarrow> m' a js = E b a js"
    and rest: "\<And>a js. (\<And>b. b \<in> B \<Longrightarrow> a \<notin> W \<or> js \<notin> P b a) \<Longrightarrow> m' a js = m a js"
  shows "grid_total L ths shared code B m m'"
  unfolding grid_total_def
proof (intro conjI ballI exI [of _ "\<Sum>b \<in> B. N b"] allI impI)
  show "unrolls (in_block L b) code \<noteq> None" if "b \<in> B" for b by (rule code [OF that])
next
  fix n conf sh m1 assume run: "(grid_step L ths B ^^ n) (grid_start L shared code m) (conf, sh, m1)"
  obtain conf0 where start: "grid_start L shared code m = (conf0, shared, m)" by (simp add: grid_start_def)
  note ap = ap [unfolded start]
  from grid_run_on_its_own [OF ap B run [unfolded start]] obtain k where
    inv: "on_its_own L ths W P B (conf0, shared, m) k (conf, sh, m1)" and n: "n = (\<Sum>b \<in> B. k b)" by blast
  note here = on_its_own_ready [OF ap inv]
  show "n \<le> (\<Sum>b \<in> B. N b)" unfolding n by (rule sum_mono) (rule here(2))
  show "(\<exists>st. grid_step L ths B (conf, sh, m1) st) \<or> (\<forall>b \<in> B. block_done (conf b)) \<and> m1 = m'"
  proof (cases "\<forall>b \<in> B. block_done (conf b)")
    case False
    then obtain b where b: "b \<in> B" "\<not> block_done (conf b)" by blast
    from here(3) [OF b(1)] have "threads_ready (in_block L b) (conf b) (seen (sh b) m1)"
      unfolding here(1) [OF b(1)] by (rule ready_mono) (use on_its_ownD(2,3) [OF inv b(1)] in simp)
    from ready_steps [OF this b(2), of ths] obtain st where st: "block_step (in_block L b) ths (conf b, seen (sh b) m1) st" by blast
    obtain c m2 where "st = (c, m2)" by (cases st)
    with st show ?thesis using grid_step.block_moves [OF b(1)] by blast
  next
    case True
    have "m1 a js = m' a js" for a js
    proof (cases "\<exists>b \<in> B. a \<in> W \<and> js \<in> P b a")
      case True
      then obtain b where b: "b \<in> B" "a \<in> W" "js \<in> P b a" by blast
      have "a \<notin> dom (sh b)" using apartD(2) [OF ap b(1)] on_its_ownD(2) [OF inv b(1)] b(2) by auto
      then have "seen (sh b) (own_view W (P b) m1) a js = m1 a js"
        using b(2,3) by (simp add: seen_def own_view_def domIff)
      then show ?thesis using here(4) [OF b(1)] \<open>\<forall>b \<in> B. block_done (conf b)\<close> b(1) owned [OF b] by simp
    next
      case False
      then show ?thesis using on_its_ownD(4) [OF inv] rest by (metis (no_types, lifting))
    qed
    then show ?thesis using True by blast
  qed
qed

section \<open>From the runs of single blocks\<close>

lemma run_stmts_view:
  assumes "run_stmts L th ss (vs, own_view W P m) = Some (vs', m1)" and "list_all (stores_in W) ss"
  shows "\<exists>m'. run_stmts L th ss (vs, m) = Some (vs', m') \<and> m1 = own_view W P m'"
proof -
  from solo_run(2) [OF assms(1), of "[]"] obtain n where "solo n L th (ss, vs, own_view W P m) = Some ([], vs', m1)" by auto
  from solo_view [OF this assms(2)] show ?thesis using run_solo by blast
qed

lemma fold_view:
  assumes "list_all (stores_in W) seg"
  shows "fold_opt (thread_step L seg) xs g = Some h \<Longrightarrow> vars_of g = vars_of f \<Longrightarrow> arrays_of g = own_view W P (arrays_of f) \<Longrightarrow>
    \<exists>k. fold_opt (thread_step L seg) xs f = Some k \<and> vars_of h = vars_of k \<and> arrays_of h = own_view W P (arrays_of k)"
proof (induction xs arbitrary: g f)
  case (Cons th xs)
  then obtain g1 where g1: "thread_step L seg th g = Some g1" "fold_opt (thread_step L seg) xs g1 = Some h"
    by (auto split: option.splits)
  then obtain vs m1 where run: "run_stmts L th seg (vars_of f th, own_view W P (arrays_of f)) = Some (vs, m1)"
    and g1_eq: "g1 = \<lparr>vars_of = (vars_of f)(th := vs), arrays_of = m1\<rparr>"
    using Cons.prems(2,3) by (auto simp: thread_step_def)
  from run_stmts_view [OF run assms] obtain m' where
    m': "run_stmts L th seg (vars_of f th, arrays_of f) = Some (vs, m')" "m1 = own_view W P m'" by blast
  let ?f = "\<lparr>vars_of = (vars_of f)(th := vs), arrays_of = m'\<rparr>"
  have "thread_step L seg th f = Some ?f" using m'(1) by (simp add: thread_step_def)
  with Cons.IH [OF g1(2), of ?f] m'(2) show ?case by (simp add: g1_eq)
qed auto

lemma run_segments_view:
  "run_segments L ord i segs g = Some h \<Longrightarrow> \<forall>seg \<in> set segs. list_all (stores_in W) seg \<Longrightarrow>
    vars_of g = vars_of f \<Longrightarrow> arrays_of g = own_view W P (arrays_of f) \<Longrightarrow>
    \<exists>k. run_segments L ord i segs f = Some k \<and> arrays_of h = own_view W P (arrays_of k)"
proof (induction segs arbitrary: i g f)
  case (Cons seg segs)
  then obtain g1 where g1: "fold_opt (thread_step L seg) (ord i) g = Some g1" "run_segments L ord (Suc i) segs g1 = Some h"
    by (auto split: option.splits)
  have "list_all (stores_in W) seg" using Cons.prems(2) by simp
  from fold_view [OF this g1(1) Cons.prems(3,4)] obtain k where
    k: "fold_opt (thread_step L seg) (ord i) f = Some k" "vars_of g1 = vars_of k" "arrays_of g1 = own_view W P (arrays_of k)"
    by blast
  from Cons.IH [OF g1(2) _ k(2,3)] Cons.prems(2) k(1) show ?case by simp
qed auto

text \<open>
  When the blocks have no races inside and own different places, a grid leaves in the places of a block what
  the block leaves there when it runs alone, one thread after another.
\<close>

theorem race_free_grid:
  assumes B: "finite B" and xs: "distinct xs" and code: "\<And>b. b \<in> B \<Longrightarrow> unrolls (in_block L b) code = Some (cd b)"
    and disj: "\<And>b b' a. b \<in> B \<Longrightarrow> b' \<in> B \<Longrightarrow> b \<noteq> b' \<Longrightarrow> a \<in> W \<Longrightarrow> P b a \<inter> P b' a = {}"
    and shared: "\<And>b. b \<in> B \<Longrightarrow> W \<inter> dom (shared b) = {}"
    and stores: "\<And>b. b \<in> B \<Longrightarrow> list_all (stores_in (W \<union> dom (shared b))) (cd b)"
    and rf: "\<And>b. b \<in> B \<Longrightarrow> races_free (in_block L b) xs (segments (cd b)) (block_start (shared b) (own_view W (P b) m))"
    and alone: "\<And>b. b \<in> B \<Longrightarrow> run_segments (in_block L b) (\<lambda>i. xs) 0 (segments (cd b)) (block_start (shared b) m) = Some (h b)"
    and owned: "\<And>b a js. b \<in> B \<Longrightarrow> a \<in> W \<Longrightarrow> js \<in> P b a \<Longrightarrow> m' a js = arrays_of (h b) a js"
    and rest: "\<And>a js. (\<And>b. b \<in> B \<Longrightarrow> a \<notin> W \<or> js \<notin> P b a) \<Longrightarrow> m' a js = m a js"
  shows "grid_total L (set xs) shared code B m m'"
proof -
  let ?v = "\<lambda>b. seen (shared b) (own_view W (P b) m)" and ?W = "\<lambda>b. W \<union> dom (shared b)"
  have segs: "\<forall>seg \<in> set (segments (cd b)). list_all (stores_in (?W b)) seg" if "b \<in> B" for b
    using stores [OF that] segments_subset by (fastforce simp: list_all_iff)
  have "\<exists>N. \<forall>n c m1. (block_step (in_block L b) (set xs) ^^ n) (block_init (segments (cd b)) (\<lambda>th. Map.empty), ?v b) (c, m1) \<longrightarrow>
      n \<le> N \<and> threads_ready (in_block L b) c m1 \<and>
      (block_done c \<longrightarrow> m1 = own_view (?W b) (all_shared (shared b) (P b)) (arrays_of (h b)))" if b: "b \<in> B" for b
  proof -
    from races_free_total [OF xs rf [OF b], of 0] obtain k where
      k: "run_segments (in_block L b) (\<lambda>i. xs) 0 (segments (cd b)) (block_start (shared b) (own_view W (P b) m)) = Some k"
      "block_total (in_block L b) (set xs) (segments (cd b)) (\<lambda>th. Map.empty) (?v b) (arrays_of k)"
      by (auto simp: seen_start)
    from run_segments_view [OF k(1) segs [OF b], of "block_start (shared b) m" "all_shared (shared b) (P b)"] alone [OF b]
    have "arrays_of k = own_view (?W b) (all_shared (shared b) (P b)) (arrays_of (h b))"
      by (simp add: seen_start seen_view [OF shared [OF b]])
    with k(2) show ?thesis unfolding block_total_def by simp
  qed
  then have "\<forall>b \<in> B. \<exists>N. \<forall>n c m1. (block_step (in_block L b) (set xs) ^^ n) (block_init (segments (cd b)) (\<lambda>th. Map.empty), ?v b) (c, m1) \<longrightarrow>
      n \<le> N \<and> threads_ready (in_block L b) c m1 \<and>
      (block_done c \<longrightarrow> m1 = own_view (?W b) (all_shared (shared b) (P b)) (arrays_of (h b)))"
    by (rule ballI)
  from bchoice [OF this] obtain N where N: "\<forall>b \<in> B. \<forall>n c m1.
      (block_step (in_block L b) (set xs) ^^ n) (block_init (segments (cd b)) (\<lambda>th. Map.empty), ?v b) (c, m1) \<longrightarrow>
      n \<le> N b \<and> threads_ready (in_block L b) c m1 \<and>
      (block_done c \<longrightarrow> m1 = own_view (?W b) (all_shared (shared b) (P b)) (arrays_of (h b)))" ..
  have ap: "apart L (set xs) W P B (grid_start L shared code m)
      (\<lambda>b. own_view (?W b) (all_shared (shared b) (P b)) (arrays_of (h b))) N"
    unfolding apart_def grid_start_def Let_def prod.case
  proof (intro conjI ballI impI)
    fix b assume b: "b \<in> B"
    show "W \<inter> dom (shared b) = {}" by (rule shared [OF b])
    show "conf_stores (?W b) (block_init (segments (the (unrolls (in_block L b) code))) (\<lambda>th. Map.empty))"
      using segs [OF b] by (simp add: code [OF b] conf_stores_def block_init_def)
    show "\<forall>n c m'. (block_step (in_block L b) (set xs) ^^ n)
        (block_init (segments (the (unrolls (in_block L b) code))) (\<lambda>th. Map.empty), ?v b) (c, m') \<longrightarrow>
      n \<le> N b \<and> threads_ready (in_block L b) c m' \<and>
      (block_done c \<longrightarrow> m' = own_view (?W b) (all_shared (shared b) (P b)) (arrays_of (h b)))"
      using N b unfolding code [OF b] option.sel by blast
  qed (rule disj)
  show ?thesis
  proof (rule grid_totalI [OF B _ ap])
    fix b a js assume b: "b \<in> B" "a \<in> W" "js \<in> P b a"
    then have "a \<notin> dom (shared b)" using shared by blast
    then show "m' a js = own_view (?W b) (all_shared (shared b) (P b)) (arrays_of (h b)) a js"
      using owned [OF b] b by (simp add: own_view_def)
  next
    show "unrolls (in_block L b) code \<noteq> None" if "b \<in> B" for b using code [OF that] by simp
  qed (rule rest)
qed

end
