(* ===== verification/Matmul_Code.thy ===== *)
theory Matmul_Code
  imports Kernel_Language Emitted_Code
begin

text \<open>
  The matrix kernels of the three code generators (\<open>amdgpu.rs\<close>, \<open>metal.rs\<close>, \<open>spirv.rs\<close> under
  \<open>omni-core/src/codegen/\<close>) as statements of one language. The emitted text is, character by
  character, the spelling of these statements after a head of declarations.
\<close>

section \<open>The statements\<close>

text \<open>Two-dimensional shared arrays, and one-dimensional ones with rows of width \<open>w\<close>.\<close>

definition square_index :: "int \<Rightarrow> expr \<Rightarrow> expr \<Rightarrow> expr list" where
  "square_index w i j = [i, j]"

definition linear_index :: "int \<Rightarrow> expr \<Rightarrow> expr \<Rightarrow> expr list" where
  "linear_index w i j = [Plus (Times i (Lit w)) j]"

type_synonym indexing = "int \<Rightarrow> expr \<Rightarrow> expr \<Rightarrow> expr list"

definition decls_code :: "int \<Rightarrow> int \<Rightarrow> stmt list" where
  "decls_code tile_m tile_n =
     [DeclInt ''tx'' (ThreadId AxisX),
      DeclInt ''ty'' (ThreadId AxisY),
      DeclInt ''row'' (Plus (Times (GroupId AxisY) (Lit tile_m)) (Name ''ty'')),
      DeclInt ''col'' (Plus (Times (GroupId AxisX) (Lit tile_n)) (Name ''tx'')),
      Note [],
      DeclElem ''sum'' ZeroElem,
      Note []]"

definition load_code :: "indexing \<Rightarrow> string list \<Rightarrow> int \<Rightarrow> int \<Rightarrow> stmt list" where
  "load_code ix notes tile_n tile_k =
     map Note notes @
     [StoreIf (Both (Lt (Name ''row'') (Param ''M''))
                    (Lt (Plus (Times (Name ''ph'') (Lit tile_k)) (Name ''tx'')) (Param ''K'')))
        ''sA'' (ix tile_k (Name ''ty'') (Name ''tx''))
        (Elem ''A'' [Plus (Plus (Times (Name ''row'') (Param ''K'')) (Times (Name ''ph'') (Lit tile_k))) (Name ''tx'')])
        ZeroElem,
      Note [],
      StoreIf (Both (Lt (Plus (Times (Name ''ph'') (Lit tile_k)) (Name ''ty'')) (Param ''K''))
                    (Lt (Name ''col'') (Param ''N'')))
        ''sB'' (ix tile_n (Name ''ty'') (Name ''tx''))
        (Elem ''B'' [Plus (Times (Plus (Times (Name ''ph'') (Lit tile_k)) (Name ''ty'')) (Param ''N'')) (Name ''col'')])
        ZeroElem,
      Note []]"

definition mac_code :: "indexing \<Rightarrow> string list \<Rightarrow> string list \<Rightarrow> int \<Rightarrow> int \<Rightarrow> stmt list" where
  "mac_code ix notes end_notes tile_n tile_k =
     map Note notes @
     [Loop ''k'' (Lit tile_k)
        [AddTo ''sum'' (Times (Elem ''sA'' (ix tile_k (Name ''ty'') (Name ''k'')))
                              (Elem ''sB'' (ix tile_n (Name ''k'') (Name ''tx''))))]] @
     map Note end_notes"

definition store_code :: "string list \<Rightarrow> stmt list" where
  "store_code acts =
     [Note [],
      When (Both (Lt (Name ''row'') (Param ''M'')) (Lt (Name ''col'') (Param ''N'')))
        (map Activate acts @
         [Store ''C'' [Plus (Times (Name ''row'') (Param ''N'')) (Name ''col'')] (Name ''sum'')])]"

record layout =
  indexing_of :: indexing
  load_notes :: "string list"
  mac_notes :: "string list"
  end_notes :: "string list"

definition matmul_code :: "layout \<Rightarrow> string list \<Rightarrow> int \<Rightarrow> int \<Rightarrow> int \<Rightarrow> stmt list" where
  "matmul_code y acts tile_m tile_n tile_k =
     decls_code tile_m tile_n @
     [Loop ''ph'' (Quot (Minus (Plus (Param ''K'') (Lit tile_k)) (Lit 1)) (Lit tile_k))
        (load_code (indexing_of y) (load_notes y) tile_n tile_k @ [Barrier] @
         mac_code (indexing_of y) (mac_notes y) (end_notes y) tile_n tile_k @ [Barrier])] @
     store_code acts"

section \<open>HIP\<close>

definition amd_act_lines :: "string \<Rightarrow> string list" where
  "amd_act_lines act =
     (if act = ''Relu'' then [tab @ tab @ ''sum = sum > 0.0f ? sum : 0.0f;'']
      else if act = ''Gelu'' then [tab @ tab @ ''sum = sum * 0.5f * (1.0f + erf(sum * 0.70710678f));'']
      else if act = ''Silu'' then [tab @ tab @ ''sum = sum / (1.0f + exp(-sum));'']
      else [])"

definition hip :: "string \<Rightarrow> language" where
  "hip dtype =
     \<lparr>thread_id = (\<lambda>a. case a of AxisX \<Rightarrow> ''threadIdx.x'' | AxisY \<Rightarrow> ''threadIdx.y''),
      group_id = (\<lambda>a. case a of AxisX \<Rightarrow> ''blockIdx.x'' | AxisY \<Rightarrow> ''blockIdx.y''),
      param_prefix = [], elem_name = dtype, zero_text = ''0.0f'', barrier_text = ''__syncthreads();'',
      braces = False, activation_lines = amd_act_lines, block_dim = ''blockDim.x'',
      global_id = [],
      rectify_text = (\<lambda>s. s @ '' > 0.0f ? '' @ s @ '' : 0.0f'')\<rparr>"

definition hip_layout :: layout where
  "hip_layout = \<lparr>indexing_of = square_index,
     load_notes = [''// Cooperative load into SRAM / Shared Memory''],
     mac_notes = [[], ''// Matrix Multiply on Tiles'', ''#pragma unroll''], end_notes = []\<rparr>"

definition hip_head :: "string \<Rightarrow> string \<Rightarrow> int \<Rightarrow> int \<Rightarrow> int \<Rightarrow> string list" where
  "hip_head name dtype tile_m tile_n tile_k =
    [ ''extern '' @ dquote @ ''C'' @ dquote @ '' __global__ void '' @ name @ ''('',
      tab @ ''const '' @ dtype @ ''* __restrict__ A,'',
      tab @ ''const '' @ dtype @ ''* __restrict__ B,'',
      tab @ dtype @ ''* __restrict__ C,'',
      tab @ ''int M, int N, int K'',
      '') {'',
      tab @ ''// Tiled shared memory allocations'',
      tab @ ''__shared__ '' @ dtype @ '' sA['' @ dec_int tile_m @ '']['' @ dec_int tile_k @ ''];'',
      tab @ ''__shared__ '' @ dtype @ '' sB['' @ dec_int tile_k @ '']['' @ dec_int tile_n @ ''];'',
      [] ]"

text \<open>The fused activations for which the generators have a template; the fusion pass also leaves other names.\<close>

definition acts_of :: "omni_op \<Rightarrow> string list" where
  "acts_of p =
     (case op_attrs p ''fused_activation'' of
        Some (AttrString act) \<Rightarrow> if act = ''Relu'' \<or> act = ''Gelu'' \<or> act = ''Silu'' then [act] else []
      | _ \<Rightarrow> [])"

lemmas code_defs = matmul_code_def decls_code_def load_code_def mac_code_def store_code_def
  square_index_def linear_index_def

lemma text_lines_append: "text_lines (xs @ ys) = text_lines xs @ text_lines ys"
  by (simp add: text_lines_def)

lemma dec_int_1 [simp]: "dec_int 1 = ''1''"
  by code_simp

lemma show_acts: "show_stmts l n (map Activate acts) = concat (map (activation_lines l) acts)"
  by (induction acts) simp_all

lemma show_stmts_append: "show_stmts l n (xs @ ys) = show_stmts l n xs @ show_stmts l n ys"
  by (induction xs) simp_all

lemma amd_matmul_text:
  "amd_lower_matmul p name =
     (let m = sint (int_attr p ''tile_m'' 64); n = sint (int_attr p ''tile_n'' 64);
          k = sint (int_attr p ''tile_k'' 16); dtype = amd_map_element_type (elem_type (result_type p))
      in text_lines (hip_head name dtype m n k @
           show_stmts (hip dtype) 1 (matmul_code hip_layout (acts_of p) m n k) @ [''}'']))"
proof -
  have act: "amd_activation act = text_lines (amd_act_lines act)" for act
    by (simp add: amd_activation_def amd_act_lines_def)
  have acts: "(case op_attrs p ''fused_activation'' of Some (AttrString act) \<Rightarrow> amd_activation act | _ \<Rightarrow> []) =
      text_lines (concat (map amd_act_lines (acts_of p)))"
    by (simp add: acts_of_def act amd_act_lines_def text_lines_def split: option.split attr_value.split)
  show ?thesis
    unfolding amd_lower_matmul_def Let_def acts amd_matmul_def amd_matmul_end_def text_lines_append [symmetric]
    by (simp only: hip_head_def code_defs show_stmts_append show_stmts.simps show_stmt.simps)
      (simp add: show_acts square_index_def hip_layout_def hip_def indent_def show_store_def paren_def text_lines_append
        numeral_2_eq_2 numeral_3_eq_3)
qed

section \<open>Metal\<close>

definition metal_act_lines :: "string \<Rightarrow> string list" where
  "metal_act_lines act =
     (if act = ''Relu'' then [tab @ tab @ ''sum = max(sum, 0.0f);'']
      else if act = ''Gelu'' then [tab @ tab @ ''sum = sum * 0.5f * (1.0f + precise::erf(sum * 0.70710678f));'']
      else if act = ''Silu'' then [tab @ tab @ ''sum = sum / (1.0f + precise::exp(-sum));'']
      else [])"

definition metal :: "string \<Rightarrow> language" where
  "metal dtype =
     \<lparr>thread_id = (\<lambda>a. case a of AxisX \<Rightarrow> ''thread_position_in_threadgroup.x''
                              | AxisY \<Rightarrow> ''thread_position_in_threadgroup.y''),
      group_id = (\<lambda>a. case a of AxisX \<Rightarrow> ''threadgroup_position_in_grid.x''
                              | AxisY \<Rightarrow> ''threadgroup_position_in_grid.y''),
      param_prefix = [], elem_name = dtype, zero_text = ''0.0'',
      barrier_text = ''threadgroup_barrier(mem_flags::mem_threadgroup);'',
      braces = False, activation_lines = metal_act_lines, block_dim = [], global_id = ''idx'',
      rectify_text = (\<lambda>s. ''max('' @ s @ '', '' @ dtype @ ''(0.0))'')\<rparr>"

definition metal_layout :: layout where
  "metal_layout = \<lparr>indexing_of = linear_index,
     load_notes = [''// Tiled cooperative load into threadgroup local cache''],
     mac_notes = [[], ''#pragma unroll''], end_notes = []\<rparr>"

definition metal_head :: "string \<Rightarrow> string \<Rightarrow> string list" where
  "metal_head name dtype =
    [ ''kernel void '' @ name @ ''('',
      tab @ ''device const '' @ dtype @ ''* A ['' @ ''[buffer(0)]'' @ ''],'',
      tab @ ''device const '' @ dtype @ ''* B ['' @ ''[buffer(1)]'' @ ''],'',
      tab @ ''device '' @ dtype @ ''* C ['' @ ''[buffer(2)]'' @ ''],'',
      tab @ ''constant int& M ['' @ ''[buffer(3)]'' @ ''],'',
      tab @ ''constant int& N ['' @ ''[buffer(4)]'' @ ''],'',
      tab @ ''constant int& K ['' @ ''[buffer(5)]'' @ ''],'',
      tab @ ''threadgroup '' @ dtype @ ''* sA ['' @ ''[threadgroup(0)]'' @ ''],'',
      tab @ ''threadgroup '' @ dtype @ ''* sB ['' @ ''[threadgroup(1)]'' @ ''],'',
      tab @ ''uint2 threadgroup_position_in_grid ['' @ ''[threadgroup_position_in_grid]'' @ ''],'',
      tab @ ''uint2 thread_position_in_threadgroup ['' @ ''[thread_position_in_threadgroup]'' @ ''],'',
      tab @ ''uint2 thread_position_in_grid ['' @ ''[thread_position_in_grid]'' @ '']'',
      '') {'' ]"

lemma metal_matmul_text:
  "metal_lower_matmul p name =
     (let m = sint (int_attr p ''tile_m'' 32); n = sint (int_attr p ''tile_n'' 32);
          k = sint (int_attr p ''tile_k'' 16); dtype = metal_map_element_type (elem_type (result_type p))
      in text_lines (metal_head name dtype @
           show_stmts (metal dtype) 1 (matmul_code metal_layout (acts_of p) m n k) @ [''}'']))"
proof -
  have act: "metal_activation act = text_lines (metal_act_lines act)" for act
    by (simp add: metal_activation_def metal_act_lines_def)
  have acts: "(case op_attrs p ''fused_activation'' of Some (AttrString act) \<Rightarrow> metal_activation act | _ \<Rightarrow> []) =
      text_lines (concat (map metal_act_lines (acts_of p)))"
    by (simp add: acts_of_def act metal_act_lines_def text_lines_def split: option.split attr_value.split)
  show ?thesis
    unfolding metal_lower_matmul_def Let_def acts metal_matmul_def metal_matmul_end_def text_lines_append [symmetric]
    by (simp only: metal_head_def code_defs show_stmts_append show_stmts.simps show_stmt.simps)
      (simp add: show_acts linear_index_def metal_layout_def metal_def indent_def show_store_def paren_def
        text_lines_append numeral_2_eq_2 numeral_3_eq_3)
qed

section \<open>GLSL\<close>

definition glsl_act_lines :: "string \<Rightarrow> string list" where
  "glsl_act_lines act =
     (if act = ''Relu'' then [tab @ tab @ ''sum = max(sum, float16_t(0.0));'']
      else if act = ''Gelu'' then
        [tab @ tab @ ''sum = sum * float16_t(0.5) * (float16_t(1.0) + erf(sum * float16_t(0.70710678)));'']
      else if act = ''Silu'' then [tab @ tab @ ''sum = sum / (float16_t(1.0) + exp(-sum));'']
      else [])"

definition glsl :: "string \<Rightarrow> language" where
  "glsl dtype =
     \<lparr>thread_id = (\<lambda>a. case a of AxisX \<Rightarrow> ''int(gl_LocalInvocationID.x)'' | AxisY \<Rightarrow> ''int(gl_LocalInvocationID.y)''),
      group_id = (\<lambda>a. case a of AxisX \<Rightarrow> ''int(gl_WorkGroupID.x)'' | AxisY \<Rightarrow> ''int(gl_WorkGroupID.y)''),
      param_prefix = ''params.'', elem_name = dtype, zero_text = dtype @ ''(0.0)'',
      barrier_text = ''barrier();'', braces = True, activation_lines = glsl_act_lines,
      block_dim = [], global_id = ''int(gl_GlobalInvocationID.x)'',
      rectify_text = (\<lambda>s. ''max('' @ s @ '', '' @ dtype @ ''(0.0))'')\<rparr>"

definition glsl_layout :: layout where
  "glsl_layout = \<lparr>indexing_of = square_index, load_notes = [], mac_notes = [[]], end_notes = [[]]\<rparr>"

definition glsl_head :: "string \<Rightarrow> int \<Rightarrow> int \<Rightarrow> int \<Rightarrow> string list" where
  "glsl_head dtype tile_m tile_n tile_k =
    [ ''layout(local_size_x = 16, local_size_y = 16, local_size_z = 1) in;'',
      [],
      ''layout(std430, binding = 0) readonly buffer BufferA { '' @ dtype @ '' A[]; };'',
      ''layout(std430, binding = 1) readonly buffer BufferB { '' @ dtype @ '' B[]; };'',
      ''layout(std430, binding = 2) writeonly buffer BufferC { '' @ dtype @ '' C[]; };'',
      [],
      ''layout(push_constant) uniform Params {'',
      tab @ ''int M; int N; int K;'',
      ''} params;'',
      [],
      ''shared '' @ dtype @ '' sA['' @ dec_int tile_m @ '']['' @ dec_int tile_k @ ''];'',
      ''shared '' @ dtype @ '' sB['' @ dec_int tile_k @ '']['' @ dec_int tile_n @ ''];'',
      [],
      ''void main() {'' ]"

lemma dec_16: "dec 16 = ''16''"
  by code_simp

lemma spirv_matmul_text:
  "spirv_lower_matmul p =
     (let m = sint (int_attr p ''tile_m'' 16); n = sint (int_attr p ''tile_n'' 16);
          k = sint (int_attr p ''tile_k'' 16); dtype = spirv_map_element_type (elem_type (result_type p))
      in text_lines (glsl_head dtype m n k @
           show_stmts (glsl dtype) 1 (matmul_code glsl_layout (acts_of p) m n k) @ [''}'']))"
proof -
  have act: "spirv_activation act = text_lines (glsl_act_lines act)" for act
    by (simp add: spirv_activation_def glsl_act_lines_def)
  have acts: "(case op_attrs p ''fused_activation'' of Some (AttrString act) \<Rightarrow> spirv_activation act | _ \<Rightarrow> []) =
      text_lines (concat (map glsl_act_lines (acts_of p)))"
    by (simp add: acts_of_def act glsl_act_lines_def text_lines_def split: option.split attr_value.split)
  show ?thesis
    unfolding spirv_lower_matmul_def Let_def acts spirv_matmul_def spirv_matmul_end_def dec_16 text_lines_append [symmetric]
    by (simp only: glsl_head_def code_defs show_stmts_append show_stmts.simps show_stmt.simps)
      (simp add: show_acts square_index_def glsl_layout_def glsl_def indent_def show_store_def paren_def
        text_lines_append numeral_2_eq_2 numeral_3_eq_3)
qed

end
