(* ===== verification/Matmul_Run.thy ===== *)
theory Matmul_Run
  imports Matmul_Code
begin

text \<open>
  Execution of the emitted matrix kernels by one block, one thread after another: after every segment the
  variables and the shared arrays hold what the algorithm has computed so far, no access leaves its
  array and no index overflows. The arrays in memory are the flat ones of the kernels; the indexing of shared memory is an interface
  with two providers. Elements are of any type, and the order of the additions is the one of the kernel.
\<close>

section \<open>Indexing of shared memory\<close>

text \<open>An evaluation of index expressions, whatever it does with variables.\<close>

definition index_eval :: "(expr \<Rightarrow> int option) \<Rightarrow> bool" where
  "index_eval ev \<longleftrightarrow>
     (\<forall>i. ev (Lit i) = Some i) \<and> (\<forall>a b. ev (Plus a b) = int32 (lift2 (+) (ev a) (ev b))) \<and>
     (\<forall>a b. ev (Times a b) = int32 (lift2 (*) (ev a) (ev b)))"

lemma index_eval_eval: "index_eval (eval L th vs)"
  by (simp add: index_eval_def)

locale tile_indexing =
  fixes ix :: indexing and cell :: "int \<Rightarrow> int \<Rightarrow> int \<Rightarrow> int list"
  assumes index_cell: "index_eval ev \<Longrightarrow> ev a = Some (int i) \<Longrightarrow> ev b = Some (int j) \<Longrightarrow> i < w \<Longrightarrow> j < w \<Longrightarrow>
      w * w \<le> 2 ^ 31 \<Longrightarrow> eval_list ev (ix (int w) a b) = Some (cell (int w) (int i) (int j))"
    and cell_inj: "j < w \<Longrightarrow> j' < w \<Longrightarrow>
      cell (int w) (int i) (int j) = cell (int w) (int i') (int j') \<longleftrightarrow> i = i' \<and> j = j'"

context tile_indexing
begin

lemma evals_ix:
  "eval L th vs a = Some (int i) \<Longrightarrow> eval L th vs b = Some (int j) \<Longrightarrow> i < w \<Longrightarrow> j < w \<Longrightarrow> w * w \<le> 2 ^ 31 \<Longrightarrow>
     evals L th vs (ix (int w) a b) = Some (cell (int w) (int i) (int j))"
  by (rule index_cell [OF index_eval_eval])

end

text \<open>The bounds of flat indices.\<close>

lemma flat_index_less:
  fixes r i n :: nat
  assumes "r < m" and "i < n" and "m * n \<le> b"
  shows "r * n + i < b"
proof -
  have "r * n + i < Suc r * n" using assms(2) by simp
  also have "\<dots> \<le> m * n" using assms(1) by (intro mult_le_mono1) simp
  finally show ?thesis using assms(3) by simp
qed

definition square_cell :: "int \<Rightarrow> int \<Rightarrow> int \<Rightarrow> int list" where
  "square_cell w i j = [i, j]"

definition linear_cell :: "int \<Rightarrow> int \<Rightarrow> int \<Rightarrow> int list" where
  "linear_cell w i j = [i * w + j]"

interpretation square: tile_indexing square_index square_cell
  by unfold_locales (simp_all add: square_index_def square_cell_def)

lemma linear_inj:
  fixes w :: int
  assumes "0 \<le> j" "j < w" "0 \<le> j'" "j' < w"
  shows "i * w + j = i' * w + j' \<longleftrightarrow> i = i' \<and> j = j'"
proof
  assume e: "i * w + j = i' * w + j'"
  have "(i * w + j) div w = i" "(i' * w + j') div w = i'" using assms by simp_all
  then show "i = i' \<and> j = j'" using e by simp
qed simp

interpretation linear: tile_indexing linear_index linear_cell
  proof
  fix ev a b and i j w :: nat
  assume ev: "index_eval ev" and v: "ev a = Some (int i)" "ev b = Some (int j)" and l: "i < w" "j < w" "w * w \<le> 2 ^ 31"
  have le: "i * w + j < 2 ^ 31" by (rule flat_index_less [OF l])
  then have "i * w < 2 ^ 31" by simp
  have "int32 (Some (int i * int w)) = Some (int i * int w)" "int32 (Some (int i * int w + int j)) = Some (int i * int w + int j)"
    using int32_nat [OF le] int32_nat [OF \<open>i * w < 2 ^ 31\<close>] by (simp_all only: of_nat_mult of_nat_add)
  then show "eval_list ev (linear_index (int w) a b) = Some (linear_cell (int w) (int i) (int j))"
    using ev by (simp add: index_eval_def linear_index_def linear_cell_def v)
qed (simp add: linear_cell_def linear_inj)

section \<open>The algorithm\<close>

record 'e operands =
  op_a :: "nat \<Rightarrow> nat \<Rightarrow> 'e"
  op_b :: "nat \<Rightarrow> nat \<Rightarrow> 'e"
  m_dim :: nat
  n_dim :: nat
  k_dim :: nat

text \<open>The operands with zeros around them, and the sum of the first \<open>n\<close> products in the order of the kernel.\<close>

definition pad_a :: "'e launch \<Rightarrow> 'e operands \<Rightarrow> nat \<Rightarrow> nat \<Rightarrow> 'e" where
  "pad_a L x r i = (if r < m_dim x \<and> i < k_dim x then op_a x r i else zero_elem L)"

definition pad_b :: "'e launch \<Rightarrow> 'e operands \<Rightarrow> nat \<Rightarrow> nat \<Rightarrow> 'e" where
  "pad_b L x i c = (if i < k_dim x \<and> c < n_dim x then op_b x i c else zero_elem L)"

definition dot :: "'e launch \<Rightarrow> 'e operands \<Rightarrow> nat \<Rightarrow> nat \<Rightarrow> nat \<Rightarrow> 'e" where
  "dot L x r c n = fold (\<lambda>i s. add_elem L s (mul_elem L (pad_a L x r i) (pad_b L x i c))) [0..<n] (zero_elem L)"

lemma dot_add:
  "dot L x r c (n + k) =
     fold (\<lambda>i s. add_elem L s (mul_elem L (pad_a L x r (n + i)) (pad_b L x (n + i) c))) [0..<k] (dot L x r c n)"
proof (induction k)
  case (Suc k)
  then show ?case by (simp add: dot_def)
qed simp

text \<open>The tiles and the sums of a block.\<close>

record 'e tiles =
  tile_l :: "nat \<Rightarrow> nat \<Rightarrow> 'e"
  tile_r :: "nat \<Rightarrow> nat \<Rightarrow> 'e"
  sums :: "nat \<Rightarrow> nat \<Rightarrow> 'e"

fun load_cell :: "'e launch \<Rightarrow> 'e operands \<Rightarrow> nat \<Rightarrow> nat \<Rightarrow> thread \<Rightarrow> 'e tiles \<Rightarrow> 'e tiles" where
  "load_cell L x T ph (ty, tx) st =
     st\<lparr>tile_l := (tile_l st)(ty := (tile_l st ty)(tx := pad_a L x (group_y L * T + ty) (ph * T + tx))),
        tile_r := (tile_r st)(ty := (tile_r st ty)(tx := pad_b L x (ph * T + ty) (group_x L * T + tx)))\<rparr>"

fun mac_cell :: "'e launch \<Rightarrow> nat \<Rightarrow> thread \<Rightarrow> 'e tiles \<Rightarrow> 'e tiles" where
  "mac_cell L T (ty, tx) st =
     st\<lparr>sums := (sums st)(ty := (sums st ty)(tx :=
          fold (\<lambda>k s. add_elem L s (mul_elem L (tile_l st ty k) (tile_r st k tx))) [0..<T] (sums st ty tx)))\<rparr>"

lemma sums_load_cell [simp]: "sums (load_cell L x T ph th st) = sums st"
  by (cases th) simp

lemma sums_load [simp]: "sums (fold (load_cell L x T ph) ths st) = sums st"
  by (induction ths arbitrary: st) simp_all

lemma load_all_cells:
  "tile_l (fold (load_cell L x T ph) ths st) ty tx =
     (if (ty, tx) \<in> set ths then pad_a L x (group_y L * T + ty) (ph * T + tx) else tile_l st ty tx)"
  "tile_r (fold (load_cell L x T ph) ths st) ty tx =
     (if (ty, tx) \<in> set ths then pad_b L x (ph * T + ty) (group_x L * T + tx) else tile_r st ty tx)"
proof (induction ths arbitrary: st)
  case (Cons th ths)
  obtain a b where th: "th = (a, b)" by (cases th)
  { case 1 then show ?case using Cons.IH(1) [of "load_cell L x T ph th st"] by (auto simp: th) }
  { case 2 then show ?case using Cons.IH(2) [of "load_cell L x T ph th st"] by (auto simp: th) }
qed simp_all

lemma mac_tiles [simp]:
  "tile_l (mac_cell L T th st) = tile_l st" "tile_r (mac_cell L T th st) = tile_r st"
  by (cases th; simp)+

lemma mac_all_cells:
  "distinct ths \<Longrightarrow> sums (fold (mac_cell L T) ths st) ty tx =
     (if (ty, tx) \<in> set ths
      then fold (\<lambda>k s. add_elem L s (mul_elem L (tile_l st ty k) (tile_r st k tx))) [0..<T] (sums st ty tx)
      else sums st ty tx)"
proof (induction ths arbitrary: st)
  case (Cons th ths)
  obtain a b where "th = (a, b)" by (cases th)
  then show ?case using Cons.IH [of "mac_cell L T th st"] Cons.prems by auto
qed simp

section \<open>One thread\<close>

text \<open>What the parameters and the input arrays hold.\<close>

definition dims_ok :: "nat \<Rightarrow> 'e operands \<Rightarrow> bool" where
  "dims_ok T x \<longleftrightarrow>
     m_dim x < 2 ^ 31 \<and> n_dim x < 2 ^ 31 \<and> k_dim x + T < 2 ^ 31 \<and> T * T \<le> 2 ^ 31 \<and>
     m_dim x * k_dim x \<le> 2 ^ 31 \<and> k_dim x * n_dim x \<le> 2 ^ 31 \<and> m_dim x * n_dim x \<le> 2 ^ 31"

text \<open>The rows and columns of a block are in the range of indices.\<close>

definition block_ok :: "nat \<Rightarrow> nat \<times> nat \<Rightarrow> bool" where
  "block_ok T b \<longleftrightarrow> Suc (fst b) * T \<le> 2 ^ 31 \<and> Suc (snd b) * T \<le> 2 ^ 31"

definition args_ok :: "'e launch \<Rightarrow> 'e operands \<Rightarrow> bool" where
  "args_ok L x \<longleftrightarrow>
     param_of L ''M'' = Some (int (m_dim x)) \<and> param_of L ''N'' = Some (int (n_dim x)) \<and>
     param_of L ''K'' = Some (int (k_dim x))"

definition params_ok :: "nat \<Rightarrow> 'e launch \<Rightarrow> 'e operands \<Rightarrow> bool" where
  "params_ok T L x \<longleftrightarrow> args_ok L x \<and> dims_ok T x \<and> block_ok T (group_y L, group_x L)"

lemma params_okD:
  assumes "params_ok T L x"
  shows "args_ok L x" "dims_ok T x" "block_ok T (group_y L, group_x L)"
  using assms by (simp_all add: params_ok_def)

lemma params_eval:
  assumes "args_ok L x" and "dims_ok T x"
  shows "eval L th vs (Param ''M'') = Some (int (m_dim x))" "eval L th vs (Param ''N'') = Some (int (n_dim x))"
    "eval L th vs (Param ''K'') = Some (int (k_dim x))"
  using assms by (simp_all add: args_ok_def dims_ok_def int32_nat)

lemma eval_plus: "eval L th vs a = Some (int i) \<Longrightarrow> eval L th vs b = Some (int j) \<Longrightarrow> i + j < 2 ^ 31 \<Longrightarrow>
    eval L th vs (Plus a b) = Some (int (i + j))"
  using int32_nat [of "i + j"] by simp

lemma eval_times: "eval L th vs a = Some (int i) \<Longrightarrow> eval L th vs b = Some (int j) \<Longrightarrow> i * j < 2 ^ 31 \<Longrightarrow>
    eval L th vs (Times a b) = Some (int (i * j))"
  using int32_nat [of "i * j"] by simp

lemma eval_lit: "eval L th vs (Lit (int n)) = Some (int n)"
  by simp

definition inputs_ok :: "'e operands \<Rightarrow> 'e arrays \<Rightarrow> bool" where
  "inputs_ok x m \<longleftrightarrow>
     (\<forall>r < m_dim x. \<forall>k < k_dim x. m ''A'' [int r * int (k_dim x) + int k] = Some (op_a x r k)) \<and>
     (\<forall>k < k_dim x. \<forall>c < n_dim x. m ''B'' [int k * int (n_dim x) + int c] = Some (op_b x k c))"

text \<open>The variables of a thread after the declarations.\<close>

definition vars_ok :: "nat \<Rightarrow> 'e launch \<Rightarrow> thread \<Rightarrow> 'e \<Rightarrow> 'e vars \<Rightarrow> bool" where
  "vars_ok T L th s vs \<longleftrightarrow>
     vs ''tx'' = Some (IntV (int (snd th))) \<and> vs ''ty'' = Some (IntV (int (fst th))) \<and>
     vs ''row'' = Some (IntV (int (group_y L * T + fst th))) \<and> vs ''col'' = Some (IntV (int (group_x L * T + snd th))) \<and>
     vs ''sum'' = Some (ElemV s)"

lemma vars_okD:
  assumes "vars_ok T L (ty, tx) s vs"
  shows "vs ''tx'' = Some (IntV (int tx))" "vs ''ty'' = Some (IntV (int ty))"
    "vs ''row'' = Some (IntV (int (group_y L * T + ty)))" "vs ''col'' = Some (IntV (int (group_x L * T + tx)))"
    "vs ''sum'' = Some (ElemV s)"
  using assms by (simp_all add: vars_ok_def)

lemma less_2_32: "(2 :: nat) ^ 31 < 2 ^ 32"
  by simp

lemma block_rows:
  fixes g t :: nat
  assumes "Suc g * T \<le> 2 ^ 31" and "t < T"
  shows "g < 2 ^ 31" "t < 2 ^ 31" "g * T < 2 ^ 31" "g * T + t < 2 ^ 31"
proof -
  have "g * T + t < Suc g * T" using assms(2) by simp
  then show less: "g * T + t < 2 ^ 31" using assms(1) by linarith
  have "g \<le> g * T" using assms(2) by simp
  then show "g < 2 ^ 31" "t < 2 ^ 31" "g * T < 2 ^ 31" using less by linarith+
qed

lemma decls_run:
  assumes b: "block_ok T (group_y L, group_x L)" and t: "ty < T" "tx < T"
  shows "\<exists>vs. run_stmts L (ty, tx) (decls_code (int T) (int T)) (vs0, m) = Some (vs, m) \<and> vars_ok T L (ty, tx) (zero_elem L) vs"
proof -
  have b': "Suc (group_y L) * T \<le> 2 ^ 31" "Suc (group_x L) * T \<le> 2 ^ 31" using b by (simp_all add: block_ok_def)
  note y = block_rows [OF b'(1) t(1)] and x = block_rows [OF b'(2) t(2)]
  note u = y(1,2) [THEN order.strict_trans [OF _ less_2_32], THEN uint32_nat]
    x(1,2) [THEN order.strict_trans [OF _ less_2_32], THEN uint32_nat]
  note i = y [THEN int32_nat] x [THEN int32_nat]
  show ?thesis
    using i [unfolded of_nat_mult of_nat_add] by (simp add: decls_code_def vars_ok_def u)
qed

lemma run_notes: "run_stmts L th (map Note ns @ ss) s = run_stmts L th ss s"
  by (induction ns) simp_all

lemma run_notes_end: "run_stmts L th (map Note ns) s = Some s"
  using run_notes [of L th ns "[]" s] by simp

lemma store_if_run:
  assumes "holds L th vs c = Some b" and "evals L th vs es = Some js"
    and "b \<Longrightarrow> eval_elem L th vs m e = Some v" and "\<not> b \<Longrightarrow> eval_elem L th vs m e' = Some v'" and "m a js \<noteq> None"
  shows "run_stmt L th (StoreIf c a es e e') (vs, m) = Some (vs, m(a := (m a)(js \<mapsto> if b then v else v')))"
  using assms by (cases b) (simp_all add: store_def write_elem_def)

lemma holds_both:
  assumes "holds L th vs c = Some x" and "holds L th vs d = Some y"
  shows "holds L th vs (Both c d) = Some (x \<and> y)"
  using assms by simp

context tile_indexing
begin

lemma load_run:
  assumes vs: "vars_ok T L (ty, tx) s vs" "vs ''ph'' = Some (IntV (int ph))" and t: "ty < T" "tx < T" "ph * T < k_dim x"
    and p: "params_ok T L x" and i: "inputs_ok x m"
    and a: "m ''sA'' (cell (int T) (int ty) (int tx)) \<noteq> None" and b: "m ''sB'' (cell (int T) (int ty) (int tx)) \<noteq> None"
  defines "row \<equiv> group_y L * T + ty" and "col \<equiv> group_x L * T + tx"
  shows "run_stmts L (ty, tx) (load_code ix ns (int T) (int T)) (vs, m) =
    Some (vs, m
      (''sA'' := (m ''sA'')(cell (int T) (int ty) (int tx) \<mapsto> pad_a L x row (ph * T + tx)),
       ''sB'' := (m ''sB'')(cell (int T) (int ty) (int tx) \<mapsto> pad_b L x (ph * T + ty) col)))"
proof -
  note d = p [unfolded params_ok_def dims_ok_def]
  let ?ev = "eval L (ty, tx) vs" and ?phT = "Times (Name ''ph'') (Lit (int T))"
  have v: "?ev (Name ''tx'') = Some (int tx)" "?ev (Name ''ty'') = Some (int ty)" "?ev (Name ''row'') = Some (int row)"
    "?ev (Name ''col'') = Some (int col)" "?ev (Name ''ph'') = Some (int ph)"
    using vars_okD [OF vs(1), folded row_def col_def] vs(2) by simp_all
  note pr = params_eval [OF params_okD(1,2) [OF p], of "(ty, tx)" vs]
  have phT: "?ev ?phT = Some (int (ph * T))" using t d by (intro eval_times v eval_lit) simp
  have k: "?ev (Plus ?phT (Name ''tx'')) = Some (int (ph * T + tx))" "?ev (Plus ?phT (Name ''ty'')) = Some (int (ph * T + ty))"
    using t d by (intro eval_plus phT v; simp)+
  have A: "eval_elem L (ty, tx) vs m (Elem ''A'' [Plus (Plus (Times (Name ''row'') (Param ''K'')) ?phT) (Name ''tx'')]) =
      Some (op_a x row (ph * T + tx))" if l: "row < m_dim x" "ph * T + tx < k_dim x"
  proof -
    have less: "row * k_dim x + (ph * T + tx) < 2 ^ 31" by (rule flat_index_less [of row "m_dim x" "ph * T + tx" "k_dim x"]) (use l d in simp_all)
    have "?ev (Plus (Plus (Times (Name ''row'') (Param ''K'')) ?phT) (Name ''tx'')) = Some (int (row * k_dim x + ph * T + tx))"
      using less by (intro eval_plus eval_times phT v pr; simp)
    moreover have "m ''A'' [int (row * k_dim x + ph * T + tx)] = Some (op_a x row (ph * T + tx))"
    proof -
      have "m ''A'' [int row * int (k_dim x) + int (ph * T + tx)] = Some (op_a x row (ph * T + tx))"
        using i l unfolding inputs_ok_def by blast
      then show ?thesis by (simp only: of_nat_add of_nat_mult add.assoc)
    qed
    ultimately show ?thesis by (simp del: eval.simps of_nat_add of_nat_mult)
  qed
  have B: "eval_elem L (ty, tx) vs m' (Elem ''B'' [Plus (Times (Plus ?phT (Name ''ty'')) (Param ''N'')) (Name ''col'')]) =
      Some (op_b x (ph * T + ty) col)" if l: "ph * T + ty < k_dim x" "col < n_dim x" and m': "m' ''B'' = m ''B''" for m'
  proof -
    have less: "(ph * T + ty) * n_dim x + col < 2 ^ 31" by (rule flat_index_less [of "ph * T + ty" "k_dim x" col "n_dim x"]) (use l d in simp_all)
    have "?ev (Plus (Times (Plus ?phT (Name ''ty'')) (Param ''N'')) (Name ''col'')) = Some (int ((ph * T + ty) * n_dim x + col))"
      using less by (intro eval_plus [where i = "(ph * T + ty) * n_dim x"] eval_times k v pr) simp_all
    moreover have "m' ''B'' [int ((ph * T + ty) * n_dim x + col)] = Some (op_b x (ph * T + ty) col)"
    proof -
      have "m ''B'' [int (ph * T + ty) * int (n_dim x) + int col] = Some (op_b x (ph * T + ty) col)"
        using i l unfolding inputs_ok_def by blast
      then show ?thesis by (simp only: m' of_nat_add of_nat_mult)
    qed
    ultimately show ?thesis by (simp del: eval.simps of_nat_add of_nat_mult)
  qed
  have ix: "evals L (ty, tx) vs (ix (int T) (Name ''ty'') (Name ''tx'')) = Some (cell (int T) (int ty) (int tx))"
    using t d by (intro evals_ix v) simp_all
  have less: "holds L (ty, tx) vs (Lt (Name ''row'') (Param ''M'')) = Some (row < m_dim x)"
    "holds L (ty, tx) vs (Lt (Plus ?phT (Name ''tx'')) (Param ''K'')) = Some (ph * T + tx < k_dim x)"
    "holds L (ty, tx) vs (Lt (Plus ?phT (Name ''ty'')) (Param ''K'')) = Some (ph * T + ty < k_dim x)"
    "holds L (ty, tx) vs (Lt (Name ''col'') (Param ''N'')) = Some (col < n_dim x)"
    by (simp_all only: holds.simps v k pr lift2_Some of_nat_less_iff)
  let ?m = "m(''sA'' := (m ''sA'')(cell (int T) (int ty) (int tx) \<mapsto> pad_a L x row (ph * T + tx)))"
  have 1: "run_stmt L (ty, tx) (StoreIf (Both (Lt (Name ''row'') (Param ''M''))
          (Lt (Plus ?phT (Name ''tx'')) (Param ''K'')))
        ''sA'' (ix (int T) (Name ''ty'') (Name ''tx''))
        (Elem ''A'' [Plus (Plus (Times (Name ''row'') (Param ''K'')) ?phT) (Name ''tx'')])
        ZeroElem) (vs, m) = Some (vs, ?m)"
    unfolding pad_a_def by (rule store_if_run [OF holds_both [OF less(1,2)] ix]) (use a A in auto)
  have 2: "run_stmt L (ty, tx) (StoreIf (Both (Lt (Plus ?phT (Name ''ty'')) (Param ''K''))
          (Lt (Name ''col'') (Param ''N'')))
        ''sB'' (ix (int T) (Name ''ty'') (Name ''tx''))
        (Elem ''B'' [Plus (Times (Plus ?phT (Name ''ty'')) (Param ''N'')) (Name ''col'')])
        ZeroElem) (vs, ?m) = Some (vs, ?m(''sB'' := (?m ''sB'')(cell (int T) (int ty) (int tx) \<mapsto>
         pad_b L x (ph * T + ty) col)))"
    unfolding pad_b_def by (rule store_if_run [OF holds_both [OF less(3,4)] ix]) (use b B [of ?m] in \<open>auto simp del: eval_elem.simps(6)\<close>)
  show ?thesis unfolding load_code_def run_notes by (simp add: 1 2 del: run_stmt.simps(5))
qed

lemma mac_step:
  assumes vs: "vars_ok T L (ty, tx) s vs" and t: "ty < T" "tx < T" "k < T" "T * T \<le> 2 ^ 31"
    and a: "m ''sA'' (cell (int T) (int ty) (int k)) = Some u" and b: "m ''sB'' (cell (int T) (int k) (int tx)) = Some v"
  shows "\<exists>ws. run_stmts L (ty, tx) [AddTo ''sum'' (Times (Elem ''sA'' (ix (int T) (Name ''ty'') (Name ''k'')))
      (Elem ''sB'' (ix (int T) (Name ''k'') (Name ''tx''))))] (vs(''k'' \<mapsto> IntV (int k)), m) = Some (ws, m) \<and>
    vars_ok T L (ty, tx) (add_elem L s (mul_elem L u v)) ws"
proof -
  let ?vs = "vs(''k'' \<mapsto> IntV (int k))"
  note w = vars_okD [OF vs]
  have "evals L (ty, tx) ?vs (ix (int T) (Name ''ty'') (Name ''k'')) = Some (cell (int T) (int ty) (int k))"
    "evals L (ty, tx) ?vs (ix (int T) (Name ''k'') (Name ''tx'')) = Some (cell (int T) (int k) (int tx))"
    using t by (intro evals_ix; simp add: w)+
  then show ?thesis using vs by (simp add: a b w vars_ok_def)
qed

lemma mac_run:
  assumes vs: "vars_ok T L (ty, tx) s vs" and t: "ty < T" "tx < T" "T * T \<le> 2 ^ 31"
    and a: "\<And>k. k < T \<Longrightarrow> m ''sA'' (cell (int T) (int ty) (int k)) = Some (ta k)"
    and b: "\<And>k. k < T \<Longrightarrow> m ''sB'' (cell (int T) (int k) (int tx)) = Some (tb k)"
  shows "\<exists>ws. run_stmts L (ty, tx) (mac_code ix ns es (int T) (int T)) (vs, m) = Some (ws, m) \<and>
    vars_ok T L (ty, tx) (fold (\<lambda>k s. add_elem L s (mul_elem L (ta k) (tb k))) [0..<T] s) ws"
proof -
  let ?body = "[AddTo ''sum'' (Times (Elem ''sA'' (ix (int T) (Name ''ty'') (Name ''k'')))
      (Elem ''sB'' (ix (int T) (Name ''k'') (Name ''tx''))))]"
  let ?sum = "\<lambda>n. fold (\<lambda>k s. add_elem L s (mul_elem L (ta k) (tb k))) [0..<n] s"
  define f where "f = (\<lambda>i t. run_stmts L (ty, tx) ?body ((fst t)(''k'' \<mapsto> IntV (int i)), snd t))"
  have "n \<le> T \<Longrightarrow> \<exists>ws. fold_opt f [0..<n] (vs, m) = Some (ws, m) \<and> vars_ok T L (ty, tx) (?sum n) ws" for n
  proof (induction n)
    case (Suc n)
    then obtain ws where ws: "fold_opt f [0..<n] (vs, m) = Some (ws, m)" "vars_ok T L (ty, tx) (?sum n) ws" by auto
    from Suc.prems have "n < T" by simp
    from mac_step [OF ws(2) t(1,2) this t(3) a [OF this] b [OF this]] obtain us where
      "f n (ws, m) = Some (us, m)" "vars_ok T L (ty, tx) (add_elem L (?sum n) (mul_elem L (ta n) (tb n))) us"
      unfolding f_def fst_conv snd_conv by auto
    then show ?case using ws(1) by (simp add: fold_opt_append)
  qed (simp add: vs)
  moreover have "run_stmt L (ty, tx) (Loop ''k'' (Lit (int T)) ?body) (vs, m) = fold_opt f [0..<T] (vs, m)"
  proof -
    have "T * 1 \<le> T * T" using t(1) by (intro mult_le_mono2) simp
    then have "T < 2 ^ 31 \<or> T = 2 ^ 31" using t(3) by linarith
    moreover have "\<not> (2 :: nat) ^ 31 * 2 ^ 31 \<le> 2 ^ 31" by simp
    ultimately have "T < 2 ^ 31" using t(3) by blast
    then show ?thesis by (simp only: run_stmt.simps eval.simps int32_nat option.case nat_int f_def)
  qed
  ultimately show ?thesis
    by (fastforce simp add: mac_code_def run_notes run_notes_end simp del: run_stmt.simps)
qed

end

text \<open>The guarded store, with the activations that the fusion left.\<close>

lemma acts_run:
  "vars_ok T L th s vs \<Longrightarrow> \<exists>ws. run_stmts L th (map Activate acts) (vs, m) = Some (ws, m) \<and>
     vars_ok T L th (fold (activate L) acts s) ws"
proof (induction acts arbitrary: s vs)
  case (Cons a acts)
  then have "vars_ok T L th (activate L a s) (vs(''sum'' \<mapsto> ElemV (activate L a s)))" by (simp add: vars_ok_def)
  from Cons.IH [OF this] obtain ws where
    "run_stmts L th (map Activate acts) (vs(''sum'' \<mapsto> ElemV (activate L a s)), m) = Some (ws, m)"
    "vars_ok T L th (fold (activate L) acts (activate L a s)) ws" by blast
  moreover have "vs ''sum'' = Some (ElemV s)" using Cons.prems by (simp add: vars_ok_def)
  ultimately show ?case by simp
qed simp

definition result_index :: "'e operands \<Rightarrow> nat \<Rightarrow> nat \<Rightarrow> int list" where
  "result_index x r k = [int r * int (n_dim x) + int k]"

lemma result_index_inj:
  "k < n_dim x \<Longrightarrow> k' < n_dim x \<Longrightarrow> result_index x r k = result_index x r' k' \<longleftrightarrow> r = r' \<and> k = k'"
  using linear_inj [of "int k" "int (n_dim x)" "int k'" "int r" "int r'"] by (simp add: result_index_def)

definition final_store :: "'e launch \<Rightarrow> 'e operands \<Rightarrow> string list \<Rightarrow> nat \<Rightarrow> nat \<Rightarrow> 'e \<Rightarrow> 'e arrays \<Rightarrow> 'e arrays" where
  "final_store L x acts row col s m =
     (if row < m_dim x \<and> col < n_dim x
      then m(''C'' := (m ''C'')(result_index x row col \<mapsto> fold (activate L) acts s)) else m)"

lemma store_run:
  assumes vs: "vars_ok T L (ty, tx) s vs" and p: "params_ok T L x"
  defines "row \<equiv> group_y L * T + ty" and "col \<equiv> group_x L * T + tx"
  assumes c: "row < m_dim x \<Longrightarrow> col < n_dim x \<Longrightarrow> m ''C'' (result_index x row col) \<noteq> None"
  shows "\<exists>ws. run_stmts L (ty, tx) (store_code acts) (vs, m) = Some (ws, final_store L x acts row col s m)"
proof -
  note v = vars_okD [OF vs, folded row_def col_def]
  have less: "holds L (ty, tx) vs (Lt (Name ''row'') (Param ''M'')) = Some (row < m_dim x)"
    "holds L (ty, tx) vs (Lt (Name ''col'') (Param ''N'')) = Some (col < n_dim x)"
    using params_eval [OF params_okD(1,2) [OF p], of "(ty, tx)" vs] by (simp_all add: v del: eval.simps(3))
  show ?thesis
  proof (cases "row < m_dim x \<and> col < n_dim x")
    case True
    obtain ws where ws: "run_stmts L (ty, tx) (map Activate acts) (vs, m) = Some (ws, m)"
      "vars_ok T L (ty, tx) (fold (activate L) acts s) ws" using acts_run [OF vs] by blast
    note w = vars_okD [OF ws(2), folded row_def col_def]
    have "row * n_dim x + col < 2 ^ 31"
      by (rule flat_index_less [of row "m_dim x" col "n_dim x"]) (use True p in \<open>simp_all add: params_ok_def dims_ok_def\<close>)
    then have "eval L (ty, tx) ws (Plus (Times (Name ''row'') (Param ''N'')) (Name ''col'')) = Some (int (row * n_dim x + col))"
      by (intro eval_plus eval_times params_eval [OF params_okD(1,2) [OF p]]) (simp_all add: w)
    then have "evals L (ty, tx) ws [Plus (Times (Name ''row'') (Param ''N'')) (Name ''col'')] = Some (result_index x row col)"
      by (simp add: result_index_def del: eval.simps)
    then have st: "store L (ty, tx) ''C'' [Plus (Times (Name ''row'') (Param ''N'')) (Name ''col'')] (Name ''sum'') (ws, m) =
        Some (ws, final_store L x acts row col s m)"
      using True c by (simp add: store_def w write_elem_def final_store_def del: eval.simps eval_list.simps)
    show ?thesis
      using True less by (simp add: store_code_def run_stmts_append ws(1) st del: eval.simps)
  next
    case False
    then show ?thesis
      using less by (auto simp: store_code_def final_store_def simp del: eval.simps)
  qed
qed

section \<open>One block\<close>

text \<open>
  The run \<open>g\<close> is in the state \<open>st\<close> of the algorithm: the shared arrays hold the tiles, the threads of \<open>D\<close>
  have their variables, and memory is \<open>m\<close> outside shared memory.
\<close>

definition block_sim ::
  "(int \<Rightarrow> int \<Rightarrow> int \<Rightarrow> int list) \<Rightarrow> nat \<Rightarrow> 'e launch \<Rightarrow> thread set \<Rightarrow> 'e arrays \<Rightarrow> 'e tiles \<Rightarrow> 'e block_run \<Rightarrow> bool" where
  "block_sim cell T L D m st g \<longleftrightarrow>
     (\<forall>ty < T. \<forall>tx < T. arrays_of g ''sA'' (cell (int T) (int ty) (int tx)) = Some (tile_l st ty tx) \<and>
        arrays_of g ''sB'' (cell (int T) (int ty) (int tx)) = Some (tile_r st ty tx)) \<and>
     (\<forall>(ty, tx) \<in> D. vars_ok T L (ty, tx) (sums st ty tx) (vars_of g (ty, tx))) \<and>
     (\<forall>a. a \<noteq> ''sA'' \<longrightarrow> a \<noteq> ''sB'' \<longrightarrow> arrays_of g a = m a)"

lemma block_simD:
  assumes "block_sim cell T L D m st g"
  shows "ty < T \<Longrightarrow> tx < T \<Longrightarrow> arrays_of g ''sA'' (cell (int T) (int ty) (int tx)) = Some (tile_l st ty tx)"
    and "ty < T \<Longrightarrow> tx < T \<Longrightarrow> arrays_of g ''sB'' (cell (int T) (int ty) (int tx)) = Some (tile_r st ty tx)"
    and "(ty, tx) \<in> D \<Longrightarrow> vars_ok T L (ty, tx) (sums st ty tx) (vars_of g (ty, tx))"
    and "a \<noteq> ''sA'' \<Longrightarrow> a \<noteq> ''sB'' \<Longrightarrow> arrays_of g a = m a"
  using assms unfolding block_sim_def by auto

lemma inputs_ok_cong: "inputs_ok x m \<Longrightarrow> m' ''A'' = m ''A'' \<Longrightarrow> m' ''B'' = m ''B'' \<Longrightarrow> inputs_ok x m'"
  by (simp add: inputs_ok_def)

lemma vars_ok_other:
  "vars_ok T L th s vs \<Longrightarrow> y \<notin> {''tx'', ''ty'', ''row'', ''col'', ''sum''} \<Longrightarrow> vars_ok T L th s (vs(y \<mapsto> v))"
  by (auto simp: vars_ok_def)

lemma phase_index:
  assumes "ph * T < k_dim x" and "0 < T" and "params_ok T L x"
  shows "ph < 2 ^ 31"
proof -
  have "ph \<le> ph * T" using assms(2) by simp
  moreover have "k_dim x + T < 2 ^ 31" using assms(3) by (simp add: params_ok_def dims_ok_def)
  ultimately show ?thesis using assms(1) by linarith
qed

text \<open>Statements that give a thread its variables, or find them there.\<close>

definition prepares :: "nat \<Rightarrow> 'e launch \<Rightarrow> thread set \<Rightarrow> thread set \<Rightarrow> 'e tiles \<Rightarrow> stmt list \<Rightarrow> bool" where
  "prepares T L X D st pre \<longleftrightarrow>
     (\<forall>(ty, tx) \<in> X. \<forall>vs m. ((ty, tx) \<in> D \<longrightarrow> vars_ok T L (ty, tx) (sums st ty tx) vs) \<longrightarrow>
        (\<exists>ws. run_stmts L (ty, tx) pre (vs, m) = Some (ws, m) \<and> vars_ok T L (ty, tx) (sums st ty tx) ws))"

lemma prepares_decls:
  assumes "\<And>ty tx. sums st ty tx = zero_elem L" and "block_ok T (group_y L, group_x L)" and "X \<subseteq> {..<T} \<times> {..<T}"
  shows "prepares T L X D st (decls_code (int T) (int T))"
  unfolding prepares_def
proof clarify
  fix ty tx vs and m :: "'a arrays"
  assume "(ty, tx) \<in> X"
  then have "ty < T" "tx < T" using assms(3) by auto
  from decls_run [OF assms(2) this] show
    "\<exists>ws. run_stmts L (ty, tx) (decls_code (int T) (int T)) (vs, m) = Some (ws, m) \<and> vars_ok T L (ty, tx) (sums st ty tx) ws"
    by (simp only: assms(1))
qed

lemma prepares_none: "X \<subseteq> D \<Longrightarrow> prepares T L X D st []"
  by (auto simp: prepares_def)

lemma prepares_mono:
  assumes pre: "prepares T L X D st pre" and "X' \<subseteq> X" and "X' \<inter> D \<subseteq> D'" and eq: "sums st' = sums st"
  shows "prepares T L X' D' st' pre"
  unfolding prepares_def
proof clarify
  fix ty tx vs m
  assume th: "(ty, tx) \<in> X'" and ok: "(ty, tx) \<in> D' \<longrightarrow> vars_ok T L (ty, tx) (sums st' ty tx) vs"
  then have "(ty, tx) \<in> X" "(ty, tx) \<in> D \<longrightarrow> vars_ok T L (ty, tx) (sums st ty tx) vs"
    using assms(2,3) eq by auto
  then show "\<exists>ws. run_stmts L (ty, tx) pre (vs, m) = Some (ws, m) \<and> vars_ok T L (ty, tx) (sums st' ty tx) ws"
    using pre unfolding prepares_def eq by blast
qed

text \<open>The cells of the result that belong to a block are allocated.\<close>

definition own_results_ok :: "nat \<Rightarrow> 'e launch \<Rightarrow> 'e operands \<Rightarrow> 'e arrays \<Rightarrow> bool" where
  "own_results_ok T L x m \<longleftrightarrow>
     (\<forall>ty < T. \<forall>tx < T. group_y L * T + ty < m_dim x \<longrightarrow> group_x L * T + tx < n_dim x \<longrightarrow>
        m ''C'' (result_index x (group_y L * T + ty) (group_x L * T + tx)) \<noteq> None)"

lemma final_store_dom: "m a js \<noteq> None \<Longrightarrow> final_store L x acts r k s m a js \<noteq> None"
  by (auto simp: final_store_def)

lemma own_results_ok_store: "own_results_ok T L x m \<Longrightarrow> own_results_ok T L x (final_store L x acts r k s m)"
  unfolding own_results_ok_def using final_store_dom by metis

context tile_indexing
begin

lemma cell_eq:
  "i < T \<Longrightarrow> j < T \<Longrightarrow> i' < T \<Longrightarrow> j' < T \<Longrightarrow>
     cell (int T) (int i) (int j) = cell (int T) (int i') (int j') \<longleftrightarrow> i = i' \<and> j = j'"
  by (rule cell_inj)

lemma load_step:
  assumes sim: "block_sim cell T L D m st g" and th: "ty < T" "tx < T" and pre: "prepares T L X D st pre" "(ty, tx) \<in> X"
    and p: "params_ok T L x" and i: "inputs_ok x m" and ph: "ph * T < k_dim x"
  shows "\<exists>h. thread_step L (pre @ DeclInt ''ph'' (Lit (int ph)) # load_code ix ns (int T) (int T)) (ty, tx) g = Some h \<and>
    block_sim cell T L (insert (ty, tx) D) m (load_cell L x T ph (ty, tx) st) h"
proof -
  note S = block_simD [OF sim]
  obtain vs where vs: "run_stmts L (ty, tx) pre (vars_of g (ty, tx), arrays_of g) = Some (vs, arrays_of g)"
    "vars_ok T L (ty, tx) (sums st ty tx) vs"
    using pre S(3) unfolding prepares_def by blast
  have ok: "vars_ok T L (ty, tx) (sums st ty tx) (vs(''ph'' \<mapsto> IntV (int ph)))" using vs(2) by (rule vars_ok_other) simp
  have i': "inputs_ok x (arrays_of g)" using i S(4) [of "''A''"] S(4) [of "''B''"] by (simp add: inputs_ok_def)
  note run = load_run [OF ok _ th ph p i', where ns = ns]
  have phi: "int32 (Some (int ph)) = Some (int ph)"
    by (rule int32_nat) (rule phase_index [OF ph _ p], use th in simp)
  have "run_stmts L (ty, tx) (DeclInt ''ph'' (Lit (int ph)) # load_code ix ns (int T) (int T)) (vs, arrays_of g) =
      run_stmts L (ty, tx) (load_code ix ns (int T) (int T)) (vs(''ph'' \<mapsto> IntV (int ph)), arrays_of g)" by (simp add: phi)
  then show ?thesis
    using run S(1,2) [OF th] th
    by (auto simp: thread_step_def run_stmts_append vs(1) block_sim_def cell_eq S(1,2,3,4) ok)
qed

lemma mac_step_block:
  assumes sim: "block_sim cell T L D m st g" and th: "ty < T" "tx < T" "(ty, tx) \<in> D" and T: "T * T \<le> 2 ^ 31"
  shows "\<exists>h. thread_step L (mac_code ix ns es (int T) (int T)) (ty, tx) g = Some h \<and>
    block_sim cell T L D m (mac_cell L T (ty, tx) st) h"
proof -
  note S = block_simD [OF sim]
  have "\<exists>ws. run_stmts L (ty, tx) (mac_code ix ns es (int T) (int T)) (vars_of g (ty, tx), arrays_of g) =
      Some (ws, arrays_of g) \<and>
      vars_ok T L (ty, tx) (sums (mac_cell L T (ty, tx) st) ty tx) ws"
    using mac_run [where ta = "tile_l st ty" and tb = "\<lambda>k. tile_r st k tx" and ns = ns and es = es, OF S(3) [OF th(3)] th(1,2) T] S(1,2) th
    by simp
  then obtain ws where ws: "run_stmts L (ty, tx) (mac_code ix ns es (int T) (int T)) (vars_of g (ty, tx), arrays_of g) =
      Some (ws, arrays_of g)"
    "vars_ok T L (ty, tx) (sums (mac_cell L T (ty, tx) st) ty tx) ws" by blast
  then show ?thesis
    by (auto simp: thread_step_def block_sim_def S)
qed

lemma store_step:
  assumes sim: "block_sim cell T L D m st g" and th: "ty < T" "tx < T" and pre: "prepares T L X D st pre" "(ty, tx) \<in> X"
    and p: "params_ok T L x" and c: "own_results_ok T L x m"
  shows "\<exists>h. thread_step L (pre @ store_code acts) (ty, tx) g = Some h \<and>
    block_sim cell T L (D - {(ty, tx)})
      (final_store L x acts (group_y L * T + ty) (group_x L * T + tx) (sums st ty tx) m) st h"
proof -
  note S = block_simD [OF sim]
  obtain vs where vs: "run_stmts L (ty, tx) pre (vars_of g (ty, tx), arrays_of g) = Some (vs, arrays_of g)"
    "vars_ok T L (ty, tx) (sums st ty tx) vs"
    using pre S(3) unfolding prepares_def by blast
  have C: "arrays_of g ''C'' = m ''C''" by (rule S(4)) simp_all
  from store_run [OF vs(2) p, of "arrays_of g" acts] c th obtain ws where
    "run_stmts L (ty, tx) (store_code acts) (vs, arrays_of g) =
      Some (ws, final_store L x acts (group_y L * T + ty) (group_x L * T + tx) (sums st ty tx) (arrays_of g))"
    unfolding C own_results_ok_def by blast
  then show ?thesis
    by (auto simp: thread_step_def run_stmts_append vs(1) block_sim_def final_store_def C S)
qed

end

section \<open>Segments\<close>

lemma fold_opt_sim:
  assumes "\<And>x s t. x \<in> set xs \<Longrightarrow> R s t \<Longrightarrow> \<exists>u. f x t = Some u \<and> R (F x s) u" and "R s t"
  shows "\<exists>u. fold_opt f xs t = Some u \<and> R (fold F xs s) u"
  using assms
proof (induction xs arbitrary: s t)
  case (Cons x xs)
  then obtain u where "f x t = Some u" "R (F x s) u" by (meson list.set_intros(1))
  with Cons.IH [of "F x s" u] Cons.prems(1) show ?case by simp
qed simp

context tile_indexing
begin

lemma load_segment:
  assumes sim: "block_sim cell T L D m st g" and ths: "set ths = {..<T} \<times> {..<T}"
    and pre: "prepares T L (set ths) D st pre" and p: "params_ok T L x" and i: "inputs_ok x m" and ph: "ph * T < k_dim x"
    and D: "D \<subseteq> {..<T} \<times> {..<T}"
  shows "\<exists>h. fold_opt (thread_step L (pre @ DeclInt ''ph'' (Lit (int ph)) # load_code ix ns (int T) (int T))) ths g = Some h \<and>
    block_sim cell T L ({..<T} \<times> {..<T}) m (fold (load_cell L x T ph) ths st) h"
proof -
  let ?f = "thread_step L (pre @ DeclInt ''ph'' (Lit (int ph)) # load_code ix ns (int T) (int T))"
  let ?F = "\<lambda>th (E, s). (insert th E, load_cell L x T ph th s)"
  let ?R = "\<lambda>(E, s) t. block_sim cell T L E m s t \<and> D \<subseteq> E \<and> sums s = sums st"
  have F: "fold ?F xs (E, s) = (E \<union> set xs, fold (load_cell L x T ph) xs s)" for xs E s
    by (induction xs arbitrary: E s) auto
  have "\<exists>u. fold_opt ?f ths g = Some u \<and> ?R (fold ?F ths (D, st)) u"
  proof (rule fold_opt_sim)
    fix th s t assume "th \<in> set ths" and R: "?R s t"
    then obtain ty tx E u where th: "th = (ty, tx)" "ty < T" "tx < T" and s: "s = (E, u)"
      using ths by (cases s) auto
    from R s have "block_sim cell T L E m u t" "prepares T L (set ths) E u pre"
      using prepares_mono [OF pre, of "set ths" E u] by auto
    from load_step [OF this(1) th(2,3) this(2) _ p i ph, of ns] R s th \<open>th \<in> set ths\<close> show "\<exists>u. ?f th t = Some u \<and> ?R (?F th s) u"
      by auto
  qed (use sim in simp)
  then show ?thesis using D ths unfolding F by (auto simp: Un_absorb1)
qed

lemma mac_segment:
  assumes sim: "block_sim cell T L ({..<T} \<times> {..<T}) m st g" and ths: "set ths = {..<T} \<times> {..<T}" and T: "T * T \<le> 2 ^ 31"
  shows "\<exists>h. fold_opt (thread_step L (mac_code ix ns es (int T) (int T))) ths g = Some h \<and>
    block_sim cell T L ({..<T} \<times> {..<T}) m (fold (mac_cell L T) ths st) h"
proof (rule fold_opt_sim [where R = "block_sim cell T L ({..<T} \<times> {..<T}) m", OF _ sim])
  fix th s t assume "th \<in> set ths" and R: "block_sim cell T L ({..<T} \<times> {..<T}) m s t"
  then obtain ty tx where th: "th = (ty, tx)" "ty < T" "tx < T" using ths by auto
  from mac_step_block [OF R th(2,3) _ T] th show "\<exists>u. thread_step L (mac_code ix ns es (int T) (int T)) th t = Some u \<and>
    block_sim cell T L ({..<T} \<times> {..<T}) m (mac_cell L T th s) u" by auto
qed

end

text \<open>The stores of a list of threads, in memory.\<close>

definition store_all ::
  "nat \<Rightarrow> 'e launch \<Rightarrow> 'e operands \<Rightarrow> string list \<Rightarrow> 'e tiles \<Rightarrow> thread list \<Rightarrow> 'e arrays \<Rightarrow> 'e arrays" where
  "store_all T L x acts st ths m =
     fold (\<lambda>(ty, tx). final_store L x acts (group_y L * T + ty) (group_x L * T + tx) (sums st ty tx)) ths m"

lemma store_all_cell:
  assumes row: "group_y L * T + ty < m_dim x" and col: "group_x L * T + tx < n_dim x"
  shows "(ty, tx) \<in> set ths \<or> m ''C'' (result_index x (group_y L * T + ty) (group_x L * T + tx)) =
      Some (fold (activate L) acts (sums st ty tx)) \<Longrightarrow>
    store_all T L x acts st ths m ''C'' (result_index x (group_y L * T + ty) (group_x L * T + tx)) =
      Some (fold (activate L) acts (sums st ty tx))"
proof (induction ths arbitrary: m)
  case (Cons th ths)
  obtain a b where th: "th = (a, b)" by (cases th)
  let ?m = "final_store L x acts (group_y L * T + a) (group_x L * T + b) (sums st a b) m"
  have "(ty, tx) \<in> set ths \<or> ?m ''C'' (result_index x (group_y L * T + ty) (group_x L * T + tx)) =
      Some (fold (activate L) acts (sums st ty tx))"
    using Cons.prems row col th
      result_index_inj [of "group_x L * T + tx" x "group_x L * T + b" "group_y L * T + ty" "group_y L * T + a"]
    by (auto simp: final_store_def)
  from Cons.IH [where m = ?m, OF this] show ?case by (simp add: store_all_def th)
qed (simp add: store_all_def)

context tile_indexing
begin

lemma store_segment:
  assumes "block_sim cell T L D m st g" and "set ths \<subseteq> {..<T} \<times> {..<T}" "distinct ths"
    and "prepares T L (set ths) D st pre" and p: "params_ok T L x" and "own_results_ok T L x m"
  shows "\<exists>h. fold_opt (thread_step L (pre @ store_code acts)) ths g = Some h \<and>
    (\<forall>a. a \<noteq> ''sA'' \<longrightarrow> a \<noteq> ''sB'' \<longrightarrow> arrays_of h a = store_all T L x acts st ths m a)"
  using assms(1-4,6)
proof (induction ths arbitrary: D m g)
  case Nil
  then show ?case by (auto simp: store_all_def block_simD)
next
  case (Cons th ths)
  obtain ty tx where th: "th = (ty, tx)" by (cases th)
  let ?m = "final_store L x acts (group_y L * T + ty) (group_x L * T + tx) (sums st ty tx) m"
  have "ty < T" "tx < T" using Cons.prems(2) th by auto
  from store_step [OF Cons.prems(1) this Cons.prems(4) _ p Cons.prems(5), of acts] th obtain h where
    h: "thread_step L (pre @ store_code acts) (ty, tx) g = Some h" "block_sim cell T L (D - {(ty, tx)}) ?m st h"
    by auto
  have "prepares T L (set ths) (D - {(ty, tx)}) st pre"
    using Cons.prems(3) th by (intro prepares_mono [OF Cons.prems(4)]) auto
  with Cons.IH [OF h(2)] Cons.prems(2,3) own_results_ok_store [OF Cons.prems(5)] h(1) show ?case
    by (simp add: th store_all_def)
qed

end

section \<open>The whole kernel\<close>

lemma flat_code:
  "s \<in> set (decls_code m n) \<Longrightarrow> \<not> has_barrier s"
  "s \<in> set (load_code ix ns n k) \<Longrightarrow> \<not> has_barrier s"
  "s \<in> set (mac_code ix ns es n k) \<Longrightarrow> \<not> has_barrier s"
  "s \<in> set (store_code acts) \<Longrightarrow> \<not> has_barrier s"
  using has_barriers_map [of Activate acts]
  by (auto simp: decls_code_def load_code_def mac_code_def store_code_def has_barriers_append)

lemma no_barrier:
  "Barrier \<notin> set (decls_code m n)" "Barrier \<notin> set (load_code ix ns n k)"
  "Barrier \<notin> set (mac_code ix ns es n k)" "Barrier \<notin> set (store_code acts)"
  using flat_code by fastforce+

definition phase_code :: "layout \<Rightarrow> nat \<Rightarrow> nat \<Rightarrow> stmt list" where
  "phase_code y T i =
     (DeclInt ''ph'' (Lit (int i)) # load_code (indexing_of y) (load_notes y) (int T) (int T)) @ Barrier #
     mac_code (indexing_of y) (mac_notes y) (end_notes y) (int T) (int T) @ [Barrier]"

lemma phase_count:
  assumes "0 < T"
  shows "(int K + int T - 1) sdiv int T = int ((K + T - 1) div T)"
proof -
  have "int K + int T - 1 = int (K + T - 1)" using assms by simp
  then show ?thesis using assms by (simp only: signed_divide_int_def) (simp add: zdiv_int sgn_if)
qed

lemma unrolls_matmul:
  assumes "args_ok L x" and "dims_ok T x" and "0 < T"
  shows "unrolls L (matmul_code y acts (int T) (int T) (int T)) =
    Some (decls_code (int T) (int T) @
      concat (map (phase_code y T) [0..<(k_dim x + T - 1) div T]) @ store_code acts)"
proof -
  let ?ld = "load_code (indexing_of y) (load_notes y) (int T) (int T)"
  let ?mac = "mac_code (indexing_of y) (mac_notes y) (end_notes y) (int T) (int T)"
  let ?body = "?ld @ [Barrier] @ ?mac @ [Barrier]"
  have body: "unrolls L ?body = Some ?body" using flat_code by (intro unrolls_flat) auto
  have flat: "unrolls L (decls_code (int T) (int T)) = Some (decls_code (int T) (int T))"
    "unrolls L (store_code acts) = Some (store_code acts)" using flat_code by (auto intro!: unrolls_flat)
  have K: "k_dim x + T < 2 ^ 31" using assms(2) by (simp add: dims_ok_def)
  have e: "int (k_dim x) + int T - 1 = int (k_dim x + T - 1)" using assms(3) by simp
  have "k_dim x + T - 1 < 2 ^ 31" using K by linarith
  then have "int32 (Some (int (k_dim x) + int T - 1)) = Some (int (k_dim x) + int T - 1)"
    unfolding e by (rule int32_nat)
  moreover have "int32 (Some (int (k_dim x) + int T)) = Some (int (k_dim x) + int T)"
    using int32_nat [OF K] by simp
  moreover have P: "int32 (Some (int ((k_dim x + T - 1) div T))) = Some (int ((k_dim x + T - 1) div T))"
    using K div_le_dividend [of "k_dim x + T - 1" T] by (intro int32_nat) linarith
  ultimately have "int32 (eval L (0, 0) Map.empty (Quot (Minus (Plus (Param ''K'') (Lit (int T))) (Lit 1)) (Lit (int T))))
      = Some (int ((k_dim x + T - 1) div T))"
    using assms(3) phase_count [OF assms(3), of "k_dim x"] params_eval(3) [OF assms(1,2), of "(0, 0)" Map.empty]
    by (simp del: eval.simps(3))
  moreover have "has_barriers ?body" by (simp add: has_barriers_append)
  ultimately have "unroll L (Loop ''ph'' (Quot (Minus (Plus (Param ''K'') (Lit (int T))) (Lit 1)) (Lit (int T))) ?body) =
      Some (concat (map (phase_code y T) [0..<(k_dim x + T - 1) div T]))"
    using body by (simp add: phase_code_def [abs_def])
  then show ?thesis
    by (simp add: matmul_code_def unrolls_append flat option.map_comp comp_def del: unroll.simps)
qed

lemma segments_phases:
  assumes "Barrier \<notin> set pre"
  shows "segments (pre @ concat (map (phase_code y T) [i..<i + n]) @ store_code acts) =
    (if n = 0 then [pre @ store_code acts]
     else (pre @ DeclInt ''ph'' (Lit (int i)) # load_code (indexing_of y) (load_notes y) (int T) (int T)) #
       mac_code (indexing_of y) (mac_notes y) (end_notes y) (int T) (int T) #
       segments (concat (map (phase_code y T) [Suc i..<i + n]) @ store_code acts))"
proof (cases n)
  case 0
  then show ?thesis using segments_single [of "pre @ store_code acts"] assms no_barrier(4) [of acts] by simp
next
  case (Suc k)
  let ?A = "pre @ DeclInt ''ph'' (Lit (int i)) # load_code (indexing_of y) (load_notes y) (int T) (int T)"
  let ?M = "mac_code (indexing_of y) (mac_notes y) (end_notes y) (int T) (int T)"
  let ?R = "concat (map (phase_code y T) [Suc i..<i + n]) @ store_code acts"
  have "[i..<i + n] = i # [Suc i..<i + n]" using Suc by (simp add: upt_conv_Cons)
  then have "pre @ concat (map (phase_code y T) [i..<i + n]) @ store_code acts = ?A @ Barrier # (?M @ Barrier # ?R)"
    by (simp only: list.map concat.simps phase_code_def append_assoc append_Cons append_Nil)
  moreover have "Barrier \<notin> set ?A" using assms no_barrier by simp
  moreover have "n \<noteq> 0" using Suc by simp
  ultimately show ?thesis using no_barrier(3) by (simp only: segments_append if_False not_False_eq_True)
qed

lemma phase_sums:
  assumes xs: "set xs = {..<T} \<times> {..<T}" "distinct xs" and t: "ty < T" "tx < T"
    and s: "sums st ty tx = dot L x (group_y L * T + ty) (group_x L * T + tx) (i * T)"
  shows "sums (fold (mac_cell L T) xs (fold (load_cell L x T i) xs st)) ty tx =
    dot L x (group_y L * T + ty) (group_x L * T + tx) (Suc i * T)"
proof -
  have e: "Suc i * T = i * T + T" by simp
  have k: "(ty, k) \<in> set xs" "(k, tx) \<in> set xs" if "k < T" for k using xs(1) t that by simp_all
  have "(ty, tx) \<in> set xs" using xs(1) t by simp
  then show ?thesis
    unfolding e dot_add mac_all_cells [OF xs(2)]
    by (auto simp: s load_all_cells k intro!: fold_cong)
qed

lemma phase_in_depth:
  fixes i T K :: nat
  assumes "Suc i \<le> (K + T - 1) div T"
  shows "i * T < K"
proof -
  have "Suc i * T \<le> (K + T - 1) div T * T" using assms by (rule mult_le_mono1)
  also have "\<dots> \<le> K + T - 1" by simp
  finally have "i * T + T \<le> K + T - 1" by simp
  then show ?thesis using assms by (cases "T = 0") simp_all
qed

text \<open>The shared arrays of a block have an element for every cell of their tiles.\<close>

definition shared_ok :: "(int \<Rightarrow> int \<Rightarrow> int \<Rightarrow> int list) \<Rightarrow> nat \<Rightarrow> (string \<rightharpoonup> (int list \<rightharpoonup> 'e)) \<Rightarrow> bool" where
  "shared_ok cell T sh \<longleftrightarrow>
     (\<forall>a. a \<notin> {''sA'', ''sB''} \<longrightarrow> sh a = None) \<and> sh ''sA'' \<noteq> None \<and> sh ''sB'' \<noteq> None \<and>
     (\<forall>i < T. \<forall>j < T. the (sh ''sA'') (cell (int T) (int i) (int j)) \<noteq> None \<and>
        the (sh ''sB'') (cell (int T) (int i) (int j)) \<noteq> None)"

definition shared_tile ::
  "(int \<Rightarrow> int \<Rightarrow> int \<Rightarrow> int list) \<Rightarrow> nat \<Rightarrow> (string \<rightharpoonup> (int list \<rightharpoonup> 'e)) \<Rightarrow> string \<Rightarrow> nat \<Rightarrow> nat \<Rightarrow> 'e" where
  "shared_tile cell T sh a = (\<lambda>i j. the (the (sh a) (cell (int T) (int i) (int j))))"

text \<open>The tiles at the start hold anything.\<close>

definition first_tiles ::
  "'e launch \<Rightarrow> (int \<Rightarrow> int \<Rightarrow> int \<Rightarrow> int list) \<Rightarrow> nat \<Rightarrow> (string \<rightharpoonup> (int list \<rightharpoonup> 'e)) \<Rightarrow> 'e tiles" where
  "first_tiles L cell T sh =
     \<lparr>tile_l = shared_tile cell T sh ''sA'', tile_r = shared_tile cell T sh ''sB'', sums = (\<lambda>ty tx. zero_elem L)\<rparr>"

context tile_indexing
begin

lemma phases_run:
  assumes xs: "set xs = {..<T} \<times> {..<T}" "distinct xs" and p: "params_ok T L x" and y: "indexing_of y = ix"
    and "inputs_ok x m" and "own_results_ok T L x m"
    and "block_sim cell T L D m st g" and "prepares T L ({..<T} \<times> {..<T}) D st pre"
    and "D \<subseteq> {..<T} \<times> {..<T}" and "Barrier \<notin> set pre"
    and "\<And>ty tx. ty < T \<Longrightarrow> tx < T \<Longrightarrow> sums st ty tx = dot L x (group_y L * T + ty) (group_x L * T + tx) (i * T)"
    and "i + n \<le> (k_dim x + T - 1) div T"
  shows "\<exists>h st'. run_segments L (\<lambda>i. xs) j (segments (pre @ concat (map (phase_code y T) [i..<i + n]) @ store_code acts)) g = Some h \<and>
    (\<forall>ty < T. \<forall>tx < T. sums st' ty tx = dot L x (group_y L * T + ty) (group_x L * T + tx) ((i + n) * T)) \<and>
    (\<forall>a. a \<noteq> ''sA'' \<longrightarrow> a \<noteq> ''sB'' \<longrightarrow> arrays_of h a = store_all T L x acts st' xs m a)"
  using assms(5-)
proof (induction n arbitrary: i j D st g pre)
  case 0
  from store_segment [OF "0.prems"(3) _ xs(2) _ p "0.prems"(2), where pre = pre and acts = acts] "0.prems"(4) obtain h where
    "fold_opt (thread_step L (pre @ store_code acts)) xs g = Some h"
    "\<forall>a. a \<noteq> ''sA'' \<longrightarrow> a \<noteq> ''sB'' \<longrightarrow> arrays_of h a = store_all T L x acts st xs m a"
    unfolding xs by blast
  then show ?case using segments_single [of "pre @ store_code acts"] "0.prems"(6,7) no_barrier(4) by fastforce
next
  case (Suc n)
  let ?B = "{..<T} \<times> {..<T}"
  let ?A = "pre @ DeclInt ''ph'' (Lit (int i)) # load_code (indexing_of y) (load_notes y) (int T) (int T)"
  let ?M = "mac_code (indexing_of y) (mac_notes y) (end_notes y) (int T) (int T)"
  let ?st = "fold (load_cell L x T i) xs st"
  let ?st' = "fold (mac_cell L T) xs ?st"
  let ?R = "concat (map (phase_code y T) [Suc i..<Suc i + n]) @ store_code acts"
  have ph: "i * T < k_dim x" by (rule phase_in_depth) (use Suc.prems(8) in simp)
  have T: "T * T \<le> 2 ^ 31" using p by (simp add: params_ok_def dims_ok_def)
  obtain h where h: "fold_opt (thread_step L ?A) xs g = Some h" "block_sim cell T L ?B m ?st h"
    using load_segment [OF Suc.prems(3) xs(1) _ p Suc.prems(1) ph Suc.prems(5), where pre = pre and ns = "load_notes y"] Suc.prems(4)
    unfolding xs y by blast
  obtain k where k: "fold_opt (thread_step L ?M) xs h = Some k" "block_sim cell T L ?B m ?st' k"
    using mac_segment [OF h(2) xs(1) T, where ns = "mac_notes y" and es = "end_notes y"] unfolding y by blast
  have segs: "segments (pre @ concat (map (phase_code y T) [i..<i + Suc n]) @ store_code acts) =
      ?A # ?M # segments ([] @ ?R)"
    using segments_phases [OF Suc.prems(6), of y T i "Suc n" acts] by simp
  have sums': "sums ?st' ty tx = dot L x (group_y L * T + ty) (group_x L * T + tx) (Suc i * T)" if "ty < T" "tx < T" for ty tx
    by (rule phase_sums [OF xs that Suc.prems(7) [OF that]])
  have "prepares T L ?B ?B ?st' []" by (rule prepares_none) simp
  from Suc.IH [OF Suc.prems(1,2) k(2) this _ _ sums', of "Suc (Suc j)"] Suc.prems(8) obtain r st2 where
    r: "run_segments L (\<lambda>i. xs) (Suc (Suc j)) (segments ([] @ ?R)) k = Some r"
    "\<forall>ty < T. \<forall>tx < T. sums st2 ty tx = dot L x (group_y L * T + ty) (group_x L * T + tx) ((Suc i + n) * T)"
    "\<forall>a. a \<noteq> ''sA'' \<longrightarrow> a \<noteq> ''sB'' \<longrightarrow> arrays_of r a = store_all T L x acts st2 xs m a" by auto
  have "run_segments L (\<lambda>i. xs) j (?A # ?M # segments ([] @ ?R)) g = Some r"
    using h(1) k(1) r(1) by simp
  moreover have "i + Suc n = Suc i + n" by simp
  ultimately show ?case using r(2,3) unfolding segs by metis
qed

lemma block_sim_start:
  assumes sh: "shared_ok cell T sh"
  shows "block_sim cell T L {} m (first_tiles L cell T sh)
    \<lparr>vars_of = (\<lambda>th. Map.empty), arrays_of = (\<lambda>a. case sh a of None \<Rightarrow> m a | Some s \<Rightarrow> s)\<rparr>"
proof -
  obtain sa sb where ab: "sh ''sA'' = Some sa" "sh ''sB'' = Some sb" using sh by (auto simp: shared_ok_def)
  have "sa (cell (int T) (int i) (int j)) \<noteq> None" "sb (cell (int T) (int i) (int j)) \<noteq> None" if "i < T" "j < T" for i j
    using sh that by (simp_all add: shared_ok_def ab)
  moreover have "sh a = None" if "a \<noteq> ''sA''" "a \<noteq> ''sB''" for a using sh that by (simp add: shared_ok_def)
  ultimately show ?thesis by (simp add: block_sim_def shared_tile_def first_tiles_def ab)
qed

text \<open>What a block leaves in its cells of the result.\<close>

lemma code_run:
  assumes T: "0 < T" and xs: "set xs = {..<T} \<times> {..<T}" "distinct xs" and p: "params_ok T L x" and y: "indexing_of y = ix"
    and i: "inputs_ok x m" and r: "own_results_ok T L x m" and sh: "shared_ok cell T sh"
  shows "\<exists>h. run_code L (\<lambda>i. xs) (matmul_code y acts (int T) (int T) (int T))
      \<lparr>vars_of = (\<lambda>th. Map.empty), arrays_of = (\<lambda>a. case sh a of None \<Rightarrow> m a | Some s \<Rightarrow> s)\<rparr> = Some h \<and>
    (\<forall>ty < T. \<forall>tx < T. group_y L * T + ty < m_dim x \<longrightarrow> group_x L * T + tx < n_dim x \<longrightarrow>
       arrays_of h ''C'' (result_index x (group_y L * T + ty) (group_x L * T + tx)) =
         Some (fold (activate L) acts (dot L x (group_y L * T + ty) (group_x L * T + tx) ((k_dim x + T - 1) div T * T))))"
proof -
  let ?g = "\<lparr>vars_of = (\<lambda>th. Map.empty), arrays_of = (\<lambda>a. case sh a of None \<Rightarrow> m a | Some s \<Rightarrow> s)\<rparr>"
  let ?P = "(k_dim x + T - 1) div T"
  have pre: "prepares T L ({..<T} \<times> {..<T}) {} (first_tiles L cell T sh) (decls_code (int T) (int T))"
    by (rule prepares_decls) (use p in \<open>simp_all add: first_tiles_def params_ok_def\<close>)
  have start: "sums (first_tiles L cell T sh) ty tx = dot L x (group_y L * T + ty) (group_x L * T + tx) (0 * T)" for ty tx
    by (simp add: first_tiles_def dot_def)
  from phases_run [OF xs p y i r block_sim_start [OF sh] pre _ no_barrier(1) start, where j = 0 and n = ?P and acts = acts] obtain h st where
    h: "run_segments L (\<lambda>i. xs) 0 (segments (decls_code (int T) (int T) @
        concat (map (phase_code y T) [0..<?P]) @ store_code acts)) ?g = Some h"
    "\<forall>ty < T. \<forall>tx < T. sums st ty tx = dot L x (group_y L * T + ty) (group_x L * T + tx) (?P * T)"
    "\<forall>a. a \<noteq> ''sA'' \<longrightarrow> a \<noteq> ''sB'' \<longrightarrow> arrays_of h a = store_all T L x acts st xs m a"
    by auto
  have "run_code L (\<lambda>i. xs) (matmul_code y acts (int T) (int T) (int T)) ?g = Some h"
    using h(1) unrolls_matmul [OF params_okD(1,2) [OF p] T, of y acts] by (simp add: run_code_def)
  moreover have "arrays_of h ''C'' (result_index x (group_y L * T + ty) (group_x L * T + tx)) =
      Some (fold (activate L) acts (dot L x (group_y L * T + ty) (group_x L * T + tx) (?P * T)))"
    if t: "ty < T" "tx < T" "group_y L * T + ty < m_dim x" "group_x L * T + tx < n_dim x" for ty tx
  proof -
    have "(ty, tx) \<in> set xs" using t(1,2) xs(1) by simp
    then have "store_all T L x acts st xs m ''C'' (result_index x (group_y L * T + ty) (group_x L * T + tx)) =
        Some (fold (activate L) acts (sums st ty tx))"
      by (intro store_all_cell [OF t(3,4)] disjI1)
    then show ?thesis using h(2,3) t(1,2) by simp
  qed
  ultimately show ?thesis by blast
qed

end

end
