(* ===== verification/Matmul_Threads.thy ===== *)
theory Matmul_Threads
  imports Matmul_Run Grid_Steps
begin

text \<open>
  The emitted matrix kernels on a grid, with all interleavings of the threads of all blocks. Their segments
  have no races: a thread stores to its own cell of each tile and to its own cell of the result, and what it
  reads is not written by others before the next barrier. Blocks own different parts of the result. So the
  runs of \<open>Matmul_Run\<close>, block by block and thread by thread, stand for all.
\<close>

section \<open>Segments without races\<close>

lemma prepares_run:
  assumes "block_sim cell T L D m st g" and "prepares T L X D st pre" and "(ty, tx) \<in> X"
  shows "\<exists>vs. run_stmts L (ty, tx) pre (vars_of g (ty, tx), mem) = Some (vs, mem) \<and> vars_ok T L (ty, tx) (sums st ty tx) vs"
  using assms block_simD(3) [OF assms(1)] unfolding prepares_def by blast

lemma stores_in_code:
  "list_all (stores_in {''sA'', ''sB''}) (load_code ix ns n k)" "list_all (stores_in {}) (mac_code ix ns es n k)"
  "list_all (stores_in {''C''}) (store_code acts)" "list_all (stores_in W) (decls_code n k)"
  by (auto simp: load_code_def mac_code_def store_code_def decls_code_def list_all_iff)

text \<open>The cells that a thread stores to.\<close>

definition tile_owner ::
  "(int \<Rightarrow> int \<Rightarrow> int \<Rightarrow> int list) \<Rightarrow> nat \<Rightarrow> thread \<Rightarrow> string \<Rightarrow> int list set" where
  "tile_owner cell T th a = {cell (int T) (int (fst th)) (int (snd th))}"

definition result_owner :: "nat \<Rightarrow> 'e launch \<Rightarrow> 'e operands \<Rightarrow> thread \<Rightarrow> string \<Rightarrow> int list set" where
  "result_owner T L x th a =
     (if group_y L * T + fst th < m_dim x \<and> group_x L * T + snd th < n_dim x
      then {result_index x (group_y L * T + fst th) (group_x L * T + snd th)} else {})"

context tile_indexing
begin

lemma load_race_free:
  assumes sim: "block_sim cell T L D m st g" and ths: "ths = {..<T} \<times> {..<T}"
    and pre: "prepares T L ths D st pre" and stores: "\<And>W. list_all (stores_in W) pre"
    and p: "params_ok T L x" and i: "inputs_ok x m" and ph: "ph * T < k_dim x"
  shows "race_free L {''sA'', ''sB''} (tile_owner cell T) ths
    (pre @ DeclInt ''ph'' (Lit (int ph)) # load_code ix ns (int T) (int T)) g"
  unfolding race_free_def
proof (intro conjI ballI impI)
  show "list_all (stores_in {''sA'', ''sB''}) (pre @ DeclInt ''ph'' (Lit (int ph)) # load_code ix ns (int T) (int T))"
    using stores stores_in_code(1) by simp
next
  fix th th' :: thread and a assume "th \<in> ths" "th' \<in> ths" "th \<noteq> th'"
  then show "tile_owner cell T th a \<inter> tile_owner cell T th' a = {}"
    unfolding ths tile_owner_def by (auto simp: cell_eq)
next
  fix th :: thread assume th: "th \<in> ths"
  obtain ty tx where t: "th = (ty, tx)" "ty < T" "tx < T" using th ths by auto
  let ?m = "own_view {''sA'', ''sB''} (tile_owner cell T (ty, tx)) (arrays_of g)"
  note S = block_simD [OF sim]
  obtain vs where vs: "run_stmts L (ty, tx) pre (vars_of g (ty, tx), ?m) = Some (vs, ?m)"
    "vars_ok T L (ty, tx) (sums st ty tx) vs"
    using prepares_run [OF sim pre] th t(1) by blast
  have ok: "vars_ok T L (ty, tx) (sums st ty tx) (vs(''ph'' \<mapsto> IntV (int ph)))" using vs(2) by (rule vars_ok_other) simp
  have i': "inputs_ok x ?m"
    using i S(4) [of "''A''"] S(4) [of "''B''"] by (simp add: inputs_ok_def view_other)
  have own: "?m ''sA'' (cell (int T) (int ty) (int tx)) \<noteq> None" "?m ''sB'' (cell (int T) (int ty) (int tx)) \<noteq> None"
    using S(1,2) [OF t(2,3)] by (simp_all add: view_own tile_owner_def)
  have phi: "int32 (Some (int ph)) = Some (int ph)" by (rule int32_nat) (rule phase_index [OF ph _ p], use t in simp)
  from load_run [OF ok _ t(2,3) ph p i' own, of ns]
  show "run_stmts L th (pre @ DeclInt ''ph'' (Lit (int ph)) # load_code ix ns (int T) (int T))
      (vars_of g th, own_view {''sA'', ''sB''} (tile_owner cell T th) (arrays_of g)) \<noteq> None"
    unfolding t(1) run_stmts_append vs(1) by (simp add: phi)
qed

lemma mac_race_free:
  assumes sim: "block_sim cell T L ths m st g" and ths: "ths = {..<T} \<times> {..<T}" and T: "T * T \<le> 2 ^ 31"
  shows "race_free L {} own ths (mac_code ix ns es (int T) (int T)) g"
  unfolding race_free_def
proof (intro conjI ballI impI)
  fix th :: thread assume th: "th \<in> ths"
  then obtain ty tx where t: "th = (ty, tx)" "ty < T" "tx < T" using ths by auto
  have "own_view {} (own th) (arrays_of g) = arrays_of g" by (simp add: own_view_def)
  then show "run_stmts L th (mac_code ix ns es (int T) (int T)) (vars_of g th, own_view {} (own th) (arrays_of g)) \<noteq> None"
    using mac_step_block [OF sim t(2,3) _ T, of ns es] th t(1) by (auto simp: thread_step_def)
qed (simp_all add: stores_in_code)

lemma store_race_free:
  assumes sim: "block_sim cell T L D m st g" and pre: "prepares T L ths D st pre"
    and stores: "\<And>W. list_all (stores_in W) pre" and p: "params_ok T L x" and r: "own_results_ok T L x m"
    and ths: "ths \<subseteq> {..<T} \<times> {..<T}"
  shows "race_free L {''C''} (result_owner T L x) ths (pre @ store_code acts) g"
  unfolding race_free_def
proof (intro conjI ballI impI)
  show "list_all (stores_in {''C''}) (pre @ store_code acts)" using stores stores_in_code(3) by simp
next
  fix th th' :: thread and a assume "th \<noteq> th'"
  then show "result_owner T L x th a \<inter> result_owner T L x th' a = {}"
    using result_index_inj [of "group_x L * T + snd th" x "group_x L * T + snd th'"
        "group_y L * T + fst th" "group_y L * T + fst th'"]
    by (auto simp: result_owner_def prod_eq_iff)
next
  fix th :: thread assume th: "th \<in> ths"
  obtain ty tx where t: "th = (ty, tx)" "ty < T" "tx < T" using th ths by auto
  let ?m = "own_view {''C''} (result_owner T L x (ty, tx)) (arrays_of g)"
  obtain vs where vs: "run_stmts L (ty, tx) pre (vars_of g (ty, tx), ?m) = Some (vs, ?m)"
    "vars_ok T L (ty, tx) (sums st ty tx) vs"
    using prepares_run [OF sim pre] th t(1) by blast
  have C: "arrays_of g ''C'' = m ''C''" by (rule block_simD(4) [OF sim]) simp_all
  have "?m ''C'' (result_index x (group_y L * T + ty) (group_x L * T + tx)) \<noteq> None"
    if "group_y L * T + ty < m_dim x" "group_x L * T + tx < n_dim x"
  proof -
    have "m ''C'' (result_index x (group_y L * T + ty) (group_x L * T + tx)) \<noteq> None"
      using r that t(2,3) unfolding own_results_ok_def by blast
    moreover have "result_index x (group_y L * T + ty) (group_x L * T + tx) \<in> result_owner T L x (ty, tx) ''C''"
      using that by (simp add: result_owner_def)
    ultimately show ?thesis by (simp add: view_own C)
  qed
  from store_run [where m = ?m and acts = acts, OF vs(2) p this]
  show "run_stmts L th (pre @ store_code acts) (vars_of g th, own_view {''C''} (result_owner T L x th) (arrays_of g)) \<noteq> None"
    unfolding t(1) run_stmts_append vs(1) by auto
qed

lemma phases_race_free:
  assumes xs: "set xs = {..<T} \<times> {..<T}" "distinct xs" and p: "params_ok T L x" and y: "indexing_of y = ix"
    and "inputs_ok x m" and "own_results_ok T L x m"
    and "block_sim cell T L D m st g" and "prepares T L ({..<T} \<times> {..<T}) D st pre"
    and "D \<subseteq> {..<T} \<times> {..<T}" and "Barrier \<notin> set pre" and "\<And>W. list_all (stores_in W) pre"
    and "i + n \<le> (k_dim x + T - 1) div T"
  shows "races_free L xs (segments (pre @ concat (map (phase_code y T) [i..<i + n]) @ store_code acts)) g"
  using assms(5-)
proof (induction n arbitrary: i D st g pre)
  case 0
  have "race_free L {''C''} (result_owner T L x) (set xs) (pre @ store_code acts) g"
    unfolding xs by (rule store_race_free [OF "0.prems"(3,4,7) p "0.prems"(2) subset_refl])
  then show ?case using segments_single [of "pre @ store_code acts"] "0.prems"(6) no_barrier(4) by auto
next
  case (Suc n)
  let ?B = "{..<T} \<times> {..<T}"
  let ?A = "pre @ DeclInt ''ph'' (Lit (int i)) # load_code (indexing_of y) (load_notes y) (int T) (int T)"
  let ?M = "mac_code (indexing_of y) (mac_notes y) (end_notes y) (int T) (int T)"
  let ?R = "segments ([] @ concat (map (phase_code y T) [Suc i..<Suc i + n]) @ store_code acts)"
  have ph: "i * T < k_dim x" by (rule phase_in_depth) (use Suc.prems(8) in simp)
  have T: "T * T \<le> 2 ^ 31" using p by (simp add: params_ok_def dims_ok_def)
  obtain h where h: "fold_opt (thread_step L ?A) xs g = Some h"
    "block_sim cell T L ?B m (fold (load_cell L x T i) xs st) h"
    using load_segment [OF Suc.prems(3) xs(1) _ p Suc.prems(1) ph Suc.prems(5), where pre = pre and ns = "load_notes y"] Suc.prems(4)
    unfolding xs y by blast
  obtain k where k: "fold_opt (thread_step L ?M) xs h = Some k"
    "block_sim cell T L ?B m (fold (mac_cell L T) xs (fold (load_cell L x T i) xs st)) k"
    using mac_segment [OF h(2) xs(1) T, where ns = "mac_notes y" and es = "end_notes y"] unfolding y by blast
  have segs: "segments (pre @ concat (map (phase_code y T) [i..<i + Suc n]) @ store_code acts) = ?A # ?M # ?R"
    using segments_phases [OF Suc.prems(6), of y T i "Suc n" acts] by simp
  have a: "race_free L {''sA'', ''sB''} (tile_owner cell T) (set xs) ?A g"
    unfolding y by (rule load_race_free [OF Suc.prems(3) xs(1) _ Suc.prems(7) p Suc.prems(1) ph]) (use Suc.prems(4) xs in simp)
  have b: "race_free L {} (tile_owner cell T) (set xs) ?M h"
    unfolding y xs by (rule mac_race_free [OF h(2) refl T])
  have "races_free L xs ?R k"
    by (rule Suc.IH [OF Suc.prems(1,2) k(2)]) (use Suc.prems(8) in \<open>simp_all add: prepares_none\<close>)
  with a b h(1) k(1) show ?case unfolding segs by auto
qed

lemma code_race_free:
  assumes T: "0 < T" and xs: "set xs = {..<T} \<times> {..<T}" "distinct xs" and p: "params_ok T L x" and y: "indexing_of y = ix"
    and i: "inputs_ok x m" and r: "own_results_ok T L x m" and sh: "shared_ok cell T sh"
    and code: "unrolls L (matmul_code y acts (int T) (int T) (int T)) = Some ss"
  shows "races_free L xs (segments ss) (block_start sh m)"
proof -
  have "prepares T L ({..<T} \<times> {..<T}) {} (first_tiles L cell T sh) (decls_code (int T) (int T))"
    by (rule prepares_decls) (use p in \<open>simp_all add: first_tiles_def params_ok_def\<close>)
  from phases_race_free [OF xs p y i r block_sim_start [OF sh] this _ no_barrier(1)
      stores_in_code(4), where n = "(k_dim x + T - 1) div T" and acts = acts]
  show ?thesis using unrolls_matmul [OF params_okD(1,2) [OF p] T, of y acts] code by (simp add: block_start_def)
qed

end

section \<open>Blocks that do not meet\<close>

text \<open>The cells of the result that belong to a block.\<close>

definition block_owner :: "nat \<Rightarrow> 'e operands \<Rightarrow> nat \<times> nat \<Rightarrow> string \<Rightarrow> int list set" where
  "block_owner T x b a =
     {result_index x r c | r c. r < m_dim x \<and> c < n_dim x \<and> (r div T, c div T) = b}"

lemma activate_in_block: "activate (in_block L b) = activate L"
  by (simp add: activate_def fun_eq_iff)

lemma dot_in_block: "dot (in_block L b) x r c n = dot L x r c n"
  by (simp add: dot_def pad_a_def pad_b_def cong: if_cong)

lemma block_owner_disjoint: "b \<noteq> b' \<Longrightarrow> block_owner T x b a \<inter> block_owner T x b' a = {}"
  by (auto simp: block_owner_def result_index_inj)

text \<open>All cells of the result are allocated.\<close>

definition results_ok :: "'e operands \<Rightarrow> 'e arrays \<Rightarrow> bool" where
  "results_ok x m \<longleftrightarrow> (\<forall>r < m_dim x. \<forall>c < n_dim x. m ''C'' (result_index x r c) \<noteq> None)"

text \<open>The matrix product, row by row, in the result of a memory. The sums of the kernel run over whole tiles, the last
  one padded with zeros.\<close>

definition padded_depth :: "nat \<Rightarrow> 'e operands \<Rightarrow> nat" where
  "padded_depth T x = (k_dim x + T - 1) div T * T"

definition product_of :: "'e launch \<Rightarrow> nat \<Rightarrow> string list \<Rightarrow> 'e operands \<Rightarrow> nat \<Rightarrow> nat \<Rightarrow> 'e" where
  "product_of L T acts x r c = fold (activate L) acts (dot L x r c (padded_depth T x))"

definition product_memory :: "'e launch \<Rightarrow> nat \<Rightarrow> string list \<Rightarrow> 'e operands \<Rightarrow> 'e arrays \<Rightarrow> 'e arrays" where
  "product_memory L T acts x m =
     m(''C'' := (\<lambda>js. case js of
          [i] \<Rightarrow> if 0 \<le> i \<and> nat i < m_dim x * n_dim x
                then Some (product_of L T acts x (nat i div n_dim x) (nat i mod n_dim x)) else m ''C'' js
        | _ \<Rightarrow> m ''C'' js))"

lemma result_index_nat: "result_index x r c = [int (r * n_dim x + c)]"
  by (simp add: result_index_def)

lemma product_memory_at:
  assumes "r < m_dim x" and "c < n_dim x"
  shows "product_memory L T acts x m ''C'' (result_index x r c) = Some (product_of L T acts x r c)"
proof -
  have "r * n_dim x + c < Suc r * n_dim x" using assms(2) by simp
  also have "\<dots> \<le> m_dim x * n_dim x" using assms(1) by (intro mult_le_mono1) simp
  finally show ?thesis using assms(2) by (simp add: product_memory_def result_index_nat del: of_nat_add of_nat_mult)
qed

lemma product_memory_other:
  assumes "a = ''C'' \<Longrightarrow> \<forall>r < m_dim x. \<forall>c < n_dim x. js \<noteq> result_index x r c"
  shows "product_memory L T acts x m a js = m a js"
proof -
  have False if "a = ''C''" "js = [i]" "0 \<le> i" "nat i < m_dim x * n_dim x" for i
  proof -
    have "0 < n_dim x" using that(4) by (cases "n_dim x") simp_all
    then have "nat i div n_dim x < m_dim x" "nat i mod n_dim x < n_dim x"
      using that(4) by (simp_all add: less_mult_imp_div_less)
    moreover have "js = result_index x (nat i div n_dim x) (nat i mod n_dim x)"
      using that(2,3) by (simp add: result_index_nat div_mult_mod_eq del: of_nat_add of_nat_mult)
    ultimately show False using assms that(1) by blast
  qed
  then show ?thesis by (auto simp: product_memory_def split: list.split)
qed

lemma shared_ok_dom:
  assumes "shared_ok cell T sh"
  shows "dom sh = {''sA'', ''sB''}"
proof -
  have "sh ''sA'' \<noteq> None" "sh ''sB'' \<noteq> None" and o: "\<forall>a. a \<notin> {''sA'', ''sB''} \<longrightarrow> sh a = None"
    using assms unfolding shared_ok_def by blast+
  then have "{''sA'', ''sB''} \<subseteq> dom sh" unfolding dom_def by blast
  moreover have "dom sh \<subseteq> {''sA'', ''sB''}"
  proof
    fix a assume "a \<in> dom sh"
    then have "sh a \<noteq> None" unfolding domIff .
    then show "a \<in> {''sA'', ''sB''}" using o by metis
  qed
  ultimately show ?thesis by (rule subset_antisym [rotated])
qed

lemma stores_in_matmul:
  assumes "{''sA'', ''sB'', ''C''} \<subseteq> W"
  shows "list_all (stores_in W) (decls_code m n @ concat (map (phase_code y T) is) @ store_code acts)"
proof -
  have mono: "list_all (stores_in V) ss \<Longrightarrow> V \<subseteq> W \<Longrightarrow> list_all (stores_in W) ss" for V ss
    by (auto simp: list_all_iff intro: stores_in_mono)
  have "list_all (stores_in W) (load_code ix ns n' k)" "list_all (stores_in W) (mac_code ix ns es n' k)"
    "list_all (stores_in W) (store_code acts)" for ix ns es n' k
    using mono [OF stores_in_code(1)] mono [OF stores_in_code(2)] mono [OF stores_in_code(3)] assms by auto
  then have "list_all (stores_in W) (phase_code y T i)" "list_all (stores_in W) (store_code acts)" for i
    by (simp_all add: phase_code_def)
  moreover from this have "list_all (stores_in W) (concat (map (phase_code y T) is))" by (induction "is") simp_all
  ultimately show ?thesis using stores_in_code(4) by simp
qed

context tile_indexing
begin

lemma grid_concurrent:
  assumes T: "0 < T" and p: "args_ok L x" "dims_ok T x" and bl: "\<And>b. b \<in> B \<Longrightarrow> block_ok T b" and y: "indexing_of y = ix" and i: "inputs_ok x m" and r: "results_ok x m"
    and B: "finite B" and sh: "\<And>b. b \<in> B \<Longrightarrow> shared_ok cell T (shared b)"
    and cover: "\<And>r c. r < m_dim x \<Longrightarrow> c < n_dim x \<Longrightarrow> (r div T, c div T) \<in> B"
  shows "grid_total L ({..<T} \<times> {..<T}) shared (matmul_code y acts (int T) (int T) (int T)) B m
    (product_memory L T acts x m)"
proof -
  let ?code = "matmul_code y acts (int T) (int T) (int T)"
  let ?xs = "List.product [0..<T] [0..<T]"
  have xs: "set ?xs = {..<T} \<times> {..<T}" "distinct ?xs" by (auto simp: distinct_product)
  let ?cd = "decls_code (int T) (int T) @ concat (map (phase_code y T) [0..<(k_dim x + T - 1) div T]) @ store_code acts"
  have pL: "params_ok T (in_block L b) x" if "b \<in> B" for b
    using p bl [OF that] by (simp add: params_ok_def args_ok_def block_ok_def)
  have aL: "args_ok (in_block L b) x" for b using p(1) by (simp add: args_ok_def)
  have code: "unrolls (in_block L b) ?code = Some ?cd" for b by (rule unrolls_matmul [OF aL p(2) T])
  have dom: "dom (shared b) = {''sA'', ''sB''}" if "b \<in> B" for b
    by (rule shared_ok_dom [OF sh [OF that]])
  have "\<exists>h. run_segments (in_block L b) (\<lambda>i. ?xs) 0 (segments ?cd) (block_start (shared b) m) = Some h \<and>
      (\<forall>js \<in> block_owner T x b ''C''. product_memory L T acts x m ''C'' js = arrays_of h ''C'' js)" if b: "b \<in> B" for b
  proof -
    have "own_results_ok T (in_block L b) x m"
      using r unfolding own_results_ok_def results_ok_def by blast
    from code_run [OF T xs pL [OF b] y i this sh [OF b], of acts] obtain h where
      run: "run_code (in_block L b) (\<lambda>i. ?xs) ?code (block_start (shared b) m) = Some h" and
      cells: "\<And>ty tx. ty < T \<Longrightarrow> tx < T \<Longrightarrow> fst b * T + ty < m_dim x \<Longrightarrow> snd b * T + tx < n_dim x \<Longrightarrow>
        arrays_of h ''C'' (result_index x (fst b * T + ty) (snd b * T + tx)) =
          Some (fold (activate (in_block L b)) acts (dot (in_block L b) x (fst b * T + ty) (snd b * T + tx) (padded_depth T x)))"
      by (auto simp: block_start_def padded_depth_def)
    have "arrays_of h ''C'' (result_index x r k) = Some (product_of L T acts x r k)"
      if "r < m_dim x" "k < n_dim x" "(r div T, k div T) = b" for r k
      using cells [of "r mod T" "k mod T"] that T by (auto simp: product_of_def dot_in_block activate_in_block)
    then show ?thesis using run by (auto simp: block_owner_def product_memory_at run_code_def code)
  qed
  then have "\<forall>b \<in> B. \<exists>h. run_segments (in_block L b) (\<lambda>i. ?xs) 0 (segments ?cd) (block_start (shared b) m) = Some h \<and>
      (\<forall>js \<in> block_owner T x b ''C''. product_memory L T acts x m ''C'' js = arrays_of h ''C'' js)"
    by (rule ballI)
  from bchoice [OF this] obtain h where
    h: "\<forall>b \<in> B. run_segments (in_block L b) (\<lambda>i. ?xs) 0 (segments ?cd) (block_start (shared b) m) = Some (h b) \<and>
      (\<forall>js \<in> block_owner T x b ''C''. product_memory L T acts x m ''C'' js = arrays_of (h b) ''C'' js)" ..
  have "grid_total L (set ?xs) shared ?code B m (product_memory L T acts x m)"
  proof (rule race_free_grid [where W = "{''C''}" and P = "block_owner T x" and h = h, OF B xs(2) code])
    fix b assume b: "b \<in> B"
    let ?m = "own_view {''C''} (block_owner T x b) m"
    show "{''C''} \<inter> dom (shared b) = {}" using dom [OF b] by simp
    show "list_all (stores_in ({''C''} \<union> dom (shared b))) ?cd" by (rule stores_in_matmul) (simp add: dom [OF b])
    have "inputs_ok x ?m" by (rule inputs_ok_cong [OF i]) (simp_all add: view_other)
    moreover have "own_results_ok T (in_block L b) x ?m"
      unfolding own_results_ok_def
    proof (intro allI impI)
      fix ty tx
      let ?r = "group_y (in_block L b) * T + ty" and ?c = "group_x (in_block L b) * T + tx"
      assume t: "ty < T" "tx < T" "?r < m_dim x" "?c < n_dim x"
      then have "(?r div T, ?c div T) = b" by simp
      then have "result_index x ?r ?c \<in> block_owner T x b ''C''" using t(3,4) unfolding block_owner_def by blast
      then have "?m ''C'' (result_index x ?r ?c) = m ''C'' (result_index x ?r ?c)" by (simp add: view_own)
      then show "?m ''C'' (result_index x ?r ?c) \<noteq> None" using r t(3,4) unfolding results_ok_def by metis
    qed
    ultimately show "races_free (in_block L b) ?xs (segments ?cd) (block_start (shared b) ?m)"
      by (rule code_race_free [OF T xs pL [OF b] y _ _ sh [OF b] code])
  next
    fix a js assume un: "\<And>b. b \<in> B \<Longrightarrow> a \<notin> {''C''} \<or> js \<notin> block_owner T x b a"
    show "product_memory L T acts x m a js = m a js"
    proof (rule product_memory_other, intro allI impI notI)
      fix r c assume "a = ''C''" "r < m_dim x" "c < n_dim x" "js = result_index x r c"
      then show False using un [OF cover] by (auto simp: block_owner_def)
    qed
  qed (use block_owner_disjoint [where x = x] h in auto)
  then show ?thesis unfolding xs(1) .
qed

end

end
