(* ===== verification/Emitted_Matmul.thy ===== *)
theory Emitted_Matmul
  imports Matmul_Threads Jit
begin

text \<open>
  The matrix kernels from the generators to their results: what \<open>generate\<close> emits for a product, as the
  spelling of statements, and what these statements compute when a grid runs them.
\<close>

section \<open>The emitted source\<close>

fun tile_default :: "target_backend \<Rightarrow> i64" where
  "tile_default (AmdRocm g w c) = 64"
| "tile_default (AppleMetal n b c) = 32"
| "tile_default _ = 16"

text \<open>The dimensions of the tiles that a generator uses for an operation.\<close>

definition matmul_tiles :: "target_backend \<Rightarrow> omni_op \<Rightarrow> int \<times> int \<times> int" where
  "matmul_tiles b p =
     (sint (int_attr p ''tile_m'' (tile_default b)), sint (int_attr p ''tile_n'' (tile_default b)),
      sint (int_attr p ''tile_k'' 16))"

fun matmul_layout :: "target_backend \<Rightarrow> layout" where
  "matmul_layout (AmdRocm g w c) = hip_layout"
| "matmul_layout (AppleMetal n b c) = metal_layout"
| "matmul_layout _ = glsl_layout"

fun matmul_cell :: "target_backend \<Rightarrow> int \<Rightarrow> int \<Rightarrow> int \<Rightarrow> int list" where
  "matmul_cell (AppleMetal n b c) = linear_cell"
| "matmul_cell _ = square_cell"

definition matmul_program :: "target_backend \<Rightarrow> omni_op \<Rightarrow> stmt list" where
  "matmul_program b p =
     (let (m, n, k) = matmul_tiles b p in matmul_code (matmul_layout b) (acts_of p) m n k)"

text \<open>The sides of the blocks that a generator asks for.\<close>

fun block_side :: "target_backend \<Rightarrow> nat" where
  "block_side (AmdRocm g w c) = 8"
| "block_side (AppleMetal n b c) = 8"
| "block_side _ = 16"

text \<open>The text: the header of the file, the declarations, the statements.\<close>

fun matmul_source :: "target_backend \<Rightarrow> omni_op \<Rightarrow> string" where
  "matmul_source (AmdRocm g w c) p =
     (let b = AmdRocm g w c; (m, n, k) = matmul_tiles b p; et = amd_map_element_type (elem_type (result_type p))
      in amd_header @ text_lines (hip_head (''omni_matmul_'' @ dec (unat (op_id p))) et m n k @
           show_stmts (hip et) 1 (matmul_program b p) @ [''}'']))"
| "matmul_source (AppleMetal n b c) p =
     (let et = metal_map_element_type (elem_type (result_type p))
      in metal_header @ text_lines (metal_head (''omni_matmul_'' @ dec (unat (op_id p))) et @
           show_stmts (metal et) 1 (matmul_program (AppleMetal n b c) p) @ [''}'']))"
| "matmul_source b p =
     (let (m, n, k) = matmul_tiles b p; et = spirv_map_element_type (elem_type (result_type p))
      in spirv_header @ text_lines (glsl_head et m n k @
           show_stmts (glsl et) 1 (matmul_program b p) @ [''}'']))"

lemma generate_matmul:
  assumes m: "ops m = [p]" and kind: "kind p = MatMul \<or> kind p = BatchedMatMul"
  shows "\<exists>k. generate_for b m = Inr k \<and> payload k = bytes_of (matmul_source b p) \<and>
    block_size k = (of_nat (block_side b), of_nat (block_side b), 1)"
proof -
  have s: "spirv_generate m = Inr (finish_kernel (spirv_header @ spirv_lower_matmul p,
      ''omni_matmul_'' @ dec (unat (op_id p)), (16, 16, 1)))"
    using assms by (auto simp: spirv_generate_def spirv_lower_op_def Let_def)
  have a: "amd_generate m = Inr (finish_kernel (amd_header @ amd_lower_matmul p (''omni_matmul_'' @ dec (unat (op_id p))),
      ''omni_matmul_'' @ dec (unat (op_id p)), (8, 8, 1)))"
    using assms by (auto simp: amd_generate_def amd_lower_op_def Let_def)
  have t: "metal_generate m = Inr (finish_kernel (metal_header @ metal_lower_matmul p (''omni_matmul_'' @ dec (unat (op_id p))),
      ''omni_matmul_'' @ dec (unat (op_id p)), (8, 8, 1)))"
    using assms by (auto simp: metal_generate_def metal_lower_op_def Let_def)
  show ?thesis
    by (cases b) (simp_all add: a s t amd_matmul_text metal_matmul_text spirv_matmul_text matmul_program_def
        matmul_tiles_def Let_def)
qed

text \<open>A batched product gets the kernel of a plain one.\<close>

lemma batched_like_plain:
  "kind p = BatchedMatMul \<Longrightarrow>
     generate_for b (m\<lparr>ops := [p]\<rparr>) = generate_for b (m\<lparr>ops := [p\<lparr>kind := MatMul\<rparr>]\<rparr>)"
  by (cases b) (simp_all add: amd_generate_def amd_lower_op_def metal_generate_def metal_lower_op_def
      spirv_generate_def spirv_lower_op_def amd_lower_matmul_def metal_lower_matmul_def
      spirv_lower_matmul_def int_attr_def)

section \<open>The run of a grid\<close>

text \<open>Inputs, results and shared memory are allocated, and the blocks cover the result.\<close>

definition grid_ok ::
  "(int \<Rightarrow> int \<Rightarrow> int \<Rightarrow> int list) \<Rightarrow> nat \<Rightarrow> 'e operands \<Rightarrow> (nat \<times> nat \<Rightarrow> string \<rightharpoonup> (int list \<rightharpoonup> 'e)) \<Rightarrow>
   (nat \<times> nat) set \<Rightarrow> 'e arrays \<Rightarrow> bool" where
  "grid_ok cell T x shared B mem \<longleftrightarrow>
     inputs_ok x mem \<and> results_ok x mem \<and> finite B \<and> (\<forall>b \<in> B. shared_ok cell T (shared b) \<and> block_ok T b) \<and>
     (\<forall>r < m_dim x. \<forall>c < n_dim x. (r div T, c div T) \<in> B)"

lemma grid_okD:
  assumes "grid_ok cell T x shared B mem"
  shows "inputs_ok x mem" and "results_ok x mem" and "finite B" and "\<And>b. b \<in> B \<Longrightarrow> shared_ok cell T (shared b)"
    and "\<And>b. b \<in> B \<Longrightarrow> block_ok T b"
    and "\<And>r c. r < m_dim x \<Longrightarrow> c < n_dim x \<Longrightarrow> (r div T, c div T) \<in> B"
  using assms by (simp_all add: grid_ok_def)

lemma program_run:
  assumes "0 < T" and "args_ok L x" and "dims_ok T x" and "matmul_tiles b p = (int T, int T, int T)"
    and "grid_ok (matmul_cell b) T x shared B mem"
  shows "grid_total L ({..<T} \<times> {..<T}) shared (matmul_program b p) B mem
    (product_memory L T (acts_of p) x mem)"
proof (cases b)
  case (AppleMetal n w c)
  then show ?thesis
    using linear.grid_concurrent [OF assms(1,2,3) grid_okD(5) [OF assms(5)], where y = metal_layout] grid_okD [OF assms(5)] assms(4)
    by (simp add: matmul_program_def metal_layout_def)
qed (use square.grid_concurrent [OF assms(1,2,3) grid_okD(5) [OF assms(5)], where y = hip_layout] square.grid_concurrent [OF assms(1,2,3) grid_okD(5) [OF assms(5)], where y = glsl_layout]
    grid_okD [OF assms(5)] assms(4) in \<open>simp_all add: matmul_program_def hip_layout_def glsl_layout_def\<close>)

section \<open>Padding\<close>

text \<open>The sums of a product without padding. They are those of the kernel when adding a product of zeros changes nothing,
  as it is for integers.\<close>

definition inner_product :: "'e launch \<Rightarrow> 'e operands \<Rightarrow> nat \<Rightarrow> nat \<Rightarrow> 'e" where
  "inner_product L x r c = fold (\<lambda>i s. add_elem L s (mul_elem L (op_a x r i) (op_b x i c))) [0..<k_dim x] (zero_elem L)"

definition zeros_vanish :: "'e launch \<Rightarrow> bool" where
  "zeros_vanish L \<longleftrightarrow> (\<forall>s. add_elem L s (mul_elem L (zero_elem L) (zero_elem L)) = s)"

lemma dot_unpadded:
  assumes "r < m_dim x" and "c < n_dim x" and "zeros_vanish L"
  shows "dot L x r c (k_dim x + d) = inner_product L x r c"
proof (induction d)
  case 0
  show ?case using assms(1,2) by (auto simp: dot_def inner_product_def pad_a_def pad_b_def intro!: fold_cong)
next
  case (Suc d)
  have "dot L x r c (k_dim x + Suc d) = dot L x r c (k_dim x + d)"
    using assms(3) by (simp add: dot_def pad_a_def pad_b_def zeros_vanish_def)
  then show ?case using Suc by simp
qed

lemma padded_depth_at_least:
  assumes "0 < T"
  shows "k_dim x \<le> padded_depth T x"
proof -
  have "k_dim x + T - 1 = padded_depth T x + (k_dim x + T - 1) mod T"
    unfolding padded_depth_def by (rule div_mult_mod_eq [symmetric])
  moreover have "(k_dim x + T - 1) mod T < T" using assms by simp
  ultimately show ?thesis by simp
qed

lemma product_unpadded:
  assumes "0 < T" and "r < m_dim x" and "c < n_dim x" and "zeros_vanish L"
  shows "product_of L T acts x r c = fold (activate L) acts (inner_product L x r c)"
proof -
  obtain d where "padded_depth T x = k_dim x + d" using padded_depth_at_least [OF assms(1)] le_Suc_ex by blast
  then show ?thesis using dot_unpadded [OF assms(2-4)] by (simp add: product_of_def)
qed

text \<open>The sums for integers are sums.\<close>

lemma inner_product_sum:
  assumes "zero_elem L = (0 :: 'a :: comm_semiring_0)" and "add_elem L = (+)" and "mul_elem L = (*)"
  shows "inner_product L x r c = (\<Sum>i < k_dim x. op_a x r i * op_b x i c)"
proof -
  have "fold (\<lambda>i s. s + op_a x r i * op_b x i c) [0..<n] 0 = (\<Sum>i < n. op_a x r i * op_b x i c)" for n
    by (induction n) simp_all
  then show ?thesis by (simp add: inner_product_def assms)
qed

section \<open>Properties\<close>

text \<open>C6: The code that a generator emits for a matrix product is, byte for byte, the spelling of a
  program, and when a grid of the blocks that the kernel asks for runs this program (8 by 8 threads on AMD and Metal,
  16 by 16 elsewhere), every execution comes to an end and leaves the product, with the fused activation applied if
  it is one of the three that the generators know, in the result and the rest of memory as it was: on every
  backend, for elements of any type with any arithmetic, whatever shared memory held before, and in every
  interleaving of the statements of all threads of all blocks that respects the barriers. No thread leaves an
  array, overflows an index or is stuck. The sums run in the order of the depth, with the products of the zeros that
  pad the last tile at their end; when adding these changes nothing, an element of the product is the inner product
  of a row and a column. The tiles have to be as large as the blocks, the blocks have to cover the result,
  and the matrices have at most \<open>2 ^ 31\<close> elements each.\<close>

theorem emitted_matmul_correct:
  assumes "ops m = [p]" and "kind p = MatMul \<or> kind p = BatchedMatMul"
    and "T = block_side b" and "matmul_tiles b p = (int T, int T, int T)"
    and "args_ok L x" and "dims_ok T x" and "grid_ok (matmul_cell b) T x shared B mem"
  shows "\<exists>k. generate_for b m = Inr k \<and> payload k = bytes_of (matmul_source b p) \<and>
    block_size k = (of_nat T, of_nat T, 1) \<and>
    grid_total L ({..<T} \<times> {..<T}) shared (matmul_program b p) B
      mem (product_memory L T (acts_of p) x mem) \<and>
    (\<forall>r < m_dim x. \<forall>c < n_dim x. zeros_vanish L \<longrightarrow>
       product_of L T (acts_of p) x r c = fold (activate L) (acts_of p) (inner_product L x r c))"
proof -
  have T: "0 < T" unfolding assms(3) by (cases b) simp_all
  show ?thesis
    using generate_matmul [OF assms(1,2), of b] program_run [OF T assms(5,6,4,7)] product_unpadded [OF T]
    unfolding assms(3) by blast
qed

definition relu_product :: omni_op where
  "relu_product =
     \<lparr>op_id = 0, kind = MatMul, inputs = [''a'', ''b''], output_name = ''c'',
      op_attrs = [''tile_m'' \<mapsto> AttrInt 8, ''tile_n'' \<mapsto> AttrInt 8, ''tile_k'' \<mapsto> AttrInt 8,
        ''fused_activation'' \<mapsto> AttrString ''Relu''],
      result_type = dynamic_tensor 2 F32\<rparr>"

text \<open>A memory that holds two matrices of integers, and shared memory full of sevens.\<close>

definition sample_memory :: "int operands \<Rightarrow> int arrays" where
  "sample_memory x a js =
     (if a = ''A'' then Some (op_a x (nat (hd js div int (k_dim x))) (nat (hd js mod int (k_dim x))))
      else if a = ''B'' then Some (op_b x (nat (hd js div int (n_dim x))) (nat (hd js mod int (n_dim x))))
      else if a = ''C'' then Some (- 1) else None)"

definition sample_shared :: "string \<rightharpoonup> (int list \<rightharpoonup> int)" where
  "sample_shared = [''sA'' \<mapsto> (\<lambda>js. Some 7), ''sB'' \<mapsto> (\<lambda>js. Some 7)]"

definition sample_launch :: "int operands \<Rightarrow> int launch" where
  "sample_launch x =
     \<lparr>param_of = [''M'' \<mapsto> int (m_dim x), ''N'' \<mapsto> int (n_dim x), ''K'' \<mapsto> int (k_dim x)],
      group_y = 0, group_x = 0, block_width = 0, act_fun = (\<lambda>act. id),
      zero_elem = 0, add_elem = (+), mul_elem = (*), pos_elem = max 0\<rparr>"

lemma sample_product:
  assumes "0 < T" and "r < m_dim x" and "c < n_dim x"
  shows "product_of (sample_launch x) T acts x r c =
    fold (activate (sample_launch x)) acts (\<Sum>i < k_dim x. op_a x r i * op_b x i c)"
  using product_unpadded [OF assms, of "sample_launch x" acts] inner_product_sum [of "sample_launch x"]
  by (simp add: zeros_vanish_def sample_launch_def)

definition small_operands :: "int operands" where
  "small_operands = \<lparr>op_a = (\<lambda>i k. int (i + k)), op_b = (\<lambda>k j. int (k * 2 + j)), m_dim = 9, n_dim = 1, k_dim = 3\<rparr>"

lemma sample_grid_ok:
  assumes "finite B" and "\<And>r c. r < m_dim x \<Longrightarrow> c < n_dim x \<Longrightarrow> (r div T, c div T) \<in> B" and "\<And>b. b \<in> B \<Longrightarrow> block_ok T b"
  shows "args_ok (sample_launch x) x" and "grid_ok cell T x (\<lambda>b. sample_shared) B (sample_memory x)"
proof -
  show "args_ok (sample_launch x) x" by (simp add: args_ok_def sample_launch_def)
  have "inputs_ok x (sample_memory x)"
    by (simp add: inputs_ok_def sample_memory_def)
  then show "grid_ok cell T x (\<lambda>b. sample_shared) B (sample_memory x)"
    using assms by (auto simp: grid_ok_def results_ok_def sample_memory_def shared_ok_def sample_shared_def)
qed

theorem emitted_matmul_correct_witness:
  "\<exists>mem. grid_total (sample_launch small_operands) ({..<8} \<times> {..<8}) (\<lambda>b. sample_shared)
       (matmul_program (AmdRocm [] 0 0) relu_product) {(0, 0), (1, 0)} (sample_memory small_operands) mem \<and>
     map (\<lambda>i. mem ''C'' [i]) [0, 1, 8, 9] = [Some 10, Some 16, Some 58, Some (- 1)]"
proof -
  let ?L = "sample_launch small_operands" and ?B = "{(0, 0), (1, 0)} :: (nat \<times> nat) set" and ?x = small_operands
  let ?mem = "product_memory ?L 8 (acts_of relu_product) ?x (sample_memory ?x)" and ?b = "AmdRocm [] 0 0"
  have cover: "(r div 8, c div 8) \<in> ?B" if "r < m_dim ?x" "c < n_dim ?x" for r c :: nat
    using that by (auto simp: small_operands_def)
  have "block_ok 8 b" if "b \<in> ?B" for b using that by (auto simp: block_ok_def)
  note ok = sample_grid_ok [where x = ?x and T = 8 and B = ?B, OF _ cover this]
  have tiles: "matmul_tiles ?b relu_product = (int 8, int 8, int 8)"
    by (simp add: matmul_tiles_def relu_product_def int_attr_def)
  have dims: "dims_ok 8 ?x" by (simp add: dims_ok_def small_operands_def)
  have "\<exists>k. generate_for ?b (module_new\<lparr>ops := [relu_product]\<rparr>) = Inr k \<and>
      payload k = bytes_of (matmul_source ?b relu_product) \<and> block_size k = (of_nat 8, of_nat 8, 1) \<and>
      grid_total ?L ({..<8} \<times> {..<8}) (\<lambda>b. sample_shared) (matmul_program ?b relu_product) ?B
        (sample_memory ?x) ?mem \<and>
      (\<forall>r < m_dim ?x. \<forall>c < n_dim ?x. zeros_vanish ?L \<longrightarrow>
         product_of ?L 8 (acts_of relu_product) ?x r c = fold (activate ?L) (acts_of relu_product) (inner_product ?L ?x r c))"
    by (rule emitted_matmul_correct [OF _ _ _ tiles ok(1) dims ok(2)]) (simp_all add: relu_product_def)
  then have total: "grid_total ?L ({..<8} \<times> {..<8}) (\<lambda>b. sample_shared) (matmul_program ?b relu_product) ?B
      (sample_memory ?x) ?mem" by blast
  have "?mem ''C'' (result_index ?x r 0) = Some (product_of ?L 8 (acts_of relu_product) ?x r 0)" if "r < 9" for r
    by (rule product_memory_at) (use that in \<open>simp_all add: small_operands_def\<close>)
  moreover have "product_of ?L 8 (acts_of relu_product) ?x r 0 =
      fold (activate ?L) (acts_of relu_product) (\<Sum>i < k_dim ?x. op_a ?x r i * op_b ?x i 0)" if "r < 9" for r
    by (rule sample_product) (use that in \<open>simp_all add: small_operands_def\<close>)
  ultimately have "?mem ''C'' (result_index ?x r 0) =
      Some (fold (activate ?L) (acts_of relu_product) (\<Sum>i < k_dim ?x. op_a ?x r i * op_b ?x i 0))" if "r < 9" for r
    using that by simp
  from this [of 0] this [of 1] this [of 8] have cells:
    "?mem ''C'' [0] = Some 10" "?mem ''C'' [1] = Some 16" "?mem ''C'' [8] = Some 58"
    by (simp_all add: result_index_def small_operands_def acts_of_def relu_product_def sample_launch_def
        activate_def numeral_3_eq_3)
  have "?mem ''C'' [9] = sample_memory ?x ''C'' [9]"
    by (rule product_memory_other) (auto simp: small_operands_def result_index_def)
  then have "?mem ''C'' [9] = Some (- 1)" by (simp add: sample_memory_def)
  with cells have "map (\<lambda>i. ?mem ''C'' [i]) [0, 1, 8, 9] = [Some 10, Some 16, Some 58, Some (- 1)]"
    by (simp only: list.map)
  with total show ?thesis by (intro exI conjI)
qed

text \<open>C7: On a Vulkan device a kernel text that mentions a matrix instruction (\<open>mma.sync\<close> or \<open>wmma\<close>) is
  compiled, through lifting, optimization and generation, to a shader for blocks of 16 by 16 threads, and every
  execution of a grid of such blocks that covers the result ends with the product in memory, without an overflow of
  its 32-bit indices, when the matrices have at most \<open>2 ^ 31\<close> elements each.\<close>

theorem vulkan_pipeline_multiplies:
  assumes "target_backend hw = VulkanGeneric n i"
    and "sublist ''mma.sync'' (ptx_text bs) \<or> sublist ''wmma'' (ptx_text bs)"
    and "args_ok L x" and "dims_ok 16 x" and "grid_ok square_cell 16 x shared B mem"
  shows "\<exists>k. compile_fresh hw bs kid = Inr k \<and> block_size k = (16, 16, 1) \<and>
    payload k = bytes_of (spirv_header @ text_lines (glsl_head ''float16_t'' 16 16 16 @
      show_stmts (glsl ''float16_t'') 1 (matmul_code glsl_layout [] 16 16 16) @ [''}''])) \<and>
    grid_total L ({..<16} \<times> {..<16}) shared (matmul_code glsl_layout [] 16 16 16) B mem (product_memory L 16 [] x mem)"
proof -
  have c: "classify_ptx bs = MatMul" using assms(2) by (simp add: classify_ptx_def contains_str_iff)
  obtain m l p where m: "lift_ptx bs kid lifter_new = (Inr m, l)" and p: "ops m = [p]" "op_id p = 0"
    "kind p = MatMul" "op_attrs p = Map.empty" "elem_type (result_type p) = F16"
    using c by (auto simp: lift_ptx_eq Let_def dynamic_tensor_def)
  let ?q = "tile_op 16 p" and ?m = "m\<lparr>ops := [tile_op 16 p]\<rparr>"
  have "run_passes hw m = Inr ?m"
    using run_passes_singleton [of m p hw] p assms(1) by simp
  then have compiled: "compile_fresh hw bs kid = map_sum CodegenError id (generate_for (VulkanGeneric n i) ?m)"
    using assms(1) by (simp add: compile_fresh_def m)
  have tiles: "matmul_tiles (VulkanGeneric n i) ?q = (16, 16, 16)" and acts: "acts_of ?q = []"
    using p by (simp_all add: matmul_tiles_def int_attr_def tile_op_def acts_of_def)
  obtain k where k: "generate_for (VulkanGeneric n i) ?m = Inr k" "payload k = bytes_of (matmul_source (VulkanGeneric n i) ?q)"
    using generate_matmul [of ?m ?q "VulkanGeneric n i"] p by (auto simp: tile_op_def)
  moreover have "block_size k = (16, 16, 1)"
    using k(1) p by (auto simp: spirv_generate_def spirv_lower_op_def Let_def tile_op_def)
  moreover have "matmul_source (VulkanGeneric n i) ?q = spirv_header @ text_lines (glsl_head ''float16_t'' 16 16 16 @
      show_stmts (glsl ''float16_t'') 1 (matmul_code glsl_layout [] 16 16 16) @ [''}''])"
    using p tiles acts by (simp add: matmul_program_def tile_op_def Let_def)
  moreover have "grid_total L ({..<16} \<times> {..<16}) shared (matmul_program (VulkanGeneric n i) ?q) B
      mem (product_memory L 16 (acts_of ?q) x mem)"
    using program_run [of 16 L x "VulkanGeneric n i" ?q shared B mem] assms(3-5) tiles by simp
  ultimately show ?thesis using compiled tiles acts by (auto simp: matmul_program_def)
qed

definition unit_operands :: "int operands" where
  "unit_operands = \<lparr>op_a = (\<lambda>i k. 3), op_b = (\<lambda>k j. 5), m_dim = 1, n_dim = 1, k_dim = 1\<rparr>"

theorem vulkan_pipeline_multiplies_witness:
  "\<exists>mem. grid_total (sample_launch unit_operands) ({..<16} \<times> {..<16}) (\<lambda>b. sample_shared)
       (matmul_code glsl_layout [] 16 16 16) {(0, 0)} (sample_memory unit_operands) mem \<and>
     mem ''C'' [0] = Some 15"
proof -
  let ?hw = "\<lparr>target_backend = VulkanGeneric [] 0, vram_bytes = 0, l2_cache_bytes = 0, fp16_tflops = Finite False 0 0,
     memory_bandwidth_gbps = Finite False 0 0, atomic_support = True, tensor_core_support = False, os = Linux\<rparr>"
  have wmma: "sublist ''wmma'' (ptx_text (bytes_of ''wmma''))"
    unfolding contains_str_iff [symmetric] by code_simp
  have "(r div 16, c div 16) \<in> {(0, 0)}" if "r < m_dim unit_operands" "c < n_dim unit_operands" for r c :: nat
    using that by (auto simp: unit_operands_def)
  note ok = sample_grid_ok [where x = unit_operands and T = 16 and B = "{(0, 0)}", OF _ this]
  have dims: "dims_ok 16 unit_operands" by (simp add: dims_ok_def unit_operands_def)
  have hw: "target_backend ?hw = VulkanGeneric [] 0" by simp
  have "block_ok 16 b" if "b \<in> {(0, 0)}" for b using that by (auto simp: block_ok_def)
  from vulkan_pipeline_multiplies [OF hw disjI2 [OF wmma] ok(1) dims ok(2) [where cell = square_cell]] this have
    "grid_total (sample_launch unit_operands) ({..<16} \<times> {..<16}) (\<lambda>b. sample_shared)
       (matmul_code glsl_layout [] 16 16 16) {(0, 0)} (sample_memory unit_operands) (product_memory (sample_launch unit_operands) 16 [] unit_operands (sample_memory unit_operands))"
    by blast
  moreover have "product_memory (sample_launch unit_operands) 16 [] unit_operands (sample_memory unit_operands) ''C'' [0] = Some 15"
    using sample_product [of 16 0 unit_operands 0 "[]"] by (simp add: product_memory_def unit_operands_def)
  ultimately show ?thesis by blast
qed

end
