(* ===== verification/Elementwise_Code.thy ===== *)
theory Elementwise_Code
  imports Matmul_Code
begin

text \<open>
  The elementwise kernels of the three code generators (rectification, addition and the copy that stands for
  unknown kernels) as statements of \<open>Kernel_Language\<close>, and their emitted text as the spelling of these.
\<close>

section \<open>The statements\<close>

text \<open>How a thread gets its index: the statements that compute it, the index, and the guard. In Metal
  the index is an argument of the kernel and the guard converts the number of elements.\<close>

fun element_index :: "target_backend \<Rightarrow> stmt list \<times> expr \<times> cond" where
  "element_index (AmdRocm g w c) =
     ([DeclInt ''idx'' (Plus (Times (GroupId AxisX) BlockDim) (ThreadId AxisX))],
      Name ''idx'', Lt (Name ''idx'') (Param ''n''))"
| "element_index (AppleMetal n b c) = ([], GlobalId, Lt GlobalId (AsUint (Param ''n'')))"
| "element_index _ = ([DeclInt ''idx'' GlobalId], Name ''idx'', Lt (Name ''idx'') (Param ''n''))"

fun copy_arrays :: "target_backend \<Rightarrow> string \<times> string" where
  "copy_arrays (AmdRocm g w c) = (''in'', ''out'')"
| "copy_arrays (AppleMetal n b c) = (''in'', ''out'')"
| "copy_arrays _ = (''A'', ''B'')"

fun copy_notes :: "target_backend \<Rightarrow> stmt list" where
  "copy_notes (AmdRocm g w c) = [Note ''// AMD HIP fallback execution logic'']"
| "copy_notes _ = []"

definition element_program :: "target_backend \<Rightarrow> op_kind \<Rightarrow> stmt list" where
  "element_program b k =
     (let (decl, ix, guard) = element_index b; (src, dst) = copy_arrays b
      in case k of
           Relu \<Rightarrow> decl @ [When guard [Store ''y'' [ix] (Rectify (Elem ''x'' [ix]))]]
         | Add \<Rightarrow> decl @ [When guard [Store ''c'' [ix] (Plus (Elem ''a'' [ix]) (Elem ''b'' [ix]))]]
         | Opaque h \<Rightarrow> copy_notes b @ decl @ [StoreWhen guard dst [ix] (Elem src [ix])]
         | _ \<Rightarrow> [])"

section \<open>The text\<close>

text \<open>The declarations before the statements.\<close>

definition hip_element_head :: "op_kind \<Rightarrow> string \<Rightarrow> string \<Rightarrow> string list" where
  "hip_element_head k name dtype =
     (let entry = ''extern '' @ dquote @ ''C'' @ dquote @ '' __global__ void '' @ name
      in case k of
           Relu \<Rightarrow> [entry @ ''(const '' @ dtype @ ''* x, '' @ dtype @ ''* y, int n) {'']
         | Add \<Rightarrow> [entry @ ''(const '' @ dtype @ ''* a, const '' @ dtype @ ''* b, '' @ dtype @ ''* c, int n) {'']
         | Opaque h \<Rightarrow> [''// Fallback opaque block for PTX hash: 0x'' @ hex (unat h),
                        entry @ ''(const float* in, float* out, int n) {'']
         | _ \<Rightarrow> [])"

definition metal_element_head :: "op_kind \<Rightarrow> string \<Rightarrow> string \<Rightarrow> string list" where
  "metal_element_head k name dtype =
     (let array = (\<lambda>const dt x i. tab @ ''device '' @ const @ dt @ ''* '' @ x @ '' ['' @ ''[buffer('' @ i @ '')]'' @ ''],'');
          count = (\<lambda>i. tab @ ''constant int& n ['' @ ''[buffer('' @ i @ '')]'' @ ''],'');
          index = tab @ ''uint idx ['' @ ''[thread_position_in_grid]'' @ '']'';
          entry = ''kernel void '' @ name @ ''(''
      in case k of
           Relu \<Rightarrow> [entry, array ''const '' dtype ''x'' ''0'', array [] dtype ''y'' ''1'', count ''2'', index, '') {'']
         | Add \<Rightarrow> [entry, array ''const '' dtype ''a'' ''0'', array ''const '' dtype ''b'' ''1'',
                    array [] dtype ''c'' ''2'', count ''3'', index, '') {'']
         | Opaque h \<Rightarrow> [''// Fallback opaque block for PTX hash: 0x'' @ hex (unat h), entry,
                        array ''const '' ''float'' ''in'' ''0'', array [] ''float'' ''out'' ''1'', count ''2'', index, '') {'']
         | _ \<Rightarrow> [])"

definition glsl_element_head :: "op_kind \<Rightarrow> string \<Rightarrow> string list" where
  "glsl_element_head k dtype =
     (let size = ''layout(local_size_x = 256, local_size_y = 1, local_size_z = 1) in;'';
          buf = (\<lambda>i acc name dt x. ''layout(std430, binding = '' @ i @ '') '' @ acc @ '' buffer Buffer'' @ name @
            '' { '' @ dt @ '' '' @ x @ ''[]; };'');
          count = ''layout(push_constant) uniform Params { int n; } params;''
      in case k of
           Relu \<Rightarrow> [size, [], buf ''0'' ''readonly'' ''X'' dtype ''x'', buf ''1'' ''writeonly'' ''Y'' dtype ''y'',
                     [], count, [], ''void main() {'']
         | Add \<Rightarrow> [size, [], buf ''0'' ''readonly'' ''A'' dtype ''a'', buf ''1'' ''readonly'' ''B'' dtype ''b'',
                    buf ''2'' ''writeonly'' ''C'' dtype ''c'', [], count, [], ''void main() {'']
         | Opaque h \<Rightarrow> [''// Fallback opaque block for PTX hash: 0x'' @ hex (unat h), size,
                        buf ''0'' ''readonly'' ''In'' ''float'' ''A'', buf ''1'' ''writeonly'' ''Out'' ''float'' ''B'',
                        count, [], ''void main() {'']
         | _ \<Rightarrow> [])"

fun element_entry :: "op_kind \<Rightarrow> string" where
  "element_entry Relu = ''omni_relu_''"
| "element_entry Add = ''omni_add_''"
| "element_entry _ = ''omni_fallback_''"

fun element_source :: "target_backend \<Rightarrow> omni_op \<Rightarrow> string" where
  "element_source (AmdRocm g w c) p =
     (let et = amd_map_element_type (elem_type (result_type p)); name = element_entry (kind p) @ dec (unat (op_id p))
      in amd_header @ text_lines (hip_element_head (kind p) name et @
           show_stmts (hip et) 1 (element_program (AmdRocm g w c) (kind p)) @ [''}'']))"
| "element_source (AppleMetal n b c) p =
     (let et = metal_map_element_type (elem_type (result_type p)); name = element_entry (kind p) @ dec (unat (op_id p))
      in metal_header @ text_lines (metal_element_head (kind p) name et @
           show_stmts (metal et) 1 (element_program (AppleMetal n b c) (kind p)) @ [''}'']))"
| "element_source b p =
     (let et = spirv_map_element_type (elem_type (result_type p))
      in spirv_header @ text_lines (glsl_element_head (kind p) et @
           show_stmts (glsl et) 1 (element_program b (kind p)) @ [''}'']))"

text \<open>The width of the thread blocks that the generators ask for.\<close>

fun element_width :: "target_backend \<Rightarrow> nat" where
  "element_width (AmdRocm g w c) = 64"
| "element_width (AppleMetal n b c) = 32"
| "element_width _ = 256"

definition elementwise :: "op_kind \<Rightarrow> bool" where
  "elementwise k = (case k of Relu \<Rightarrow> True | Add \<Rightarrow> True | Opaque h \<Rightarrow> True | _ \<Rightarrow> False)"

lemma elementwise_cases: "elementwise k \<Longrightarrow> k = Relu \<or> k = Add \<or> (\<exists>h. k = Opaque h)"
  by (cases k) (simp_all add: elementwise_def)

lemmas spelling_defs = element_program_def show_store_def indent_def paren_def Let_def
  amd_relu_def amd_add_def amd_fallback_def metal_relu_def metal_add_def metal_fallback_def
  spirv_relu_def spirv_add_def spirv_fallback_def hip_element_head_def metal_element_head_def glsl_element_head_def
  hip_def metal_def glsl_def numeral_2_eq_2

lemma generate_elementwise:
  assumes m: "ops m = [p]" and k: "elementwise (kind p)"
  shows "\<exists>k. generate_for b m = Inr k \<and> payload k = bytes_of (element_source b p) \<and>
    kernel_name k = element_entry (kind p) @ dec (unat (op_id p)) \<and> block_size k = (of_nat (element_width b), 1, 1)"
proof -
  consider "kind p = Relu" | "kind p = Add" | h where "kind p = Opaque h" using elementwise_cases [OF k] by blast
  then show ?thesis
    by cases (cases b; simp add: m amd_generate_def amd_lower_op_def metal_generate_def metal_lower_op_def
      spirv_generate_def spirv_lower_op_def spelling_defs)+
qed

end
