(* ===== verification/Emitted_Elementwise.thy ===== *)
theory Emitted_Elementwise
  imports Elementwise_Code Grid_Steps
begin

text \<open>
  What the emitted elementwise kernels compute when a grid runs them, statement by statement in any
  interleaving of its threads, and what a kernel that the lifter does not recognize becomes.
\<close>

section \<open>The meaning of a kernel\<close>

fun element_target :: "target_backend \<Rightarrow> op_kind \<Rightarrow> string" where
  "element_target b Relu = ''y''"
| "element_target b Add = ''c''"
| "element_target b _ = snd (copy_arrays b)"

text \<open>The value at index \<open>i\<close>, when the inputs have one.\<close>

fun element_value :: "'e launch \<Rightarrow> target_backend \<Rightarrow> op_kind \<Rightarrow> 'e arrays \<Rightarrow> int \<Rightarrow> 'e option" where
  "element_value L b Relu m i = map_option (pos_elem L) (m ''x'' [i])"
| "element_value L b Add m i = lift2 (add_elem L) (m ''a'' [i]) (m ''b'' [i])"
| "element_value L b _ m i = m (fst (copy_arrays b)) [i]"

definition elements_ok :: "'e launch \<Rightarrow> target_backend \<Rightarrow> op_kind \<Rightarrow> nat \<Rightarrow> 'e arrays \<Rightarrow> bool" where
  "elements_ok L b k n m \<longleftrightarrow>
     (\<forall>i < n. element_value L b k m (int i) \<noteq> None \<and> m (element_target b k) [int i] \<noteq> None)"

text \<open>The memory in which the elements in \<open>S\<close> have been computed.\<close>

definition element_memory :: "'e launch \<Rightarrow> target_backend \<Rightarrow> op_kind \<Rightarrow> nat set \<Rightarrow> 'e arrays \<Rightarrow> 'e arrays" where
  "element_memory L b k S m =
     m(element_target b k := (\<lambda>js. if js \<in> (\<lambda>i. [int i]) ` S then element_value L b k m (hd js)
                                  else m (element_target b k) js))"

definition thread_index :: "'e launch \<Rightarrow> thread \<Rightarrow> nat" where
  "thread_index L th = group_x L * block_width L + snd th"

lemma in_block_elements [simp]:
  "element_value (in_block L g) b k m i = element_value L b k m i"
  "element_memory (in_block L g) b k S m = element_memory L b k S m"
  "elements_ok (in_block L g) b k n m = elements_ok L b k n m"
proof -
  show v: "element_value (in_block L g) b k m i = element_value L b k m i" for m i
    by (cases k) simp_all
  show "element_memory (in_block L g) b k S m = element_memory L b k S m"
    "elements_ok (in_block L g) b k n m = elements_ok L b k n m"
    by (simp_all add: element_memory_def elements_ok_def v cong: if_cong)
qed

lemma copy_arrays_distinct [simp]: "fst (copy_arrays b) \<noteq> snd (copy_arrays b)"
  by (cases b) simp_all

lemma element_value_cong:
  assumes "elementwise k" and "\<And>a. a \<noteq> element_target b k \<Longrightarrow> m' a = m a"
  shows "element_value L b k m' i = element_value L b k m i"
  using elementwise_cases [OF assms(1)] assms(2) by auto

lemma element_memory_value:
  "elementwise k \<Longrightarrow> element_value L b k (element_memory L b k S m) i = element_value L b k m i"
  by (rule element_value_cong) (simp_all add: element_memory_def)

lemma element_memory_other: "a \<noteq> element_target b k \<Longrightarrow> element_memory L b k S m a = m a"
  by (simp add: element_memory_def)

section \<open>One thread\<close>

text \<open>The index of a thread is in the range of its type.\<close>

definition index_ok :: "'e launch \<Rightarrow> thread \<Rightarrow> bool" where
  "index_ok L th \<longleftrightarrow> 0 < block_width L \<and> block_width L < 2 ^ 32 \<and> thread_index L th < 2 ^ 31"

text \<open>What the guard and the index expressions of a thread evaluate to.\<close>

lemma index_values:
  assumes "index_ok L th"
  shows "uint32 (Some (int (snd th))) = Some (int (snd th))" "uint32 (Some (int (group_x L))) = Some (int (group_x L))"
    "uint32 (Some (int (block_width L))) = Some (int (block_width L))"
    "int32 (Some (int (group_x L) * int (block_width L))) = Some (int (group_x L) * int (block_width L))"
    "int32 (Some (int (thread_index L th))) = Some (int (thread_index L th))"
    "uint32 (Some (int (thread_index L th))) = Some (int (thread_index L th))"
    "int (group_x L) * int (block_width L) + int (snd th) = int (thread_index L th)"
proof -
  have i: "group_x L * block_width L + snd th < 2 ^ 31" and w: "0 < block_width L" "block_width L < 2 ^ 32"
    using assms by (simp_all add: index_ok_def thread_index_def)
  have "group_x L \<le> group_x L * block_width L" using w(1) by simp
  with i have g: "group_x L < 2 ^ 31" "group_x L * block_width L < 2 ^ 31" "snd th < 2 ^ 31" by linarith+
  show "int32 (Some (int (group_x L) * int (block_width L))) = Some (int (group_x L) * int (block_width L))"
    using int32_nat [OF g(2)] by (simp only: of_nat_mult)
  show "uint32 (Some (int (snd th))) = Some (int (snd th))" "uint32 (Some (int (group_x L))) = Some (int (group_x L))"
    "uint32 (Some (int (block_width L))) = Some (int (block_width L))"
    "int32 (Some (int (thread_index L th))) = Some (int (thread_index L th))"
    "uint32 (Some (int (thread_index L th))) = Some (int (thread_index L th))"
    using g(1,3) w(2) i by (auto simp: thread_index_def intro!: uint32_nat int32_nat simp del: of_nat_add of_nat_mult)
  show "int (group_x L) * int (block_width L) + int (snd th) = int (thread_index L th)"
    by (simp add: thread_index_def)
qed

lemma element_run:
  assumes k: "elementwise k" and n: "param_of L ''n'' = Some (int n)" "n < 2 ^ 31" and ix: "index_ok L th"
    and ok: "thread_index L th < n \<Longrightarrow> element_value L b k m (int (thread_index L th)) = Some v \<and>
      m (element_target b k) [int (thread_index L th)] \<noteq> None"
  shows "\<exists>ws. run_stmts L th (element_program b k) (vs, m) = Some (ws,
    if thread_index L th < n
    then m(element_target b k := (m (element_target b k))([int (thread_index L th)] \<mapsto> v)) else m)"
proof -
  note i = index_values [OF ix]
  have g: "eval L th vs GlobalId = Some (int (thread_index L th))" for vs
    using i(6) by (simp add: thread_index_def)
  have p: "int32 (Some (int n)) = Some (int n)" using n(2) by (intro int32_in_range) simp_all
  have u: "int n mod 4294967296 = int n" using n(2) by simp
  show ?thesis
    using elementwise_cases [OF k] n ok
    by (cases b; elim disjE exE)
      (auto simp: element_program_def i g p u store_def write_elem_def lift2_def simp del: eval.simps(11) split: option.splits)
qed

section \<open>Blocks and grids\<close>

lemma element_program_flat:
  "elementwise k \<Longrightarrow> unrolls L (element_program b k) = Some (element_program b k)"
  "elementwise k \<Longrightarrow> Barrier \<notin> set (element_program b k)"
  "elementwise k \<Longrightarrow> list_all (stores_in {element_target b k}) (element_program b k)"
  by (drule elementwise_cases; cases b; auto simp: element_program_def)+

lemma elements_ok_memory:
  assumes "elementwise k" and "elements_ok L b k n m"
  shows "elements_ok L b k n (element_memory L b k S m)"
proof -
  have "element_memory L b k S m (element_target b k) [int i] \<noteq> None" if "i < n" for i
    using assms(2) that by (auto simp: elements_ok_def element_memory_def)
  then show ?thesis using assms(2) by (simp add: elements_ok_def element_memory_value [OF assms(1)])
qed

lemma element_step:
  assumes k: "elementwise k" and n: "param_of L ''n'' = Some (int n)" "n < 2 ^ 31" and ok: "elements_ok L b k n m"
    and ix: "index_ok L th"
    and g: "arrays_of g = element_memory L b k S m"
  shows "\<exists>h. thread_step L (element_program b k) th g = Some h \<and>
    arrays_of h = element_memory L b k (S \<union> ({thread_index L th} \<inter> {..<n})) m"
proof -
  let ?i = "thread_index L th"
  define v where "v = the (element_value L b k m (int ?i))"
  have "?i < n \<Longrightarrow> element_value L b k (arrays_of g) (int ?i) = Some v \<and> arrays_of g (element_target b k) [int ?i] \<noteq> None"
    using ok elements_ok_memory [OF k ok, of S] unfolding elements_ok_def g v_def
    by (auto simp: element_memory_value [OF k])
  from element_run [OF k n ix this, of "vars_of g th"] obtain ws where
    ws: "run_stmts L th (element_program b k) (vars_of g th, arrays_of g) = Some (ws,
      if ?i < n then (arrays_of g)(element_target b k := (arrays_of g (element_target b k))([int ?i] \<mapsto> v)) else arrays_of g)"
    by blast
  have "?i < n \<Longrightarrow> element_value L b k m (int ?i) = Some v" using ok by (auto simp: elements_ok_def v_def)
  then show ?thesis using ws
    by (auto simp: thread_step_def g element_memory_def fun_eq_iff)
qed

lemma element_block:
  assumes k: "elementwise k" and n: "param_of L ''n'' = Some (int n)" "n < 2 ^ 31" and ok: "elements_ok L b k n m"
  shows "arrays_of g = element_memory L b k S m \<Longrightarrow> \<forall>th \<in> set xs. index_ok L th \<Longrightarrow>
    \<exists>h. fold_opt (thread_step L (element_program b k)) xs g = Some h \<and>
      arrays_of h = element_memory L b k (S \<union> (thread_index L ` set xs \<inter> {..<n})) m"
proof (induction xs arbitrary: S g)
  case (Cons th xs)
  have ix: "index_ok L th" "\<forall>th \<in> set xs. index_ok L th" using Cons.prems(2) by simp_all
  from element_step [OF k n ok ix(1) Cons.prems(1)] obtain h where
    h: "thread_step L (element_program b k) th g = Some h"
    "arrays_of h = element_memory L b k (S \<union> ({thread_index L th} \<inter> {..<n})) m" by blast
  have "S \<union> ({thread_index L th} \<inter> {..<n}) \<union> (thread_index L ` set xs \<inter> {..<n}) =
      S \<union> (thread_index L ` set (th # xs) \<inter> {..<n})" by auto
  with Cons.IH [OF h(2) ix(2)] h(1) show ?case by simp
qed simp

fun is_metal :: "target_backend \<Rightarrow> bool" where
  "is_metal (AppleMetal n b c) = True"
| "is_metal _ = False"

text \<open>A thread owns the element of its index.\<close>

definition element_owner :: "'e launch \<Rightarrow> nat \<Rightarrow> thread \<Rightarrow> string \<Rightarrow> int list set" where
  "element_owner L n th a = (if thread_index L th < n then {[int (thread_index L th)]} else {})"

lemma element_race_free:
  assumes k: "elementwise k" and n: "param_of L ''n'' = Some (int n)" "n < 2 ^ 31"
    and ok: "\<And>th. th \<in> ths \<Longrightarrow> thread_index L th < n \<Longrightarrow>
      element_value L b k (arrays_of g) (int (thread_index L th)) \<noteq> None \<and>
      arrays_of g (element_target b k) [int (thread_index L th)] \<noteq> None"
    and ths: "ths \<subseteq> {0} \<times> UNIV" and ix: "\<And>th. th \<in> ths \<Longrightarrow> index_ok L th"
  shows "race_free L {element_target b k} (element_owner L n) ths (element_program b k) g"
  unfolding race_free_def
proof (intro conjI ballI impI)
  show "list_all (stores_in {element_target b k}) (element_program b k)" by (rule element_program_flat(3) [OF k])
next
  fix th th' :: thread and a assume "th \<in> ths" "th' \<in> ths" "th \<noteq> th'"
  then have "snd th \<noteq> snd th'" using ths by (metis SigmaE prod.sel singletonD subsetD)
  then show "element_owner L n th a \<inter> element_owner L n th' a = {}"
    by (auto simp: element_owner_def thread_index_def)
next
  fix th :: thread assume th: "th \<in> ths"
  let ?m = "own_view {element_target b k} (element_owner L n th) (arrays_of g)"
  let ?i = "thread_index L th"
  have "element_value L b k ?m (int ?i) = element_value L b k (arrays_of g) (int ?i)"
    by (rule element_value_cong [OF k]) (simp add: view_other)
  moreover have "?i < n \<Longrightarrow> ?m (element_target b k) [int ?i] = arrays_of g (element_target b k) [int ?i]"
    by (simp add: view_own element_owner_def)
  ultimately have "?i < n \<Longrightarrow> element_value L b k ?m (int ?i) = Some (the (element_value L b k ?m (int ?i))) \<and>
      ?m (element_target b k) [int ?i] \<noteq> None"
    using ok [OF th] by simp
  from element_run [OF k n ix [OF th] this, of "vars_of g th"] show
    "run_stmts L th (element_program b k) (vars_of g th, ?m) \<noteq> None" by auto
qed

lemma block_of_index:
  fixes i q w :: nat
  assumes "0 < w"
  shows "i div w = q \<longleftrightarrow> (\<exists>t < w. i = q * w + t)"
proof
  assume "i div w = q"
  then have "i = q * w + i mod w" using div_mult_mod_eq [of i w] by simp
  then show "\<exists>t < w. i = q * w + t" using assms by (meson mod_less_divisor)
qed (use assms in auto)

text \<open>The elements of a block of a one-dimensional grid.\<close>

definition element_block_owner :: "nat \<Rightarrow> nat \<Rightarrow> nat \<times> nat \<Rightarrow> string \<Rightarrow> int list set" where
  "element_block_owner w n b a = {[int i] | i. i < n \<and> (0, i div w) = b}"

lemma block_threads_indices:
  assumes "0 < block_width L" and "fst g = 0"
  shows "i \<in> thread_index (in_block L g) ` ({0} \<times> {..<block_width L}) \<longleftrightarrow> (0, i div block_width L) = g"
  using block_of_index [OF assms(1), of i "snd g"] assms(2) by (cases g) (auto simp: thread_index_def image_iff)

lemma element_concurrent:
  assumes k: "elementwise k" and n: "param_of L ''n'' = Some (int n)" "n < 2 ^ 31" and ok: "elements_ok L b k n m"
    and w: "0 < block_width L" "block_width L < 2 ^ 32" and top: "\<And>g. g \<in> B \<Longrightarrow> Suc (snd g) * block_width L \<le> 2 ^ 31"
    and B: "finite B" "B \<subseteq> {0} \<times> UNIV" and cover: "\<And>i. i < n \<Longrightarrow> (0, i div block_width L) \<in> B"
  shows "grid_total L ({0} \<times> {..<block_width L}) (\<lambda>g. Map.empty) (element_program b k) B m (element_memory L b k {..<n} m)"
proof -
  let ?xs = "map (Pair 0) [0..<block_width L] :: thread list" and ?code = "element_program b k"
  let ?P = "element_block_owner (block_width L) n" and ?W = "{element_target b k}"
  have ths: "set ?xs = {0} \<times> {..<block_width L}" and xs: "distinct ?xs" by (auto simp: distinct_map inj_on_def)
  have nL: "param_of (in_block L g) ''n'' = Some (int n)" for g using n(1) by simp
  have ix: "index_ok (in_block L g) th" if "g \<in> B" "th \<in> set ?xs" for g th
  proof -
    have "snd th < block_width L" using that(2) by auto
    then have "snd g * block_width L + snd th < Suc (snd g) * block_width L" by simp
    then show ?thesis using top [OF that(1)] w by (simp add: index_ok_def thread_index_def)
  qed
  have seg: "segments ?code = [?code]" by (rule segments_single [OF element_program_flat(2) [OF k]])
  have none: "element_memory L b k {} m = m" by (simp add: element_memory_def)
  have mine: "i \<in> thread_index (in_block L g) ` set ?xs \<longleftrightarrow> (0, i div block_width L) = g" if "g \<in> B" for g i
    unfolding ths by (rule block_threads_indices [OF w(1)]) (use B(2) that in auto)
  have "\<forall>g \<in> B. \<exists>h. run_segments (in_block L g) (\<lambda>i. ?xs) 0 (segments ?code) (block_start Map.empty m) = Some h \<and>
      arrays_of h = element_memory L b k (thread_index (in_block L g) ` set ?xs \<inter> {..<n}) m"
  proof
    fix g assume g: "g \<in> B"
    have "arrays_of (block_start Map.empty m) = element_memory (in_block L g) b k {} m" by (simp add: block_start_def none)
    from element_block [OF k nL n(2) _ this, where xs = ?xs] ok ix [OF g] show "\<exists>h. run_segments (in_block L g) (\<lambda>i. ?xs) 0 (segments ?code)
        (block_start Map.empty m) = Some h \<and>
      arrays_of h = element_memory L b k (thread_index (in_block L g) ` set ?xs \<inter> {..<n}) m"
      unfolding seg by auto
  qed
  from bchoice [OF this] obtain h where
    h: "\<forall>g \<in> B. run_segments (in_block L g) (\<lambda>i. ?xs) 0 (segments ?code) (block_start Map.empty m) = Some (h g) \<and>
      arrays_of (h g) = element_memory L b k (thread_index (in_block L g) ` set ?xs \<inter> {..<n}) m" ..
  have "grid_total L (set ?xs) (\<lambda>g. Map.empty) ?code B m (element_memory L b k {..<n} m)"
  proof (rule race_free_grid [where W = ?W and P = ?P and h = h, OF B(1) xs element_program_flat(1) [OF k]])
    fix g assume g: "g \<in> B"
    let ?m = "own_view ?W (?P g) m"
    show "list_all (stores_in (?W \<union> dom Map.empty)) ?code" using element_program_flat(3) [OF k] by simp
    have "race_free (in_block L g) ?W (element_owner (in_block L g) n) (set ?xs) ?code (block_start Map.empty ?m)"
    proof (rule element_race_free [OF k nL n(2)])
      fix th assume "th \<in> set ?xs"
      let ?i = "thread_index (in_block L g) th"
      assume i: "?i < n"
      have "(0, ?i div block_width L) = g" using mine [OF g, of ?i] \<open>th \<in> set ?xs\<close> by blast
      then have "?m (element_target b k) [int ?i] = m (element_target b k) [int ?i]"
        using i by (auto simp: view_own element_block_owner_def)
      moreover have "element_value L b k ?m (int ?i) = element_value L b k m (int ?i)"
        by (rule element_value_cong [OF k]) (simp add: view_other)
      ultimately show "element_value (in_block L g) b k (arrays_of (block_start Map.empty ?m)) (int ?i) \<noteq> None \<and>
          arrays_of (block_start Map.empty ?m) (element_target b k) [int ?i] \<noteq> None"
        using ok i by (simp add: elements_ok_def block_start_def)
    qed (use ix [OF g] in auto)
    then show "races_free (in_block L g) ?xs (segments ?code) (block_start Map.empty ?m)" unfolding seg by auto
  next
    fix g a js assume g: "g \<in> B" and a: "a \<in> ?W" and js: "js \<in> ?P g a"
    then obtain i where i: "js = [int i]" "i < n" "(0, i div block_width L) = g" by (auto simp: element_block_owner_def)
    then have "i \<in> thread_index (in_block L g) ` set ?xs \<inter> {..<n}" using mine [OF g] by blast
    then have "arrays_of (h g) a js = element_value L b k m (int i)" using h g a i(1) by (simp add: element_memory_def)
    then show "element_memory L b k {..<n} m a js = arrays_of (h g) a js" using a i(1,2) by (simp add: element_memory_def)
  next
    fix a js assume un: "\<And>g. g \<in> B \<Longrightarrow> a \<notin> ?W \<or> js \<notin> ?P g a"
    have "js \<notin> (\<lambda>i. [int i]) ` {..<n}" if "a = element_target b k"
      using un [OF cover] that by (auto simp: element_block_owner_def)
    then show "element_memory L b k {..<n} m a js = m a js" by (auto simp: element_memory_def)
  qed (use h in \<open>auto simp: element_block_owner_def\<close>)
  then show ?thesis unfolding ths .
qed

text \<open>A negative count: most backends leave memory alone, but the guard in Metal converts the count to an
  unsigned number, so the threads that the grid has go on to read the inputs.\<close>

lemma negative_count:
  assumes k: "elementwise k" and n: "param_of L ''n'' = Some (- int c)" "0 < c" "c \<le> 2 ^ 31" and ix: "index_ok L th"
  shows "\<not> is_metal b \<Longrightarrow> \<exists>ws. run_stmts L th (element_program b k) (vs, m) = Some (ws, m)"
    and "is_metal b \<Longrightarrow> element_value L b k m (int (thread_index L th)) = None \<Longrightarrow>
      run_stmts L th (element_program b k) (vs, m) = None"
proof -
  let ?i = "int (thread_index L th)"
  note i' = index_values [OF ix]
  have g: "eval L th vs GlobalId = Some ?i" for vs using i'(6) by (simp add: thread_index_def)
  have p: "int32 (Some (- int c)) = Some (- int c)" using n(2,3) by (intro int32_in_range) simp_all
  have u: "- int c mod 4294967296 = 4294967296 - int c" using n(2,3) by (simp add: zmod_zminus1_eq_if)
  have less: "?i < 4294967296 - int c" "\<not> ?i < - int c" using ix n(2,3) by (simp_all add: index_ok_def)
  show "\<exists>ws. run_stmts L th (element_program b k) (vs, m) = Some (ws, m)" if "\<not> is_metal b"
    using elementwise_cases [OF k] n(1) less(2) that by (cases b; elim disjE exE) (auto simp: element_program_def i' g p simp del: eval.simps(11))
  show "run_stmts L th (element_program b k) (vs, m) = None"
    if "is_metal b" "element_value L b k m (int (thread_index L th)) = None"
    using elementwise_cases [OF k] n(1) less that
    by (cases b; elim disjE exE) (auto simp: element_program_def i' g p u store_def lift2_def simp del: eval.simps(11) split: option.splits)
qed

section \<open>Properties\<close>

lemma element_grid:
  assumes k: "elementwise k" and n: "param_of L ''n'' = Some (int n)" "n < 2 ^ 31" and ok: "elements_ok L b k n m"
    and w: "block_width L = element_width b" and g: "n \<le> g * element_width b" and top: "g * element_width b \<le> 2 ^ 31"
  shows "grid_total L ({0} \<times> {..<element_width b}) (\<lambda>g. Map.empty) (element_program b k) ({0} \<times> {..<g}) m
    (element_memory L b k {..<n} m)"
proof -
  have w': "0 < block_width L" "block_width L < 2 ^ 32" unfolding w by (cases b; simp)+
  have "Suc (snd h) * block_width L \<le> 2 ^ 31" if "h \<in> {0} \<times> {..<g}" for h
  proof -
    have "Suc (snd h) \<le> g" using that by auto
    then have "Suc (snd h) * block_width L \<le> g * element_width b" unfolding w by (rule mult_le_mono1)
    then show ?thesis using top by simp
  qed
  note top' = this
  have "grid_total L ({0} \<times> {..<block_width L}) (\<lambda>g. Map.empty) (element_program b k) ({0} \<times> {..<g}) m
      (element_memory L b k {..<n} m)"
    by (rule element_concurrent [OF k n ok w' top']) (use g in \<open>auto simp: w less_mult_imp_div_less\<close>)
  then show ?thesis unfolding w .
qed

text \<open>C8: The code that a generator emits for an elementwise operation is, byte for byte, the spelling of a
  program, and when a grid of enough blocks of the width that the generator asks for, at most \<open>2 ^ 31\<close> threads
  in all, runs it, every execution comes to an end, every element of the result below \<open>n\<close> is the positive part, the sum or the copy of
  the elements of the inputs with the same index, and nothing else in memory has changed: on every backend,
  in every interleaving of the threads, and for elements of any type with any arithmetic.\<close>

theorem emitted_elementwise_correct:
  assumes "ops m = [p]" and "elementwise (kind p)"
    and "param_of L ''n'' = Some (int n)" and "n < 2 ^ 31" and "elements_ok L b (kind p) n mem"
    and "block_width L = element_width b" and "n \<le> g * element_width b" and "g * element_width b \<le> 2 ^ 31"
  shows "\<exists>k. generate_for b m = Inr k \<and> payload k = bytes_of (element_source b p) \<and>
    block_size k = (of_nat (element_width b), 1, 1) \<and>
    grid_total L ({0} \<times> {..<element_width b}) (\<lambda>g. Map.empty) (element_program b (kind p)) ({0} \<times> {..<g})
      mem (element_memory L b (kind p) {..<n} mem)"
  using generate_elementwise [OF assms(1,2), of b] element_grid [OF assms(2-8)] by blast

definition sample_vector :: "int arrays" where
  "sample_vector a js = (if hd js < 3 then Some (if a = ''x'' then hd js - 1 else 7) else None)"

definition sample_grid :: "nat \<Rightarrow> int launch" where
  "sample_grid w =
     \<lparr>param_of = [''n'' \<mapsto> 3], group_y = 0, group_x = 0, block_width = w, act_fun = (\<lambda>a. id),
      zero_elem = 0, add_elem = (+), mul_elem = (*), pos_elem = max 0\<rparr>"

definition sample_relu :: omni_op where
  "sample_relu = \<lparr>op_id = 0, kind = Relu, inputs = [''a''], output_name = ''b'', op_attrs = Map.empty,
     result_type = dynamic_tensor 1 F32\<rparr>"

theorem emitted_elementwise_correct_witness:
  "\<exists>mem. grid_total (sample_grid 64) ({0} \<times> {..<64}) (\<lambda>g. Map.empty) (element_program (AmdRocm [] 0 0) Relu)
       ({0} \<times> {..<2}) sample_vector mem \<and>
     map (\<lambda>i. mem ''y'' [i]) [0, 1, 2, 3] = [Some 0, Some 0, Some 1, None]"
proof -
  let ?b = "AmdRocm [] 0 0" and ?mem = "element_memory (sample_grid 64) (AmdRocm [] 0 0) Relu {..<3} sample_vector"
  have relu: "kind sample_relu = Relu" by (simp add: sample_relu_def)
  have w: "element_width ?b = 64" by simp
  have "\<exists>k. generate_for ?b (module_new\<lparr>ops := [sample_relu]\<rparr>) = Inr k \<and>
      payload k = bytes_of (element_source ?b sample_relu) \<and> block_size k = (of_nat (element_width ?b), 1, 1) \<and>
      grid_total (sample_grid 64) ({0} \<times> {..<element_width ?b}) (\<lambda>g. Map.empty)
        (element_program ?b (kind sample_relu)) ({0} \<times> {..<2}) sample_vector
        (element_memory (sample_grid 64) ?b (kind sample_relu) {..<3} sample_vector)"
    by (rule emitted_elementwise_correct)
      (simp_all add: relu elementwise_def elements_ok_def sample_vector_def sample_grid_def)
  then have total: "grid_total (sample_grid 64) ({0} \<times> {..<64}) (\<lambda>g. Map.empty) (element_program ?b Relu)
      ({0} \<times> {..<2}) sample_vector ?mem"
    unfolding relu w by blast
  have "?mem ''y'' [int i] = Some (max 0 (int i - 1))" if "i < 3" for i :: nat
    using that by (simp add: element_memory_def sample_vector_def sample_grid_def image_iff)
  from this [of 0] this [of 1] this [of 2] have "?mem ''y'' [0] = Some 0" "?mem ''y'' [1] = Some 0" "?mem ''y'' [2] = Some 1"
    by simp_all
  moreover have "?mem ''y'' [3] = None"
    by (auto simp: element_memory_def sample_vector_def)
  ultimately have "map (\<lambda>i. ?mem ''y'' [i]) [0, 1, 2, 3] = [Some 0, Some 0, Some 1, None]" by (simp only: list.map)
  with total show ?thesis by (intro exI conjI)
qed

text \<open>C9: A kernel text that the lifter does not recognize is compiled on every backend to a kernel that
  copies its first \<open>n\<close> input elements to its output and does nothing else, whatever the text says, on grids of at
  most \<open>2 ^ 31\<close> threads.\<close>

theorem opaque_pipeline_copies:
  assumes "classify_ptx bs = Opaque h" and "target_backend hw = b" and "copy_arrays b = (src, dst)"
    and "param_of L ''n'' = Some (int n)" and "n < 2 ^ 31"
    and "\<forall>i < n. mem src [int i] \<noteq> None \<and> mem dst [int i] \<noteq> None"
    and "block_width L = element_width b" and "n \<le> g * element_width b" and "g * element_width b \<le> 2 ^ 31"
  shows "\<exists>k p. compile_fresh hw bs kid = Inr k \<and> payload k = bytes_of (element_source b p) \<and> kind p = Opaque h \<and>
    grid_total L ({0} \<times> {..<element_width b}) (\<lambda>g. Map.empty) (element_program b (Opaque h)) ({0} \<times> {..<g})
      mem (mem(dst := (\<lambda>js. if js \<in> (\<lambda>i. [int i]) ` {..<n} then mem src js else mem dst js)))"
proof -
  obtain m p where p: "ops m = [p]" "kind p = Opaque h"
    "compile_fresh hw bs kid = map_sum CodegenError id (generate_for b m)"
    using compile_fresh_lifted [of bs hw kid] assms(1,2) by metis
  have e: "elementwise (Opaque h)" by (simp add: elementwise_def)
  have "elementwise (kind p)" by (simp add: p e)
  from generate_elementwise [OF p(1) this, of b] obtain k where
    k: "generate_for b m = Inr k" "payload k = bytes_of (element_source b p)" by blast
  have ok: "elements_ok L b (Opaque h) n mem" using assms(3,6) by (simp add: elements_ok_def)
  have "element_memory L b (Opaque h) {..<n} mem =
      mem(dst := (\<lambda>js. if js \<in> (\<lambda>i. [int i]) ` {..<n} then mem src js else mem dst js))"
    using assms(3) by (auto simp: element_memory_def fun_eq_iff)
  with element_grid [OF e assms(4,5) ok assms(7-9)] have
    "grid_total L ({0} \<times> {..<element_width b}) (\<lambda>g. Map.empty) (element_program b (Opaque h)) ({0} \<times> {..<g})
      mem (mem(dst := (\<lambda>js. if js \<in> (\<lambda>i. [int i]) ` {..<n} then mem src js else mem dst js)))"
    by (simp only:)
  moreover have "compile_fresh hw bs kid = Inr k" by (simp add: p(3) k(1))
  ultimately show ?thesis using k(2) p(2) by blast
qed

theorem opaque_pipeline_copies_witness:
  "\<exists>hw k p. compile_fresh hw (bytes_of ''ret;'') 0 = Inr k \<and> payload k = bytes_of (element_source (CpuVectorized 1 1) p) \<and>
     grid_total (sample_grid 256) ({0} \<times> {..<256}) (\<lambda>g. Map.empty) (element_program (CpuVectorized 1 1) (kind p))
       ({0} \<times> {..<1}) sample_vector
       (sample_vector(''B'' := (\<lambda>js. if js \<in> (\<lambda>i. [int i]) ` {..<3} then sample_vector ''A'' js else sample_vector ''B'' js)))"
proof -
  let ?hw = "\<lparr>target_backend = CpuVectorized 1 1, vram_bytes = 0, l2_cache_bytes = 0, fp16_tflops = Finite False 0 0,
     memory_bandwidth_gbps = Finite False 0 0, atomic_support = True, tensor_core_support = False, os = Linux\<rparr>"
  let ?b = "CpuVectorized 1 1"
  let ?mem = "sample_vector(''B'' := (\<lambda>js. if js \<in> (\<lambda>i. [int i]) ` {..<3} then sample_vector ''A'' js else sample_vector ''B'' js))"
  obtain h where h: "classify_ptx (bytes_of ''ret;'') = Opaque h"
  proof -
    have "case classify_ptx (bytes_of ''ret;'') of Opaque h \<Rightarrow> True | _ \<Rightarrow> False" by code_simp
    then show thesis using that by (cases "classify_ptx (bytes_of ''ret;'')") simp_all
  qed
  have w: "element_width ?b = 256" by simp
  have "\<exists>k p. compile_fresh ?hw (bytes_of ''ret;'') 0 = Inr k \<and> payload k = bytes_of (element_source ?b p) \<and>
     kind p = Opaque h \<and>
     grid_total (sample_grid 256) ({0} \<times> {..<element_width ?b}) (\<lambda>g. Map.empty) (element_program ?b (Opaque h))
       ({0} \<times> {..<1}) sample_vector ?mem"
    by (rule opaque_pipeline_copies [where hw = ?hw and mem = sample_vector and n = 3 and src = "''A''" and dst = "''B''",
        OF h])
      (simp_all add: sample_grid_def sample_vector_def)
  then obtain k p where kp: "compile_fresh ?hw (bytes_of ''ret;'') 0 = Inr k" "payload k = bytes_of (element_source ?b p)"
     "kind p = Opaque h"
     "grid_total (sample_grid 256) ({0} \<times> {..<element_width ?b}) (\<lambda>g. Map.empty) (element_program ?b (Opaque h))
       ({0} \<times> {..<1}) sample_vector ?mem"
    by (elim exE conjE)
  show ?thesis by (rule exI [of _ ?hw], rule exI [of _ k], rule exI [of _ p]) (intro conjI kp(1,2) kp(4) [folded kp(3), unfolded w])
qed

end
