(* ===== verification/Shim_Abi.thy ===== *)
theory Shim_Abi
  imports Cuda_Runtime Interceptor
begin

text \<open>
  The binary interface of the shim: the types of the exported functions as \<open>interceptor.rs\<close> declares
  them, as \<open>cuda_runtime.rs\<close> and \<open>cuda_driver.rs\<close> define them, and as the CUDA headers that their
  comments quote have them; how arguments travel from a caller to a function; and the bytes of
  \<open>cudaDeviceProp\<close>. The platform is x86-64 with the System V calling convention, where integers and
  pointers are passed in six registers and then on the stack, in units of eight bytes.
\<close>

section \<open>Types and their layout\<close>

text \<open>\<open>C_opaque\<close> is only used behind a pointer.\<close>

datatype c_type =
    C_char | C_u8 | C_int | C_uint | C_size | C_u64
  | C_enum string
  | C_opaque string
  | C_array c_type nat
  | C_ptr c_type
  | C_const_ptr c_type
  | C_struct "c_type list"

abbreviation (input) C_void :: c_type where "C_void \<equiv> C_opaque ''void''"

definition align_up :: "nat \<Rightarrow> nat \<Rightarrow> nat" where
  "align_up n a = (n + a - 1) div a * a"

fun c_align :: "c_type \<Rightarrow> nat" where
  "c_align C_char = 1"
| "c_align C_u8 = 1"
| "c_align C_int = 4"
| "c_align C_uint = 4"
| "c_align C_size = 8"
| "c_align C_u64 = 8"
| "c_align (C_enum s) = 4"
| "c_align (C_opaque s) = 1"
| "c_align (C_array t n) = c_align t"
| "c_align (C_ptr t) = 8"
| "c_align (C_const_ptr t) = 8"
| "c_align (C_struct ts) = foldr max (map c_align ts) 1"

fun c_size :: "c_type \<Rightarrow> nat" where
  "c_size C_char = 1"
| "c_size C_u8 = 1"
| "c_size C_int = 4"
| "c_size C_uint = 4"
| "c_size C_size = 8"
| "c_size C_u64 = 8"
| "c_size (C_enum s) = 4"
| "c_size (C_opaque s) = 0"
| "c_size (C_array t n) = n * c_size t"
| "c_size (C_ptr t) = 8"
| "c_size (C_const_ptr t) = 8"
| "c_size (C_struct ts) =
     align_up (fold (\<lambda>(s, a) off. align_up off a + s) (map (\<lambda>t. (c_size t, c_align t)) ts) 0)
       (foldr max (map c_align ts) 1)"

text \<open>The members of a structure, each with its offset and size.\<close>

type_synonym member = "string \<times> nat \<times> nat"

fun members :: "nat \<Rightarrow> (string \<times> c_type) list \<Rightarrow> member list" where
  "members off [] = []"
| "members off ((x, t) # fs) =
     (x, align_up off (c_align t), c_size t) # members (align_up off (c_align t) + c_size t) fs"

fun members_end :: "nat \<Rightarrow> (string \<times> c_type) list \<Rightarrow> nat" where
  "members_end off [] = off"
| "members_end off ((x, t) # fs) = members_end (align_up off (c_align t) + c_size t) fs"

lemma align_up_ge: "0 < a \<Longrightarrow> n \<le> align_up n a"
  using div_mult_mod_eq [of "n + a - 1" a] mod_less_divisor [of a "n + a - 1"]
  unfolding align_up_def by linarith

lemma align_up_dvd: "a dvd align_up n a"
  by (simp add: align_up_def)

lemma foldr_max_ge: "(1::nat) \<le> foldr max xs 1"
  by (induction xs) auto

lemma c_align_pos: "0 < c_align t"
  by (induction t rule: c_align.induct) (use foldr_max_ge in \<open>auto simp: Suc_le_eq [symmetric]\<close>)

lemma members_end_ge: "off \<le> members_end off fs"
proof (induction off fs rule: members_end.induct)
  case (2 off x t fs)
  then show ?case using align_up_ge [OF c_align_pos, of off t] by simp
qed simp

lemma members_range: "(x, a, n) \<in> set (members off fs) \<Longrightarrow> off \<le> a \<and> a + n \<le> members_end off fs"
proof (induction off fs rule: members.induct)
  case (2 off y t fs)
  then show ?case
    using align_up_ge [OF c_align_pos, of off t] members_end_ge [of "align_up off (c_align t) + c_size t" fs]
    by auto
qed simp

text \<open>Members do not overlap, and each is aligned for its type.\<close>

lemma members_disjoint: "sorted_wrt (\<lambda>(x, a, n) (y, b, k). a + n \<le> b) (members off fs)"
proof (induction off fs rule: members.induct)
  case (2 off x t fs)
  then show ?case by (auto dest: members_range)
qed simp

lemma members_aligned: "(x, a, n) \<in> set (members off fs) \<Longrightarrow> \<exists>t. (x, t) \<in> set fs \<and> c_align t dvd a \<and> n = c_size t"
  by (induction off fs rule: members.induct) (auto simp: align_up_dvd)

lemma map_fst_members: "map fst (members off fs) = map fst fs"
  by (induction off fs rule: members.induct) simp_all

lemma fold_members_end:
  "fold (\<lambda>(s, a) off. align_up off a + s) (map (\<lambda>t. (c_size t, c_align t)) (map snd fs)) off = members_end off fs"
  by (induction off fs rule: members_end.induct) simp_all

section \<open>Writing and reading members\<close>

definition splice :: "nat \<Rightarrow> u8 list \<Rightarrow> u8 list \<Rightarrow> u8 list" where
  "splice off bs im = take off im @ bs @ drop (off + length bs) im"

definition write_member :: "member list \<Rightarrow> string \<times> u8 list \<Rightarrow> u8 list \<Rightarrow> u8 list" where
  "write_member ms xb im =
     (case map_of ms (fst xb) of None \<Rightarrow> im | Some (off, n) \<Rightarrow> splice off (snd xb) im)"

definition read_member :: "member list \<Rightarrow> string \<Rightarrow> u8 list \<Rightarrow> u8 list" where
  "read_member ms x im = (case map_of ms x of None \<Rightarrow> [] | Some (off, n) \<Rightarrow> take n (drop off im))"

lemma length_splice [simp]: "off + length bs \<le> length im \<Longrightarrow> length (splice off bs im) = length im"
  by (simp add: splice_def)

lemma nth_splice:
  "off + length bs \<le> length im \<Longrightarrow> i < length im \<Longrightarrow>
     splice off bs im ! i = (if off \<le> i \<and> i < off + length bs then bs ! (i - off) else im ! i)"
  by (auto simp: splice_def nth_append min_def)

text \<open>A well-formed layout in an image of \<open>sz\<close> bytes.\<close>

definition members_ok :: "nat \<Rightarrow> member list \<Rightarrow> bool" where
  "members_ok sz ms \<longleftrightarrow>
     distinct (map fst ms) \<and> (\<forall>(x, a, n) \<in> set ms. a + n \<le> sz) \<and>
     (\<forall>(x, a, n) \<in> set ms. \<forall>(y, b, k) \<in> set ms. x \<noteq> y \<longrightarrow> a + n \<le> b \<or> b + k \<le> a)"

lemma sorted_wrt_apart:
  "sorted_wrt R xs \<Longrightarrow> x \<in> set xs \<Longrightarrow> y \<in> set xs \<Longrightarrow> x \<noteq> y \<Longrightarrow> R x y \<or> R y x"
  by (induction xs) auto

lemma members_ok_members:
  assumes "distinct (map fst fs)" and "members_end 0 fs \<le> sz"
  shows "members_ok sz (members 0 fs)"
  unfolding members_ok_def
proof (intro conjI ballI)
  show "distinct (map fst (members 0 fs))" using assms by (simp add: map_fst_members)
  show "case m of (x, a, n) \<Rightarrow> a + n \<le> sz" if "m \<in> set (members 0 fs)" for m
    using that assms(2) by (auto dest: members_range)
  show "case m of (x, a, n) \<Rightarrow> \<forall>(y, b, k) \<in> set (members 0 fs). x \<noteq> y \<longrightarrow> a + n \<le> b \<or> b + k \<le> a"
    if "m \<in> set (members 0 fs)" for m
    using sorted_wrt_apart [OF members_disjoint that] by (auto split: prod.splits)
qed

lemma members_ok_map_of:
  assumes "members_ok sz ms" and "map_of ms x = Some (a, n)"
  shows "a + n \<le> sz" and "map_of ms y = Some (b, k) \<Longrightarrow> x \<noteq> y \<Longrightarrow> a + n \<le> b \<or> b + k \<le> a"
proof -
  show "a + n \<le> sz" using assms map_of_SomeD [OF assms(2)] by (auto simp: members_ok_def)
  show "a + n \<le> b \<or> b + k \<le> a" if "map_of ms y = Some (b, k)" "x \<noteq> y"
    using assms(1) map_of_SomeD [OF assms(2)] map_of_SomeD [OF that(1)] that(2)
    unfolding members_ok_def by fastforce
qed

text \<open>Bytes of the length of a member.\<close>

definition fits_member :: "member list \<Rightarrow> string \<times> u8 list \<Rightarrow> bool" where
  "fits_member ms xb \<longleftrightarrow> map_option snd (map_of ms (fst xb)) = Some (length (snd xb))"

lemma length_write_member:
  assumes "members_ok (length im) ms" and "fits_member ms xb"
  shows "length (write_member ms xb im) = length im"
  using assms members_ok_map_of(1) [OF assms(1), of "fst xb"]
  by (auto simp: write_member_def fits_member_def)

lemma read_write_member:
  assumes ok: "members_ok (length im) ms" and fits: "fits_member ms xb" and y: "map_of ms y = Some (b, k)"
  shows "read_member ms y (write_member ms xb im) = (if y = fst xb then snd xb else read_member ms y im)"
proof -
  obtain a where a: "map_of ms (fst xb) = Some (a, length (snd xb))" using fits by (auto simp: fits_member_def)
  note A = members_ok_map_of [OF ok a] and B = members_ok_map_of(1) [OF ok y]
  show ?thesis
  proof (rule nth_equalityI)
    show "length (read_member ms y (write_member ms xb im)) = length (if y = fst xb then snd xb else read_member ms y im)"
      using A(1) B a y length_write_member [OF ok fits] by (auto simp: read_member_def)
  next
    fix i assume "i < length (read_member ms y (write_member ms xb im))"
    then have i: "i < k" "b + i < length im" using A(1) B a y length_write_member [OF ok fits] by (auto simp: read_member_def)
    have "read_member ms y (write_member ms xb im) ! i = splice a (snd xb) im ! (b + i)"
      using i A(1) B by (simp add: read_member_def write_member_def a y)
    also have "\<dots> = (if y = fst xb then snd xb else read_member ms y im) ! i"
      using A(1) A(2) [OF y] B a y i by (auto simp: nth_splice read_member_def)
    finally show "read_member ms y (write_member ms xb im) ! i = (if y = fst xb then snd xb else read_member ms y im) ! i" .
  qed
qed

lemma read_write_members:
  assumes "members_ok (length im) ms" and "list_all (fits_member ms) xbs" and "distinct (map fst xbs)"
    and "map_of ms y = Some (b, k)"
  shows "read_member ms y (fold (write_member ms) xbs im) =
    (case map_of xbs y of None \<Rightarrow> read_member ms y im | Some bs \<Rightarrow> bs)"
  using assms(1-3)
proof (induction xbs arbitrary: im)
  case (Cons xb xbs)
  obtain x bs where xb: "xb = (x, bs)" by (cases xb)
  have "members_ok (length (write_member ms xb im)) ms"
    using Cons.prems by (simp add: length_write_member)
  moreover have "map_of xbs x = None" using Cons.prems(3) by (simp add: xb map_of_eq_None_iff)
  ultimately show ?case
    using Cons.IH Cons.prems read_write_member [OF Cons.prems(1), of xb y, OF _ assms(4)]
    by (auto simp: xb split: option.split)
qed simp

lemma length_write_members:
  "members_ok (length im) ms \<Longrightarrow> list_all (fits_member ms) xbs \<Longrightarrow>
     length (fold (write_member ms) xbs im) = length im"
  by (induction xbs arbitrary: im) (simp_all add: length_write_member)

section \<open>The device properties\<close>

definition device_prop_fields :: "(string \<times> c_type) list" where
  "device_prop_fields =
     [(''name'', C_array C_char 256), (''uuid'', C_array C_u8 16), (''luid'', C_array C_u8 8),
      (''luidDeviceNodeMask'', C_uint), (''totalGlobalMem'', C_size), (''sharedMemPerBlock'', C_size),
      (''regsPerBlock'', C_int), (''warpSize'', C_int), (''memPitch'', C_size), (''maxThreadsPerBlock'', C_int),
      (''maxThreadsDim'', C_array C_int 3), (''maxGridSize'', C_array C_int 3), (''clockRate'', C_int),
      (''totalConstMem'', C_size), (''major'', C_int), (''minor'', C_int), (''textureAlignment'', C_size),
      (''texturePitchAlignment'', C_size), (''deviceOverlap'', C_int), (''multiProcessorCount'', C_int),
      (''kernelExecTimeoutEnabled'', C_int), (''integrated'', C_int), (''canMapHostMemory'', C_int),
      (''computeMode'', C_int), (''concurrentKernels'', C_int), (''ECCEnabled'', C_int), (''pciBusID'', C_int),
      (''pciDeviceID'', C_int), (''pciDomainID'', C_int), (''tccDriver'', C_int), (''asyncEngineCount'', C_int),
      (''unifiedAddressing'', C_int), (''memoryClockRate'', C_int), (''memoryBusWidth'', C_int),
      (''l2CacheSize'', C_int), (''persistingL2CacheMaxSize'', C_int), (''maxThreadsPerMultiProcessor'', C_int),
      (''streamPrioritiesSupported'', C_int), (''globalL1CacheSupported'', C_int),
      (''localL1CacheSupported'', C_int), (''sharedMemPerMultiprocessor'', C_size),
      (''regsPerMultiprocessor'', C_int), (''managedMemory'', C_int), (''isMultiGpuBoard'', C_int),
      (''multiGpuBoardGroupID'', C_int), (''cooperativeLaunch'', C_int), (''cooperativeMultiDeviceLaunch'', C_int),
      (''sharedMemPerBlockOptin'', C_size), (''pageableMemoryAccessUsesHostPageTables'', C_int),
      (''directManagedMemAccessFromHost'', C_int), (''maxBlocksPerMultiProcessor'', C_int),
      (''accessPolicyMaxWindowSize'', C_int), (''reservedSharedMemPerBlock'', C_size),
      (''_padding'', C_array C_u8 184)]"

definition prop_members :: "member list" where
  "prop_members = members 0 device_prop_fields"

text \<open>Little-endian bytes.\<close>

definition le_bytes :: "nat \<Rightarrow> 'a::len word \<Rightarrow> u8 list" where
  "le_bytes n w = map (\<lambda>i. ucast (drop_bit (8 * i) w)) [0..<n]"

primrec le_nat :: "u8 list \<Rightarrow> nat" where
  "le_nat [] = 0"
| "le_nat (b # bs) = unat b + 256 * le_nat bs"

definition i32_bytes :: "i32 \<Rightarrow> u8 list" where
  "i32_bytes w = le_bytes 4 w"

definition usize_bytes :: "usize \<Rightarrow> u8 list" where
  "usize_bytes w = le_bytes 8 w"

text \<open>The assignments of \<open>cudaGetDeviceProperties\<close>, in their order; before them all bytes are zero.\<close>

definition prop_assignments :: "cuda_device_prop \<Rightarrow> (string \<times> u8 list) list" where
  "prop_assignments p =
     [(''name'', prop_name p),
      (''totalGlobalMem'', usize_bytes (totalGlobalMem p)),
      (''major'', i32_bytes (major p)),
      (''minor'', i32_bytes (minor p)),
      (''warpSize'', i32_bytes (warpSize p)),
      (''multiProcessorCount'', i32_bytes (multiProcessorCount p)),
      (''maxThreadsPerBlock'', i32_bytes (maxThreadsPerBlock p)),
      (''maxThreadsDim'', concat (map i32_bytes (maxThreadsDim p))),
      (''maxGridSize'', concat (map i32_bytes (maxGridSize p))),
      (''l2CacheSize'', i32_bytes (l2CacheSize p)),
      (''sharedMemPerBlock'', usize_bytes (sharedMemPerBlock p)),
      (''regsPerBlock'', i32_bytes (regsPerBlock p)),
      (''clockRate'', i32_bytes (clockRate p)),
      (''memoryClockRate'', i32_bytes (memoryClockRate p)),
      (''memoryBusWidth'', i32_bytes (memoryBusWidth p)),
      (''unifiedAddressing'', i32_bytes (unifiedAddressing p)),
      (''managedMemory'', i32_bytes (managedMemory p)),
      (''concurrentKernels'', i32_bytes (concurrentKernels p)),
      (''cooperativeLaunch'', i32_bytes (cooperativeLaunch p)),
      (''asyncEngineCount'', i32_bytes (asyncEngineCount p)),
      (''maxBlocksPerMultiProcessor'', i32_bytes (maxBlocksPerMultiProcessor p)),
      (''sharedMemPerMultiprocessor'', usize_bytes (sharedMemPerMultiprocessor p))]"

definition prop_default :: "u8 list" where
  "prop_default = replicate (c_size (C_struct (map snd device_prop_fields))) 0"

definition prop_image :: "cuda_device_prop \<Rightarrow> u8 list" where
  "prop_image p = fold (write_member prop_members) (prop_assignments p) prop_default"

lemma members_end_prop: "members_end 0 device_prop_fields = 720"
  by (simp add: device_prop_fields_def align_up_def)

text \<open>The comment in the source says 816 bytes.\<close>

lemma prop_struct_size: "c_size (C_struct (map snd device_prop_fields)) = 720"
proof -
  have "foldr max (map c_align (map snd device_prop_fields)) 1 = 8"
    by (simp add: device_prop_fields_def)
  then show ?thesis
    by (simp only: c_size.simps fold_members_end members_end_prop) (simp add: align_up_def)
qed

lemma prop_members_ok: "members_ok 720 prop_members"
  unfolding prop_members_def
  by (rule members_ok_members) (code_simp, simp add: members_end_prop)

lemma length_le_bytes [simp]: "length (le_bytes n w) = n" "length (i32_bytes v) = 4" "length (usize_bytes u) = 8"
  by (simp_all add: le_bytes_def i32_bytes_def usize_bytes_def)

lemma le_nat_le_bytes: "le_nat (le_bytes n w) = unat w mod 256 ^ n"
proof (induction n arbitrary: w)
  case (Suc n)
  have "le_bytes (Suc n) w = ucast w # le_bytes n (drop_bit 8 w)"
    by (simp add: le_bytes_def map_upt_Suc ac_simps del: upt_Suc)
  then show ?case
    by (simp add: Suc.IH unsigned_ucast_eq unat_drop_bit_eq drop_bit_eq_div [where 'a = nat] mod_mult2_eq
        take_bit_eq_mod)
qed (simp add: le_bytes_def)

lemma of_nat_le_nat:
  "word_of_nat (le_nat (i32_bytes v)) = v" "word_of_nat (le_nat (usize_bytes u)) = u"
proof -
  have "unat v < 256 ^ 4" "unat u < 256 ^ 8" using unsigned_less [of v] unsigned_less [of u] by simp_all
  then show "word_of_nat (le_nat (i32_bytes v)) = v" "word_of_nat (le_nat (usize_bytes u)) = u"
    by (simp_all add: le_nat_le_bytes i32_bytes_def usize_bytes_def)
qed

text \<open>The assigned members hold the values; all others are zero.\<close>

definition int_members :: "cuda_device_prop \<Rightarrow> (string \<times> i32) list" where
  "int_members p =
     [(''major'', major p), (''minor'', minor p), (''warpSize'', warpSize p),
      (''multiProcessorCount'', multiProcessorCount p), (''maxThreadsPerBlock'', maxThreadsPerBlock p),
      (''l2CacheSize'', l2CacheSize p), (''regsPerBlock'', regsPerBlock p), (''clockRate'', clockRate p),
      (''memoryClockRate'', memoryClockRate p), (''memoryBusWidth'', memoryBusWidth p),
      (''unifiedAddressing'', unifiedAddressing p), (''managedMemory'', managedMemory p),
      (''concurrentKernels'', concurrentKernels p), (''cooperativeLaunch'', cooperativeLaunch p),
      (''asyncEngineCount'', asyncEngineCount p), (''maxBlocksPerMultiProcessor'', maxBlocksPerMultiProcessor p)]"

definition size_members :: "cuda_device_prop \<Rightarrow> (string \<times> usize) list" where
  "size_members p =
     [(''totalGlobalMem'', totalGlobalMem p), (''sharedMemPerBlock'', sharedMemPerBlock p),
      (''sharedMemPerMultiprocessor'', sharedMemPerMultiprocessor p)]"

definition prop_member :: "string \<Rightarrow> u8 list \<Rightarrow> u8 list" where
  "prop_member x im = read_member prop_members x im"

lemma prop_members_eval:
  "prop_members =
     [(''name'', 0, 256), (''uuid'', 256, 16), (''luid'', 272, 8), (''luidDeviceNodeMask'', 280, 4),
      (''totalGlobalMem'', 288, 8), (''sharedMemPerBlock'', 296, 8), (''regsPerBlock'', 304, 4), (''warpSize'', 308, 4),
      (''memPitch'', 312, 8), (''maxThreadsPerBlock'', 320, 4), (''maxThreadsDim'', 324, 12), (''maxGridSize'', 336, 12),
      (''clockRate'', 348, 4), (''totalConstMem'', 352, 8), (''major'', 360, 4), (''minor'', 364, 4),
      (''textureAlignment'', 368, 8), (''texturePitchAlignment'', 376, 8), (''deviceOverlap'', 384, 4),
      (''multiProcessorCount'', 388, 4), (''kernelExecTimeoutEnabled'', 392, 4), (''integrated'', 396, 4),
      (''canMapHostMemory'', 400, 4), (''computeMode'', 404, 4), (''concurrentKernels'', 408, 4), (''ECCEnabled'', 412, 4),
      (''pciBusID'', 416, 4), (''pciDeviceID'', 420, 4), (''pciDomainID'', 424, 4), (''tccDriver'', 428, 4),
      (''asyncEngineCount'', 432, 4), (''unifiedAddressing'', 436, 4), (''memoryClockRate'', 440, 4),
      (''memoryBusWidth'', 444, 4), (''l2CacheSize'', 448, 4), (''persistingL2CacheMaxSize'', 452, 4),
      (''maxThreadsPerMultiProcessor'', 456, 4), (''streamPrioritiesSupported'', 460, 4),
      (''globalL1CacheSupported'', 464, 4), (''localL1CacheSupported'', 468, 4), (''sharedMemPerMultiprocessor'', 472, 8),
      (''regsPerMultiprocessor'', 480, 4), (''managedMemory'', 484, 4), (''isMultiGpuBoard'', 488, 4),
      (''multiGpuBoardGroupID'', 492, 4), (''cooperativeLaunch'', 496, 4), (''cooperativeMultiDeviceLaunch'', 500, 4),
      (''sharedMemPerBlockOptin'', 504, 8), (''pageableMemoryAccessUsesHostPageTables'', 512, 4),
      (''directManagedMemAccessFromHost'', 516, 4), (''maxBlocksPerMultiProcessor'', 520, 4),
      (''accessPolicyMaxWindowSize'', 524, 4), (''reservedSharedMemPerBlock'', 528, 8), (''_padding'', 536, 184)]"
  by (simp add: prop_members_def device_prop_fields_def align_up_def)

text \<open>Properties whose arrays have the lengths of their members.\<close>

definition prop_arrays_ok :: "cuda_device_prop \<Rightarrow> bool" where
  "prop_arrays_ok p \<longleftrightarrow> length (prop_name p) = 256 \<and> length (maxThreadsDim p) = 3 \<and> length (maxGridSize p) = 3"

lemma fill_properties_arrays: "prop_arrays_ok (fill_properties d)"
  by (simp add: prop_arrays_ok_def fill_properties_def name_array_def Let_def)

lemma length_concat_i32: "length (concat (map i32_bytes ws)) = 4 * length ws"
  by (induction ws) simp_all

lemma assigned_sizes:
  "map (\<lambda>x. map_option snd (map_of prop_members x))
     [''name'', ''totalGlobalMem'', ''major'', ''minor'', ''warpSize'', ''multiProcessorCount'', ''maxThreadsPerBlock'',
      ''maxThreadsDim'', ''maxGridSize'', ''l2CacheSize'', ''sharedMemPerBlock'', ''regsPerBlock'', ''clockRate'',
      ''memoryClockRate'', ''memoryBusWidth'', ''unifiedAddressing'', ''managedMemory'', ''concurrentKernels'',
      ''cooperativeLaunch'', ''asyncEngineCount'', ''maxBlocksPerMultiProcessor'', ''sharedMemPerMultiprocessor''] =
   map Some [256, 8, 4, 4, 4, 4, 4, 12, 12, 4, 8, 4, 4, 4, 4, 4, 4, 4, 4, 4, 4, 8]"
  unfolding prop_members_eval by code_simp

lemma assignments_fit:
  assumes "prop_arrays_ok p"
  shows "list_all (fits_member prop_members) (prop_assignments p)"
proof -
  have "map (\<lambda>xb. map_option snd (map_of prop_members (fst xb))) (prop_assignments p) =
      map (\<lambda>xb. Some (length (snd xb))) (prop_assignments p)"
    using assms assigned_sizes
    by (simp only: prop_assignments_def list.map fst_conv snd_conv length_le_bytes length_concat_i32 prop_arrays_ok_def
        list.inject) simp
  then show ?thesis by (simp add: list_all_iff fits_member_def)
qed

lemma distinct_assignments: "distinct (map fst (prop_assignments p))"
  by (simp add: prop_assignments_def)

lemma read_zeros: "map_of ms x = Some (b, k) \<Longrightarrow> b + k \<le> n \<Longrightarrow> read_member ms x (replicate n 0) = replicate k 0"
  by (simp add: read_member_def)

lemma prop_image_member:
  assumes "prop_arrays_ok p" and "map_of prop_members x = Some (b, k)"
  shows "prop_member x (prop_image p) =
    (case map_of (prop_assignments p) x of None \<Rightarrow> replicate k 0 | Some bs \<Rightarrow> bs)"
proof -
  have "members_ok (length prop_default) prop_members"
    using prop_members_ok by (simp only: prop_default_def prop_struct_size length_replicate)
  from read_write_members [OF this assignments_fit [OF assms(1)] distinct_assignments assms(2)]
  show ?thesis
    using read_zeros [OF assms(2), of 720] members_ok_map_of(1) [OF prop_members_ok assms(2)]
    by (simp only: prop_member_def prop_image_def prop_default_def prop_struct_size split: option.split)
qed

lemma assigned_member:
  assumes "prop_arrays_ok p" and "(x, bs) \<in> set (prop_assignments p)"
  shows "prop_member x (prop_image p) = bs"
proof -
  have "fits_member prop_members (x, bs)" using assms assignments_fit by (auto simp: list_all_iff)
  then obtain b k where "map_of prop_members x = Some (b, k)" by (auto simp: fits_member_def)
  from prop_image_member [OF assms(1) this] show ?thesis
    using map_of_is_SomeI [OF distinct_assignments assms(2)] by simp
qed

lemma members_assigned:
  "list_all (\<lambda>(x, v). (x, i32_bytes v) \<in> set (prop_assignments p)) (int_members p)"
  "list_all (\<lambda>(x, v). (x, usize_bytes v) \<in> set (prop_assignments p)) (size_members p)"
  unfolding int_members_def size_members_def prop_assignments_def
  by (simp_all only: list.pred_inject prod.case list.set insert_iff simp_thms)

lemma members_values:
  assumes "prop_arrays_ok p"
  shows "(x, v) \<in> set (int_members p) \<Longrightarrow> word_of_nat (le_nat (prop_member x (prop_image p))) = v"
    and "(x, u) \<in> set (size_members p) \<Longrightarrow> word_of_nat (le_nat (prop_member x (prop_image p))) = u"
proof -
  show "word_of_nat (le_nat (prop_member x (prop_image p))) = v" if "(x, v) \<in> set (int_members p)"
  proof -
    have "(x, i32_bytes v) \<in> set (prop_assignments p)" using members_assigned(1) [of p] that by (auto simp: list_all_iff)
    then show ?thesis by (simp only: assigned_member [OF assms] of_nat_le_nat)
  qed
  show "word_of_nat (le_nat (prop_member x (prop_image p))) = u" if "(x, u) \<in> set (size_members p)"
  proof -
    have "(x, usize_bytes u) \<in> set (prop_assignments p)" using members_assigned(2) [of p] that by (auto simp: list_all_iff)
    then show ?thesis by (simp only: assigned_member [OF assms] of_nat_le_nat)
  qed
qed

text \<open>Integers at an offset of an image, as an application reads them.\<close>

definition i32_at :: "u8 list \<Rightarrow> nat \<Rightarrow> i32" where
  "i32_at im off = word_of_nat (le_nat (take 4 (drop off im)))"

definition usize_at :: "u8 list \<Rightarrow> nat \<Rightarrow> usize" where
  "usize_at im off = word_of_nat (le_nat (take 8 (drop off im)))"

lemma member_at: "map_of prop_members x = Some (b, k) \<Longrightarrow> prop_member x im = take k (drop b im)"
  by (simp add: prop_member_def read_member_def)

lemma map_at:
  assumes "list_all2 (\<lambda>(x, v) b. map_of prop_members x = Some (b, k)) xvs bs"
    and "\<And>x v. (x, v) \<in> set xvs \<Longrightarrow> f (prop_member x im) = v"
  shows "map (\<lambda>b. f (take k (drop b im))) bs = map snd xvs"
  using assms
proof (induction rule: list_all2_induct)
  case (Cons xv xvs b bs)
  obtain x v where xv: "xv = (x, v)" by (cases xv)
  have "f (prop_member x im) = v" using Cons.prems by (simp add: xv)
  moreover have "prop_member x im = take k (drop b im)" by (rule member_at) (use Cons.hyps in \<open>simp add: xv\<close>)
  ultimately show ?case using Cons.IH Cons.prems by (simp add: xv)
qed simp

lemma ints_at:
  assumes "prop_arrays_ok p"
  shows "map (i32_at (prop_image p)) [360, 364, 308, 388, 320, 448, 304, 348, 440, 444, 436, 484, 408, 496, 432, 520] =
    map snd (int_members p)"
  unfolding i32_at_def
  by (rule map_at [where f = "\<lambda>bs. word_of_nat (le_nat bs)"])
    (simp_all add: int_members_def prop_members_eval members_values [OF assms])

lemma sizes_at:
  assumes "prop_arrays_ok p"
  shows "map (usize_at (prop_image p)) [288, 296, 472] = map snd (size_members p)"
  unfolding usize_at_def
  by (rule map_at [where f = "\<lambda>bs. word_of_nat (le_nat bs)"])
    (simp_all add: size_members_def prop_members_eval members_values [OF assms])

lemma triple_at:
  assumes "take 12 (drop off im) = concat (map i32_bytes [u, v, w])"
  shows "map (i32_at im) [off, off + 4, off + 8] = [u, v, w]"
proof -
  have part: "take 4 (drop (off + k) im) = take 4 (drop k (concat (map i32_bytes [u, v, w])))" if "k + 4 \<le> 12" for k
    using that unfolding assms [symmetric] by (simp add: drop_take add.commute min_def)
  from part [of 0] part [of 4] part [of 8] show ?thesis
    by (simp add: i32_at_def of_nat_le_nat)
qed

section \<open>Signatures\<close>

record signature =
  parameters :: "c_type list"
  result_of :: c_type

definition sig :: "string \<Rightarrow> c_type list \<Rightarrow> c_type \<Rightarrow> string \<times> signature" where
  "sig f ts r = (f, \<lparr>parameters = ts, result_of = r\<rparr>)"

text \<open>The block \<open>extern "C"\<close> of \<open>interceptor.rs\<close>.\<close>

definition declared_symbols :: "(string \<times> signature) list" where
  "declared_symbols =
     [sig ''cudaGetDeviceCount'' [C_ptr C_int] C_uint,
      sig ''cudaGetDeviceProperties'' [C_ptr C_void, C_int] C_uint,
      sig ''cudaSetDevice'' [C_int] C_uint,
      sig ''cudaGetDevice'' [C_ptr C_int] C_uint,
      sig ''cudaMalloc'' [C_ptr (C_ptr C_void), C_size] C_uint,
      sig ''cudaFree'' [C_ptr C_void] C_uint,
      sig ''cudaMemcpy'' [C_ptr C_void, C_const_ptr C_void, C_size, C_uint] C_uint,
      sig ''cudaMemcpyAsync'' [C_ptr C_void, C_const_ptr C_void, C_size, C_uint, C_ptr C_void] C_uint,
      sig ''cudaMemset'' [C_ptr C_void, C_int, C_size] C_uint,
      sig ''cudaStreamCreate'' [C_ptr (C_ptr C_void)] C_uint,
      sig ''cudaStreamDestroy'' [C_ptr C_void] C_uint,
      sig ''cudaStreamSynchronize'' [C_ptr C_void] C_uint,
      sig ''cudaLaunchKernel'' [C_const_ptr C_void, C_uint, C_uint, C_uint, C_uint, C_uint, C_uint,
        C_ptr (C_ptr C_void), C_size, C_ptr C_void] C_uint,
      sig ''cudaGetLastError'' [] C_uint,
      sig ''cudaGetErrorString'' [C_uint] (C_const_ptr C_char),
      sig ''cudaGetErrorName'' [C_uint] (C_const_ptr C_char),
      sig ''cudaDeviceSynchronize'' [] C_uint,
      sig ''cudaRuntimeGetVersion'' [C_ptr C_int] C_uint,
      sig ''cuInit'' [C_uint] C_uint,
      sig ''cuDriverGetVersion'' [C_ptr C_int] C_uint,
      sig ''cuDeviceGetCount'' [C_ptr C_int] C_uint,
      sig ''cuDeviceGet'' [C_ptr C_int, C_int] C_uint,
      sig ''cuDeviceGetAttribute'' [C_ptr C_int, C_int, C_int] C_uint,
      sig ''cuCtxCreate'' [C_ptr (C_ptr C_void), C_uint, C_int] C_uint,
      sig ''cuCtxGetCurrent'' [C_ptr (C_ptr C_void)] C_uint,
      sig ''cuCtxSynchronize'' [] C_uint,
      sig ''cuModuleLoad'' [C_ptr (C_ptr C_void), C_const_ptr C_char] C_uint,
      sig ''cuModuleLoadData'' [C_ptr (C_ptr C_void), C_const_ptr C_void] C_uint,
      sig ''cuModuleGetFunction'' [C_ptr (C_ptr C_void), C_ptr C_void, C_const_ptr C_char] C_uint,
      sig ''cuModuleUnload'' [C_ptr C_void] C_uint,
      sig ''cuLaunchKernel'' [C_ptr C_void, C_uint, C_uint, C_uint, C_uint, C_uint, C_uint, C_uint, C_ptr C_void,
        C_ptr (C_ptr C_void), C_ptr (C_ptr C_void)] C_uint,
      sig ''cuMemAlloc'' [C_ptr C_u64, C_size] C_uint,
      sig ''cuMemFree'' [C_u64] C_uint,
      sig ''cuMemcpyHtoD'' [C_u64, C_const_ptr C_void, C_size] C_uint,
      sig ''cuMemcpyDtoH'' [C_ptr C_void, C_u64, C_size] C_uint]"

text \<open>The definitions in \<open>cuda_runtime.rs\<close> and \<open>cuda_driver.rs\<close>.\<close>

abbreviation (input) cuda_result :: c_type where "cuda_result \<equiv> C_enum ''CudaError''"
abbreviation (input) cu_result :: c_type where "cu_result \<equiv> C_enum ''CuResult''"

definition runtime_symbols :: "(string \<times> signature) list" where
  "runtime_symbols =
     [sig ''cudaGetDeviceCount'' [C_ptr C_int] cuda_result,
      sig ''cudaGetDeviceProperties'' [C_ptr (C_opaque ''cudaDeviceProp''), C_int] cuda_result,
      sig ''cudaSetDevice'' [C_int] cuda_result,
      sig ''cudaGetDevice'' [C_ptr C_int] cuda_result,
      sig ''cudaMalloc'' [C_ptr (C_ptr C_void), C_size] cuda_result,
      sig ''cudaFree'' [C_ptr C_void] cuda_result,
      sig ''cudaMemcpy'' [C_ptr C_void, C_const_ptr C_void, C_size, C_enum ''CudaMemcpyKind''] cuda_result,
      sig ''cudaMemcpyAsync'' [C_ptr C_void, C_const_ptr C_void, C_size, C_enum ''CudaMemcpyKind'', C_ptr C_void] cuda_result,
      sig ''cudaMemset'' [C_ptr C_void, C_int, C_size] cuda_result,
      sig ''cudaStreamCreate'' [C_ptr (C_ptr C_void)] cuda_result,
      sig ''cudaStreamDestroy'' [C_ptr C_void] cuda_result,
      sig ''cudaStreamSynchronize'' [C_ptr C_void] cuda_result,
      sig ''cudaLaunchKernel'' [C_const_ptr C_void, C_uint, C_uint, C_uint, C_uint, C_uint, C_uint,
        C_ptr (C_ptr C_void), C_size, C_ptr C_void] cuda_result,
      sig ''cudaGetLastError'' [] cuda_result,
      sig ''cudaGetErrorString'' [cuda_result] (C_const_ptr C_char),
      sig ''cudaGetErrorName'' [cuda_result] (C_const_ptr C_char),
      sig ''cudaDeviceSynchronize'' [] cuda_result,
      sig ''cudaRuntimeGetVersion'' [C_ptr C_int] cuda_result]"

definition driver_symbols :: "(string \<times> signature) list" where
  "driver_symbols =
     [sig ''cuInit'' [C_uint] cu_result,
      sig ''cuDriverGetVersion'' [C_ptr C_int] cu_result,
      sig ''cuDeviceGetCount'' [C_ptr C_int] cu_result,
      sig ''cuDeviceGet'' [C_ptr C_int, C_int] cu_result,
      sig ''cuDeviceGetAttribute'' [C_ptr C_int, C_int, C_int] cu_result,
      sig ''cuCtxCreate'' [C_ptr (C_ptr C_void), C_uint, C_int] cu_result,
      sig ''cuCtxGetCurrent'' [C_ptr (C_ptr C_void)] cu_result,
      sig ''cuCtxSynchronize'' [] cu_result,
      sig ''cuModuleLoad'' [C_ptr (C_ptr C_void), C_const_ptr C_char] cu_result,
      sig ''cuModuleLoadData'' [C_ptr (C_ptr C_void), C_const_ptr C_void] cu_result,
      sig ''cuModuleGetFunction'' [C_ptr (C_ptr C_void), C_ptr C_void, C_const_ptr C_char] cu_result,
      sig ''cuModuleUnload'' [C_ptr C_void] cu_result,
      sig ''cuLaunchKernel'' [C_ptr C_void, C_uint, C_uint, C_uint, C_uint, C_uint, C_uint, C_uint, C_ptr C_void,
        C_ptr (C_ptr C_void), C_ptr (C_ptr C_void)] cu_result,
      sig ''cuMemAlloc'' [C_ptr C_u64, C_size] cu_result,
      sig ''cuMemFree'' [C_u64] cu_result,
      sig ''cuMemcpyHtoD'' [C_u64, C_const_ptr C_void, C_size] cu_result,
      sig ''cuMemcpyDtoH'' [C_ptr C_void, C_u64, C_size] cu_result]"

text \<open>The launch function in the CUDA headers, as the comment above its definition quotes it; \<open>dim3\<close> is a
  structure of three unsigned integers.\<close>

definition header_launch :: "c_type list" where
  "header_launch =
     [C_const_ptr C_void, C_struct [C_uint, C_uint, C_uint], C_struct [C_uint, C_uint, C_uint],
      C_ptr (C_ptr C_void), C_size, C_ptr C_void]"

section \<open>Passing arguments\<close>

text \<open>The number of eight-byte units of an argument. One of at most two units goes to registers as a
  whole if enough of the six are left, and to the stack otherwise.\<close>

definition units :: "c_type \<Rightarrow> nat" where
  "units t = (c_size t + 7) div 8"

fun place_args :: "nat \<Rightarrow> u64 list list \<Rightarrow> u64 list \<times> u64 list" where
  "place_args free [] = ([], [])"
| "place_args free (a # as) =
     (if length a \<le> free
      then (let (regs, stack) = place_args (free - length a) as in (a @ regs, stack))
      else (let (regs, stack) = place_args free as in (regs, a @ stack)))"

fun fetch_args :: "nat \<Rightarrow> nat list \<Rightarrow> u64 list \<times> u64 list \<Rightarrow> u64 list list" where
  "fetch_args free [] frame = []"
| "fetch_args free (n # ns) (regs, stack) =
     (if n \<le> free then take n regs # fetch_args (free - n) ns (drop n regs, stack)
      else take n stack # fetch_args free ns (regs, drop n stack))"

text \<open>What lies behind the arguments, in registers and on the stack, is not known.\<close>

lemma fetch_place:
  "fetch_args free (map length as) (fst (place_args free as) @ rs, snd (place_args free as) @ ss) = as"
proof (induction as arbitrary: free)
  case (Cons a as)
  then show ?case
    using Cons.IH [of "free - length a"] Cons.IH [of free]
    by (cases "place_args (free - length a) as"; cases "place_args free as") simp
qed simp

lemma units_simps [simp]:
  "units C_int = 1" "units C_uint = 1" "units C_size = 1" "units C_u64 = 1" "units (C_enum s) = 1"
  "units (C_ptr t) = 1" "units (C_const_ptr t) = 1" "units (C_struct [C_uint, C_uint, C_uint]) = 2"
  by (simp_all add: units_def align_up_def)

definition same_passing :: "signature \<Rightarrow> signature \<Rightarrow> bool" where
  "same_passing s t \<longleftrightarrow> map c_size (parameters s) = map c_size (parameters t) \<and>
     c_size (result_of s) = c_size (result_of t)"

text \<open>The launch function of the shim, on a call frame.\<close>

definition launch_frame :: "u64 list \<times> u64 list \<Rightarrow> shim \<Rightarrow> (cuda_error \<times> shim) option" where
  "launch_frame frame st =
     (case fetch_args 6 (replicate 10 1) frame of
        [[func], [gx], [gy], [gz], [bx], [by'], [bz], [args], [shared_mem], [stream]] \<Rightarrow>
          Some (cudaLaunchKernel func (ucast gx, ucast gy, ucast gz) (ucast bx, ucast by', ucast bz) shared_mem stream st)
      | _ \<Rightarrow> None)"

definition unit_of :: "u32 \<Rightarrow> u32 \<Rightarrow> u64" where
  "unit_of lo hi = word_cat hi lo"

lemma ucast_unit_of [simp]: "ucast (unit_of lo hi) = lo"
proof (rule bit_word_eqI)
  fix n assume "n < LENGTH(32)"
  then show "bit (ucast (unit_of lo hi) :: u32) n = bit lo n"
    by (simp add: unit_of_def bit_ucast_iff bit_word_cat_iff word_size)
qed

text \<open>The arguments that a caller passes who was compiled against the headers: each \<open>dim3\<close> is two units, of
  which the upper half of the second one is padding.\<close>

fun header_args :: "u64 \<Rightarrow> dim3 \<Rightarrow> dim3 \<Rightarrow> u32 \<Rightarrow> u32 \<Rightarrow> u64 \<Rightarrow> u64 \<Rightarrow> u64 \<Rightarrow> u64 list list" where
  "header_args func (gx, gy, gz) (bx, by', bz) pad pad' args shared_mem stream =
     [[func], [unit_of gx gy, unit_of gz pad], [unit_of bx by', unit_of bz pad'], [args], [shared_mem], [stream]]"

lemma header_args_units: "map length (header_args f g b p p' a sh s) = map units header_launch"
  by (cases g; cases b) (simp add: header_launch_def)

text \<open>C30: The 720 bytes that \<open>cudaGetDeviceProperties\<close> writes, as a C program on x86-64 reads them: at the
  offsets of the members stand the name of the device, cut to 255 characters and padded with zeros, its memory, its
  compute capability, warp size, multiprocessors, threads per block and L2 cache, then the fixed values that the shim
  claims for every device; every member without an assignment is zero.\<close>

theorem device_prop_image:
  assumes "cudaGetDeviceProperties ptr device st = (cudaSuccess, Some p)"
    and "v = virtual_devices st ! unat (scast device :: usize)" and "im = prop_image p"
  shows "length im = 720 \<and>
    take 256 im = take 255 (bytes_of (device_label v)) @ replicate (256 - min (length (device_label v)) 255) 0 \<and>
    map (usize_at im) [288, 296, 472] = [total_memory v, 49152, 102400] \<and>
    map (i32_at im) [360, 364, 308, 388, 320, 448] =
      [compute_capability_major v, compute_capability_minor v, warp_size v, multiprocessor_count v,
       max_threads_per_block v, l2_cache_size v] \<and>
    map (i32_at im) [304, 348, 440, 444, 436, 484, 408, 496, 432, 520] =
      [65536, 1800000, 9001000, 5120, 1, 1, 1, 1, 3, 32] \<and>
    map (i32_at im) [324, 328, 332, 336, 340, 344] = [1024, 1024, 64, 2147483647, 65535, 65535] \<and>
    (\<forall>x b k. map_of prop_members x = Some (b, k) \<longrightarrow> map_of (prop_assignments p) x = None \<longrightarrow>
       take k (drop b im) = replicate k 0)"
proof -
  have p: "p = fill_properties v"
    using assms(1) by (simp add: assms(2) cudaGetDeviceProperties_def Let_def split: if_splits)
  then have ok: "prop_arrays_ok p" by (simp add: fill_properties_arrays)
  have "members_ok (length prop_default) prop_members"
    using prop_members_ok by (simp only: prop_default_def prop_struct_size length_replicate)
  from length_write_members [OF this assignments_fit [OF ok]] have len: "length im = 720"
    by (simp only: assms(3) prop_image_def) (simp only: prop_default_def prop_struct_size length_replicate)
  have "prop_member ''name'' im = name_array (device_label v)"
    unfolding assms(3) by (rule assigned_member [OF ok]) (simp add: prop_assignments_def p fill_properties_def)
  moreover have "prop_member ''name'' im = take 256 im" using member_at [of "''name''" 0 256] by (simp add: prop_members_eval)
  ultimately have name: "take 256 im = take 255 (bytes_of (device_label v)) @ replicate (256 - min (length (device_label v)) 255) 0"
    by (simp add: name_array_def Let_def min_def)
  have dims: "prop_member ''maxThreadsDim'' im = concat (map i32_bytes [1024, 1024, 64])"
    "prop_member ''maxGridSize'' im = concat (map i32_bytes [2147483647, 65535, 65535])"
    unfolding assms(3) by (rule assigned_member [OF ok]; simp add: prop_assignments_def p fill_properties_def)+
  have "prop_member ''maxThreadsDim'' im = take 12 (drop 324 im)" "prop_member ''maxGridSize'' im = take 12 (drop 336 im)"
    by (rule member_at; simp add: prop_members_eval)+
  note triples = triple_at [OF this(1) [symmetric, unfolded dims(1)]] triple_at [OF this(2) [symmetric, unfolded dims(2)]]
  have zero: "take k (drop b im) = replicate k 0" if "map_of prop_members x = Some (b, k)" "map_of (prop_assignments p) x = None"
    for x b k
    using prop_image_member [OF ok that(1)] member_at [OF that(1)] that(2) by (simp add: assms(3))
  show ?thesis
    using len name zero triples ints_at [OF ok] sizes_at [OF ok]
    by (simp add: assms(3) int_members_def size_members_def p fill_properties_def)
qed

theorem device_prop_image_witness:
  "\<exists>p. cudaGetDeviceProperties 4096 0 (shim_init (\<lambda>a. 0)) = (cudaSuccess, Some p) \<and> length (prop_image p) = 720 \<and>
     i32_at (prop_image p) 348 = 1800000 \<and> usize_at (prop_image p) 296 = 49152"
proof -
  let ?v = "virtual_devices (shim_init (\<lambda>a. 0)) ! unat (scast (0 :: i32) :: usize)"
  have get: "cudaGetDeviceProperties 4096 0 (shim_init (\<lambda>a. 0)) = (cudaSuccess, Some (fill_properties ?v))"
    by (simp add: cudaGetDeviceProperties_def shim_init_def detect_virtual_devices_def)
  from device_prop_image [OF get refl refl] get show ?thesis by auto
qed

text \<open>The declarations of the dispatch table agree with the definitions: the same names in the same
  order, and for every function the same passing of arguments and results.\<close>

lemma declared_symbols_match:
  "map fst declared_symbols = runtime_hooks @ driver_hooks"
  "list_all2 (\<lambda>s t. fst s = fst t \<and> same_passing (snd s) (snd t)) declared_symbols (runtime_symbols @ driver_symbols)"
proof -
  show "map fst declared_symbols = runtime_hooks @ driver_hooks"
    by (simp add: declared_symbols_def sig_def runtime_hooks_def driver_hooks_def)
  show "list_all2 (\<lambda>s t. fst s = fst t \<and> same_passing (snd s) (snd t)) declared_symbols (runtime_symbols @ driver_symbols)"
    by (simp add: declared_symbols_def runtime_symbols_def driver_symbols_def sig_def same_passing_def)
qed

text \<open>A kernel launch through the dispatch table, which declares ten arguments, is recorded with the
  dimensions of the caller. A launch by a program that was compiled against the CUDA headers, where
  the dimensions are two structures, is not: the shim takes the third grid dimension for the second
  one, the width of the block for the depth of the grid, the depth of the block for its width, pointers
  for the rest, and looks for the stream where the caller has put nothing.\<close>

lemma launch_passing:
  "launch_frame (fst (place_args 6 [[f], [ucast gx], [ucast gy], [ucast gz], [ucast bx], [ucast by'], [ucast bz], [a], [sh], [s]]) @ rs,
      snd (place_args 6 [[f], [ucast gx], [ucast gy], [ucast gz], [ucast bx], [ucast by'], [ucast bz], [a], [sh], [s]]) @ ss) st =
     Some (cudaLaunchKernel f (gx, gy, gz) (bx, by', bz) sh s st) \<and>
   launch_frame (fst (place_args 6 (header_args f (gx, gy, gz) (bx, by', bz) pad pad' a sh s)) @ rs,
      snd (place_args 6 (header_args f (gx, gy, gz) (bx, by', bz) pad pad' a sh s)) @ [j, k] @ ss) st =
     Some (cudaLaunchKernel f (gx, gz, bx) (bz, ucast a, ucast sh) j k st)"
  by (simp add: launch_frame_def numeral_eq_Suc ucast_up_down)

end
