(* ===== verification/Cli_Main.thy ===== *)
theory Cli_Main
  imports Cli
begin

text \<open>
  The entry point of the command line tool, \<open>omni-cli/src/main.rs\<close>, and the loop of a worker in
  \<open>commands.rs\<close>. The argument parser of the crate clap is a parameter: it either gives a command or
  ends the process with a code, after printing help or an error.
\<close>

section \<open>The process\<close>

text \<open>The struct \<open>Cli\<close> has the command as its only field.\<close>

record cli =
  command :: cli_command

datatype parsed = ParsedArgs cli | ParserExit int

datatype process_end = ExitCode int | StillRunning network_message omni_node

text \<open>\<open>main\<close> returns the error of a command, which becomes exit code 1.\<close>

definition main_entry ::
  "(string list \<Rightarrow> parsed) \<Rightarrow> (child \<Rightarrow> string + int) \<Rightarrow> (string \<Rightarrow> string \<Rightarrow> string) \<Rightarrow> machine \<Rightarrow> u8 list \<Rightarrow>
   string list \<Rightarrow> process_end" where
  "main_entry parse_args spawn style mc raw_peer argv =
     (case parse_args argv of
        ParserExit code \<Rightarrow> ExitCode code
      | ParsedArgs c \<Rightarrow>
          (case execute spawn style mc raw_peer (command c) of
             Failed e \<Rightarrow> ExitCode 1
           | Serving msg node \<Rightarrow> StillRunning msg node
           | _ \<Rightarrow> ExitCode 0))"

text \<open>When the process ends with success and when it goes on: only a program that cannot be started makes a
  parsed command fail, so the exit code does not tell what the wrapped program returned.\<close>

lemma main_exit:
  assumes "parse_args argv = ParsedArgs \<lparr>command = c\<rparr>"
  shows "main_entry parse_args spawn style mc raw_peer argv =
    (case c of
       RunProgram exe args \<Rightarrow>
         ExitCode (if is_ok (spawn \<lparr>executable = exe, child_args = args, added_env = injection_env mc\<rparr>) then 0 else 1)
     | WorkerJoin bind gb \<Rightarrow>
         StillRunning (Heartbeat (worker_profile (projr (probe mc)) (node_peer_id (node_new bind raw_peer)) gb) 0)
           (node_new bind raw_peer)
     | _ \<Rightarrow> ExitCode 0)"
proof (cases c)
  case (RunProgram exe args)
  then show ?thesis using assms
    by (cases "spawn \<lparr>executable = exe, child_args = args, added_env = injection_env mc\<rparr>")
      (simp_all add: main_entry_def handle_run_def)
next
  case Benchmark
  obtain p k where "handle_benchmark mc = Inr (p, k)" using benchmark_succeeds by blast
  then show ?thesis using Benchmark assms by (simp add: main_entry_def)
next
  case (WorkerJoin bind gb)
  obtain hw where "probe mc = Inr hw" using probe_usable by blast
  then show ?thesis using WorkerJoin assms by (simp add: main_entry_def worker_join_def Let_def)
qed (simp add: main_entry_def assms)

section \<open>The loop of a worker\<close>

text \<open>One round sends the message, sleeps and prints a line with the new value of \<open>uptime\<close>.\<close>

definition heartbeat_line :: "(string \<Rightarrow> string \<Rightarrow> string) \<Rightarrow> u64 \<Rightarrow> string" where
  "heartbeat_line style uptime =
     style ''bright_cyan'' ''[Heartbeat]'' @ '' Sent Heartbeat packet. Uptime = '' @ dec (unat uptime) @ ''s, ActiveTasks = 0''"

definition heartbeat_round ::
  "(string \<Rightarrow> string \<Rightarrow> string) \<Rightarrow> network_message \<Rightarrow> omni_node \<times> u64 \<times> string list \<Rightarrow>
   (omni_node \<times> u64 \<times> string list) option" where
  "heartbeat_round style msg s =
     (let (node, uptime, printed) = s in
      case offload_task msg node of
        None \<Rightarrow> None
      | Some node' \<Rightarrow> Some (node', uptime + 10, printed @ [heartbeat_line style (uptime + 10)]))"

inductive worker_loop ::
  "(string \<Rightarrow> string \<Rightarrow> string) \<Rightarrow> network_message \<Rightarrow> omni_node \<times> u64 \<times> string list \<Rightarrow>
   omni_node \<times> u64 \<times> string list \<Rightarrow> bool" for style msg s where
  loop_start: "worker_loop style msg s s"
| loop_round: "worker_loop style msg s t \<Longrightarrow> heartbeat_round style msg t = Some u \<Longrightarrow> worker_loop style msg s u"
| loop_swarm: "worker_loop style msg s (n, u, p) \<Longrightarrow> swarm_step n = Some n' \<Longrightarrow> worker_loop style msg s (n', u, p)"

text \<open>The loop is the one of \<open>join_reach\<close>, with what it prints: the uptime counts ten seconds per line, and
  the message that goes out never carries it.\<close>

lemma worker_loop_reach: "worker_loop style msg s t \<Longrightarrow> join_reach msg (fst s) (fst t)"
proof (induction rule: worker_loop.induct)
  case (loop_round t u)
  then show ?case by (auto simp: heartbeat_round_def split: prod.splits option.splits intro: join_reach.intros)
qed (auto intro: join_reach.intros)

lemma worker_loop_printed:
  "worker_loop style msg (n, 0, []) t \<Longrightarrow>
     fst (snd t) = word_of_nat (10 * length (snd (snd t))) \<and>
     snd (snd t) = map (\<lambda>i. heartbeat_line style (word_of_nat (10 * Suc i))) [0..<length (snd (snd t))]"
proof (induction rule: worker_loop.induct)
  case (loop_round t u)
  then show ?case
    by (auto simp: heartbeat_round_def algebra_simps split: prod.splits option.splits)
qed simp_all

lemma heartbeats_report_no_uptime:
  assumes "worker_join mc raw addr gb = Inr (msg, n)" and "worker_loop style msg (n, 0, []) t"
  shows "\<exists>w. set (tx_queue (fst t)) \<subseteq> {Heartbeat w 0}"
proof -
  have "set (tx_queue (fst t)) \<subseteq> {msg}"
    using joined_worker_registers_itself [OF assms(1)] worker_loop_reach [OF assms(2)] by simp
  moreover obtain w where "msg = Heartbeat w 0"
    using assms(1) by (auto simp: worker_join_def Let_def split: sum.splits)
  ultimately show ?thesis by blast
qed

end
