(* ===== verification/Obfuscator_Test.thy ===== *)
theory Obfuscator_Test
  imports Obfuscator_Return
begin

text \<open>
  The unit test of \<open>omni-net/src/crypto/obfuscator.rs\<close> that generates a random matrix of dimension 3. It is a
  function of the arithmetic and of the draws; None stands for a generation that has not
  returned after \<open>fuel\<close> attempts. In exact arithmetic the test passes for all draws in the range of
  the code.
\<close>

definition close_f32 :: "f32 \<Rightarrow> f32 \<Rightarrow> bool" where
  "close_f32 x y = flt (fabs (fsub binary32 x y)) (literal binary32 1 1000)"

definition close_rat :: "rat \<Rightarrow> rat \<Rightarrow> bool" where
  "close_rat x y \<longleftrightarrow> \<bar>x - y\<bar> < 1 / 1000"

definition test_matrix_inversion_and_obfuscate ::
  "'a arith \<Rightarrow> ('a \<Rightarrow> 'a \<Rightarrow> bool) \<Rightarrow> ('a \<Rightarrow> 'a \<Rightarrow> bool) \<Rightarrow> (nat \<Rightarrow> 'a) \<Rightarrow> nat \<Rightarrow> (nat \<Rightarrow> nat \<Rightarrow> nat \<Rightarrow> 'a) \<Rightarrow>
   bool option" where
  "test_matrix_inversion_and_obfuscate R same close lit fuel draws =
     map_option (\<lambda>matrix.
         let original_tensor = map lit [1, 2, 3, 4, 5, 6] in
         case obfuscate R matrix original_tensor 2 of
           Inl _ \<Rightarrow> False
         | Inr obfuscated \<Rightarrow>
             \<not> list_all2 same original_tensor obfuscated \<and>
             (case restore R matrix obfuscated 2 of
                Inl _ \<Rightarrow> False
              | Inr restored \<Rightarrow> list_all (\<lambda>i. close (original_tensor ! i) (restored ! i)) [0..<6]))
       (generate fuel R (lit 15) 3 draws)"

abbreviation single_precision_test :: "nat \<Rightarrow> (nat \<Rightarrow> nat \<Rightarrow> nat \<Rightarrow> f32) \<Rightarrow> bool option" where
  "single_precision_test \<equiv>
     test_matrix_inversion_and_obfuscate f32_arith feq close_f32 (\<lambda>n. literal binary32 n 1)"

abbreviation exact_test :: "nat \<Rightarrow> (nat \<Rightarrow> nat \<Rightarrow> nat \<Rightarrow> rat) \<Rightarrow> bool option" where
  "exact_test \<equiv> test_matrix_inversion_and_obfuscate rat_arith (=) close_rat of_nat"

lemma generate_data:
  "generate fuel R diagonal d draws = Some p \<Longrightarrow> \<exists>n. data p = random_matrix R diagonal d (draws n)"
  by (induction fuel arbitrary: draws) (auto simp: Let_def split: option.splits)

lemma sum_3: "(\<Sum>k < (3::nat). f k) = f 0 + f 1 + (f 2 :: rat)"
  by (simp add: numeral_3_eq_3 numeral_2_eq_2)

text \<open>No matrix with such entries leaves the tensor of the test as it is.\<close>

lemma tensor_changes:
  fixes draw :: "nat \<Rightarrow> nat \<Rightarrow> rat"
  assumes range: "\<And>i j. - 5 \<le> draw i j \<and> draw i j \<le> 5"
  defines "t \<equiv> map rat_of_nat [1, 2, 3, 4, 5, 6]"
  shows "times_matrix rat_arith 3 t (random_matrix rat_arith 15 3 draw) 2 \<noteq> t"
proof
  let ?m = "random_matrix rat_arith 15 3 draw"
  assume eq: "times_matrix rat_arith 3 t ?m 2 = t"
  have m: "sq 3 ?m r c = draw r c + (if r = c then 15 else 0)" if "r < 3" "c < 3" for r c
    using random_matrix_sq [of 15 3 draw] that by blast
  have "sq 3 t r c = (\<Sum>k < 3. sq 3 t r k * sq 3 ?m k c)" if "r < 2" "c < 3" for r c
    using times_matrix_sq [of 3 t ?m 2] that unfolding eq by blast
  from this [of 0 0] this [of 1 0]
  have e: "1 = (draw 0 0 + 15) + 2 * draw 1 0 + 3 * draw 2 0"
    "4 = 4 * (draw 0 0 + 15) + 5 * draw 1 0 + 6 * draw 2 0"
    unfolding sum_3 by (simp_all add: m) (simp_all add: sq_def t_def)
  have "- 5 \<le> draw 0 0" "draw 2 0 \<le> 5" using range by auto
  moreover have "draw 0 0 = draw 2 0 - 14"
  proof -
    have "3 * draw 0 0 = 3 * (draw 2 0 - 14)" using e by (simp add: algebra_simps)
    then show ?thesis by simp
  qed
  ultimately show False by simp
qed

lemma exact_test_passes:
  assumes "\<And>n i j. - 5 \<le> draws n i j \<and> draws n i j \<le> 5"
  shows "exact_test fuel draws \<noteq> Some False"
    and "generate fuel rat_arith 15 3 draws \<noteq> None \<Longrightarrow> exact_test fuel draws = Some True"
proof -
  have *: "exact_test fuel draws = Some True" if g: "generate fuel rat_arith 15 3 draws = Some p" for p
  proof -
    let ?t = "map rat_of_nat [1, 2, 3, 4, 5, 6]"
    note inv = generate_inverse [OF g]
    obtain n where n: "data p = random_matrix rat_arith 15 3 (draws n)" using generate_data [OF g] by blast
    let ?o = "times_matrix rat_arith 3 ?t (data p) 2"
    have len: "length ?t = 2 * 3" by simp
    have len': "length ?o = 2 * 3" using times_matrix_sq [of 3 ?t "data p" 2] by simp
    have t: "times_matrix rat_arith 3 ?o (mat_inverse p) 2 = ?t"
      by (rule restore_obfuscate [OF invert_right_inverse [OF conjunct2 [OF inv]] len])
    have "obfuscate rat_arith p ?t 2 = Inr ?o" "restore rat_arith p ?o 2 = Inr ?t"
      using inv len len' t by (simp_all only: obfuscate_def restore_def simp_thms if_False)
    moreover have "?o \<noteq> ?t" unfolding n by (rule tensor_changes) (rule assms)
    moreover have "list_all (\<lambda>i. close_rat (?t ! i) (?t ! i)) [0..<6]" by (simp add: close_rat_def list_all_iff)
    ultimately show ?thesis
      by (simp only: test_matrix_inversion_and_obfuscate_def g Let_def list_all2_eq [symmetric] option.map sum.case
          of_nat_numeral) simp
  qed
  show "exact_test fuel draws \<noteq> Some False"
    using * by (cases "generate fuel rat_arith 15 3 draws") (auto simp: test_matrix_inversion_and_obfuscate_def)
  show "generate fuel rat_arith 15 3 draws \<noteq> None \<Longrightarrow> exact_test fuel draws = Some True"
    using * by auto
qed

end
