(* ===== verification/Spec2Isabelle.thy ===== *)
theory Spec2Isabelle
  imports Prelude Allocator Domain_Bytes Ieee_Float Ieee_Rounding Pager Hardware Dialect Passes Codegen Codegen_Amd Codegen_Metal
    Codegen_Spirv Tiled_Matmul Jit Runtime Router Router_Scores P2p Tee Obfuscator Obfuscator_Return Shim_State
    Cuda_Runtime Cuda_Driver Interceptor Shim_Calls Shim_Threads Cli Dialect_Dump Passes_Shape Simt_Kernels
    Emitted_Code Jit_Threads Shim_Api Shim_Log Core_Tests Shim_Tests Jit_Latency
    Kernel_Language Kernel_Steps Grid_Steps Matmul_Code Matmul_Run Matmul_Threads Emitted_Matmul Elementwise_Code Emitted_Elementwise Shim_Abi Cli_Main Obfuscator_Test
begin

text \<open>
  OmniCompute presents itself to an application as the CUDA libraries and runs the work elsewhere.
  Four Rust crates make it up: \<open>omni-shim\<close> exports the CUDA functions, \<open>omni-core\<close> compiles kernels
  and manages memory, \<open>omni-net\<close> distributes work over peers, \<open>omni-cli\<close> is the command line tool.
  This development models all four. It fixes a 64-bit target and the release profile, in which
  integer operations wrap around.

  \<^bold>\<open>omni-core\<close>.
  \<^item> \<open>Allocator\<close> (\<open>memory/allocator.rs\<close>): the virtual address allocator with its two byte counters;
    every mutex-protected operation is one step. Invariant, refinement of a ledger over natural
    numbers, capacity, errors. The locale \<open>residency\<close> is the part the pager uses. \<open>Domain_Bytes\<close>:
    the bytes of each domain and what migration moves between them.
  \<^item> \<open>Pager\<close> (\<open>memory/pager.rs\<close>): the command channel and the worker thread. The worker's program is
    given twice, as the loop over commands and as atomic steps that interleave with clients and
    other threads; the steps refine the loop. Its bandwidth estimate is computed in \<open>Ieee_Float\<close>,
    an executable model of IEEE 754 arithmetic, rounding to nearest even; \<open>Ieee_Rounding\<close> proves
    that its operations are the exact ones rounded once, and monotone.
  \<^item> \<open>Hardware\<close> (\<open>hardware.rs\<close>): the probe over a record that describes the machine.
  \<^item> \<open>Dialect\<close> (\<open>mlir/dialect.rs\<close>): tensor types, operations, modules and the lifter from PTX bytes.
    \<open>Dialect_Dump\<close>: the printed form of modules and what can be read back from it.
  \<^item> \<open>Passes\<close> (\<open>mlir/passes.rs\<close>): folding, fusion, tiling, dead code elimination. A reference
    semantics of modules (values of tensors, with uninterpreted primitives) states what the passes
    preserve, under which conditions, and where they do not. \<open>Passes_Shape\<close>: what an optimized
    module looks like, without any conditions.
  \<^item> \<open>Codegen\<close>, \<open>Codegen_Amd\<close>, \<open>Codegen_Metal\<close>, \<open>Codegen_Spirv\<close> (\<open>codegen/\<close>): the emitted source text,
    line by line; the locale \<open>code_generator\<close> is the contract that the three generators meet.
    \<open>Tiled_Matmul\<close> is the algorithm of the emitted matrix kernels as sums of integers, and \<open>Simt_Kernels\<close>
    runs it thread by thread, with the launch configurations that the generators ask for. \<open>Emitted_Code\<close>: the
    entry points in the text, over the locale \<open>kernel_emitter\<close>, fused additions, and the bounds
    of shared memory.
  \<^item> \<open>Kernel_Language\<close>: the statements that the emitted kernels consist of, how each target language
    spells them, and their execution by one thread, by a block with barriers and by a grid.
    \<open>Matmul_Code\<close>: the emitted text of the three generators is, character by character, the spelling
    of one program. \<open>Matmul_Run\<close>: what the program leaves in the tiles, the sums and the result, for elements of
    any type with any arithmetic (binary16, binary32, integers), since the order of the additions is part of the
    statement; the locale \<open>tile_indexing\<close> covers the two ways to index shared memory. \<open>Kernel_Steps\<close>: the threads of a block statement by statement,
    in all interleavings, and why they agree when a segment has no races; \<open>Grid_Steps\<close>: the same for all
    threads of all blocks of a grid, each block at its own barrier; \<open>Matmul_Threads\<close>: the matrix kernels
    have no races. \<open>Emitted_Matmul\<close>: from \<open>generate\<close> to the product in memory. \<open>Elementwise_Code\<close> and
    \<open>Emitted_Elementwise\<close> do the same for the rectification, the addition and the copy of unknown kernels.
  \<^item> \<open>Jit\<close> (\<open>jit.rs\<close>): lifting, passes, generation and the kernel cache; the locale \<open>hash_step\<close> covers
    both hash functions of the crate. \<open>Jit_Threads\<close>: several threads on one engine.
  \<^item> \<open>Runtime\<close> (\<open>lib.rs\<close>): the initialization that puts these together.

  \<^bold>\<open>omni-net\<close>. \<open>Router\<close> (\<open>scheduler/router.rs\<close>): blind splitting and scheduling by score;
  \<open>Router_Scores\<close>: the order that scores and priorities give to workers and operations.
  \<open>P2p\<close> (\<open>p2p/\<close>): nodes with their bounded queue and routing table. \<open>Tee\<close> (\<open>crypto/tee.rs\<close>):
  attestation reports and encryption, over a cipher given as a parameter. \<open>Obfuscator\<close>
  (\<open>crypto/obfuscator.rs\<close>): Gauss-Jordan inversion on flat arrays, over a record of arithmetic
  operations; with binary32 operations it is the code, with rational ones it is proved correct.
  \<open>Obfuscator_Return\<close>: draws for which the generation of a matrix returns, in binary32 and exactly.

  \<^bold>\<open>omni-shim\<close>. \<open>Shim_State\<close> (\<open>lib.rs\<close>): the global tables and the process memory. \<open>Cuda_Runtime\<close>,
  \<open>Cuda_Driver\<close>, \<open>Interceptor\<close> (files of the same names): every exported function, the dispatch table
  and the statistics. \<open>Shim_Calls\<close>: the states that sequences of calls reach, with their invariant,
  the freshness of handles, copies and stream queues. \<open>Shim_Threads\<close>: the two halves of allocation
  and release interleaved between threads. \<open>Shim_Api\<close>: the two APIs side by side; the locales
  \<open>block_source\<close>, \<open>block_sink\<close> and \<open>memory_api\<close> are the contract of allocation that both meet, in any
  combination. \<open>Shim_Log\<close>: the banner, the loading of the library and the status report. \<open>Shim_Abi\<close>: the
  signatures that the interceptor declares and the two APIs define, how arguments are passed, and the bytes
  of \<open>cudaDeviceProp\<close>.

  \<^bold>\<open>omni-cli\<close>. \<open>Cli\<close> (\<open>commands.rs\<close>): what the commands do besides printing their progress. \<open>Cli_Main\<close>
  (\<open>main.rs\<close>): the process with its exit code, and the loop of a worker with what it prints.

  \<^bold>\<open>Tests\<close>. \<open>Core_Tests\<close> and \<open>Shim_Tests\<close> translate the unit tests and the integration test of the
  repository and prove that the model passes them; \<open>Obfuscator_Test\<close> does so for the test with random
  matrices, in exact arithmetic. \<open>Jit_Latency\<close> runs the workloads of the
  benchmarks (\<open>omni-core/benches\<close>) and proves that none of their calls fails.

  \<^bold>\<open>How code becomes definitions.\<close> Structs are records and enums datatypes with the names of the source
  (changed where Isabelle reserves one). \<open>Result\<close> is a sum with \<open>Inl\<close> for the error; a panic is an
  error value or the option None. Hash maps are partial maps; an iteration order is an argument.
  Strings are byte sequences. Random bytes, clocks, measured durations, file contents, the answer
  of the system allocator and spawned processes are arguments. Lengths and indices of vectors are
  natural numbers: their products are the sizes of existing vectors.

  \<^bold>\<open>Bounds.\<close> Allocations are assumed to fit into the address space that is left (\<open>fits\<close>), and fresh
  handles are proved for the first \<open>2^63\<close> calls. The retry loop of \<open>Obfuscator.generate\<close> has fuel
  because it may draw singular matrices forever; with more fuel than attempts before the first
  draw of zeros off the diagonal it returns (\<open>generate_returns\<close>, in binary32; a column-dominant draw is enough in
  exact arithmetic), and \<open>generate_returns_iff\<close> says exactly when, in any arithmetic. The indices of the emitted
  kernels have 32 bits and an overflow ends an execution; the theorems about the kernels
  assume matrices of at most \<open>2^31\<close> elements and grids of at most \<open>2^31\<close> threads, and prove that no index overflows. All other loops are total functions; the endless loops of the worker threads are step relations.

  \<^bold>\<open>Not modelled.\<close> Trace output, progress bars and argument parsing (a parameter of \<open>main_entry\<close>); the context stack of
  \<open>interceptor.rs\<close>, which no function uses; the languages of the emitted kernels beyond the
  statements that the templates use (the activations Gelu and Silu and the arithmetic of the
  elements are parameters, and a statement is one step of its thread); measured run times; that the test of the obfuscator passes in single precision. The crates clap, bincode, aes-gcm, rand and colored are parameters.

  \<^bold>\<open>What modelling showed.\<close> Lemmas and theorems about surprising behaviour are stated next to the
  properties: device memory can be overcommitted by migration (\<open>migrate_overcommits\<close>), active
  layers can be evicted (\<open>active_layer_evicted\<close>), dead code elimination after a fusion deletes the
  module (\<open>fusion_before_dce_deletes_all\<close>), fusions can drop a shared product
  (\<open>fusion_drops_shared_product\<close>), a fused addition is not in the generated code
  (\<open>fused_addition_is_dropped\<close>), shaders of several operations define \<open>main\<close> several times
  (\<open>spirv_mains\<close>), huge allocations wrap
  around the capacity (\<open>huge_alloc_overcommits\<close>), launch configurations miss cells (\<open>matmul_launch_config\<close>: the emitted matrix kernels are correct when the tiles have the size of the blocks,
  which the passes arrange for Vulkan only) or leave the shared
  tiles (\<open>shared_memory_bounds\<close>), copies are not checked (\<open>copy_after_free\<close>), a hash
  collision returns another kernel (\<open>hash_collision_returns_wrong_kernel\<close>), the claimed diagonal
  dominance fails (\<open>offset_matrix_singular\<close>), launches by programs that were compiled against the
  CUDA headers are misread (\<open>launch_passing\<close>), launches on unknown streams vanish
  (\<open>launch_on_unknown_stream\<close>), and a joined worker only ever registers itself
  (\<open>joined_worker_registers_itself\<close>).
\<close>

end
